(* ===== verification/Prelude.thy ===== *)
theory Prelude
  imports Main "HOL-Library.Word"
begin

unbundle bit_operations_syntax

text \<open>
  Shared vocabulary of the development: the fixed-width integer types of the C++ sources,
  the little-endian object representation behind \<^verbatim>\<open>std::bit_cast\<close>, reads and writes of a
  byte range of a fixed-size buffer, C++ integer division, and the facts about them that every
  component uses.  Collections of facts:
  \<^item> \<open>buffer_simps\<close>: lengths and contents of byte ranges of a buffer;
  \<^item> \<open>codec_simps\<close>: decoding what was encoded;
  \<^item> \<open>frame\<close>: what an operation leaves unchanged;
  \<^item> \<open>wf_intros\<close>: an operation keeps its component's well-formedness invariant.
\<close>

named_theorems buffer_simps \<open>byte ranges of a buffer\<close>
named_theorems codec_simps \<open>decoding an encoded value\<close>
named_theorems frame \<open>parts of a state an operation leaves unchanged\<close>
named_theorems wf_intros \<open>preservation of well-formedness\<close>

section \<open>Machine integers\<close>

type_synonym u8 = "8 word"
type_synonym u16 = "16 word"
type_synonym u32 = "32 word"
type_synonym u64 = "64 word"
type_synonym byte = "8 word"

text \<open>Addition that does not wrap, read as a natural number.\<close>

lemma unat_add_of_nat:
  fixes a :: "'a::len word"
  assumes "unat a + n < 2 ^ LENGTH('a)"
  shows "unat (a + of_nat n) = unat a + n"
proof -
  have "unat (of_nat n :: 'a word) = n"
    using assms by (simp add: unat_of_nat take_bit_nat_eq_self)
  with assms show ?thesis
    by (simp add: unat_add_lem [THEN iffD1])
qed

lemma unat_u16_bound: "unat (w :: u16) < 65536"
  using unsigned_less [of w] by simp

lemma unat_u8_bound: "unat (w :: u8) < 256"
  using unsigned_less [of w] by simp

lemma unat_u32_bound: "unat (w :: u32) < 4294967296"
  using unsigned_less [of w] by simp

lemma unat_u64_bound: "unat (w :: u64) < 18446744073709551616"
  using unsigned_less [of w] by simp

lemma u16_add:
  "unat (a :: u16) + n < 65536 \<Longrightarrow> unat (a + of_nat n) = unat a + n"
  using unat_add_of_nat [of a n] by simp

text \<open>Widening conversions keep the value.\<close>

lemma unat_ucast_widen:
  fixes w :: "'a::len word"
  assumes "LENGTH('a) \<le> LENGTH('b::len)"
  shows "unat (ucast w :: 'b word) = unat w"
proof -
  have "unat w < 2 ^ LENGTH('a)" by (rule unsigned_less)
  also have "(2 :: nat) ^ LENGTH('a) \<le> 2 ^ LENGTH('b)" using assms by simp
  finally have "unat w < 2 ^ LENGTH('b)" .
  then show ?thesis by (simp add: unsigned_ucast_eq take_bit_nat_eq_self)
qed

text \<open>Conversion to a signed 32-bit integer.\<close>

definition int32 :: "int \<Rightarrow> int" where
  "int32 i = sint (word_of_int i :: 32 word)"

lemma int32_id: "- 2147483648 \<le> z \<Longrightarrow> z \<le> 2147483647 \<Longrightarrow> int32 z = z"
  by (simp add: int32_def signed_of_int signed_take_bit_int_eq_self)

text \<open>A loop whose bound grows at every round ends.\<close>

lemma rest_decreases: "a < b \<Longrightarrow> 2 ^ 64 - unat (b :: u64) < 2 ^ 64 - unat a"
  using unat_u64_bound [of b] by (simp add: word_less_nat_alt)

text \<open>C++ integer division truncates towards zero; the remainder has the dividend's sign.\<close>

definition c_div :: "int \<Rightarrow> int \<Rightarrow> int" where
  "c_div a b = sgn a * sgn b * (\<bar>a\<bar> div \<bar>b\<bar>)"

definition c_mod :: "int \<Rightarrow> int \<Rightarrow> int" where
  "c_mod a b = a - c_div a b * b"

lemma c_div_nonneg [simp]: "0 \<le> a \<Longrightarrow> 0 < b \<Longrightarrow> c_div a b = a div b"
  by (cases "a = 0") (auto simp: c_div_def)

lemma c_mod_nonneg [simp]: "0 \<le> a \<Longrightarrow> 0 < b \<Longrightarrow> c_mod a b = a mod b"
  by (simp add: c_mod_def minus_div_mult_eq_mod)

lemma c_div_mod: "c_div a b * b + c_mod a b = a"
  by (simp add: c_mod_def)

section \<open>Little-endian object representation\<close>

text \<open>The low \<open>n\<close> bytes of a number, least significant first, and the number they denote.\<close>

fun le_bytes :: "nat \<Rightarrow> nat \<Rightarrow> byte list" where
  "le_bytes 0 v = []"
| "le_bytes (Suc n) v = of_nat (v mod 256) # le_bytes n (v div 256)"

fun le_val :: "byte list \<Rightarrow> nat" where
  "le_val [] = 0"
| "le_val (b # bs) = unat b + 256 * le_val bs"

lemma length_le_bytes [simp]: "length (le_bytes n v) = n"
  by (induction n arbitrary: v) auto

lemma le_val_le_bytes [codec_simps]: "le_val (le_bytes n v) = v mod 256 ^ n"
proof (induction n arbitrary: v)
  case 0
  then show ?case by simp
next
  case (Suc n)
  have "unat (of_nat (v mod 256) :: byte) = v mod 256"
    by (simp add: unat_of_nat take_bit_nat_eq_self)
  then show ?case
    by (simp add: Suc.IH mod_mult2_eq)
qed

lemma le_val_bound: "le_val bs < 256 ^ length bs"
proof (induction bs)
  case Nil
  then show ?case by simp
next
  case (Cons b bs)
  then show ?case using unat_u8_bound [of b] by simp
qed

lemma le_bytes_le_val [codec_simps]: "le_bytes (length bs) (le_val bs) = bs"
proof (induction bs)
  case Nil
  then show ?case by simp
next
  case (Cons b bs)
  then show ?case using unat_u8_bound [of b] by simp
qed

text \<open>
  \<open>bytes_of\<close> is \<^verbatim>\<open>std::bit_cast<std::array<unsigned char, sizeof(T)>>\<close> of an integer on a
  little-endian host, \<open>word_of_bytes\<close> the cast back.
\<close>

definition sizeof :: "'a::len word \<Rightarrow> nat" where
  "sizeof w = LENGTH('a) div 8"

definition bytes_of :: "'a::len word \<Rightarrow> byte list" where
  "bytes_of w = le_bytes (sizeof w) (unat w)"

definition word_of_bytes :: "byte list \<Rightarrow> 'a::len word" where
  "word_of_bytes bs = of_nat (le_val bs)"

lemma length_bytes_of [simp]: "length (bytes_of w) = sizeof w"
  by (simp add: bytes_of_def)

lemma sizeof_simps [simp]:
  "sizeof (a :: u8) = 1" "sizeof (b :: u16) = 2" "sizeof (c :: u32) = 4" "sizeof (d :: u64) = 8"
  by (simp_all add: sizeof_def)

lemma bytes_of_byte [simp]: "bytes_of (b :: u8) = [b]"
  using unat_u8_bound [of b] by (simp add: bytes_of_def)

lemma pow256: "8 dvd n \<Longrightarrow> (256 :: nat) ^ (n div 8) = 2 ^ n"
  using power_mult [of "2 :: nat" 8 "n div 8"] by simp

lemma word_of_bytes_of [codec_simps]:
  fixes w :: "'a::len word"
  assumes "8 dvd LENGTH('a)"
  shows "word_of_bytes (bytes_of w) = w"
proof -
  have "(256 :: nat) ^ sizeof w = 2 ^ LENGTH('a)"
    using assms pow256 [of "LENGTH('a)"] by (simp add: sizeof_def)
  then show ?thesis
    by (simp add: word_of_bytes_def bytes_of_def codec_simps)
qed

lemma bytes_of_word_of_bytes [codec_simps]:
  assumes "8 dvd LENGTH('a)" and "length bs = LENGTH('a) div 8"
  shows "bytes_of (word_of_bytes bs :: 'a::len word) = bs"
proof -
  have "(256 :: nat) ^ length bs = 2 ^ LENGTH('a)"
    using assms pow256 [of "LENGTH('a)"] by simp
  then have "unat (of_nat (le_val bs) :: 'a word) = le_val bs"
    using le_val_bound [of bs] by (simp add: unat_of_nat take_bit_nat_eq_self)
  then show ?thesis
    using assms(2) le_bytes_le_val [of bs]
    by (simp add: bytes_of_def word_of_bytes_def sizeof_def)
qed

section \<open>Byte ranges of a buffer\<close>

definition write_at :: "nat \<Rightarrow> 'a list \<Rightarrow> 'a list \<Rightarrow> 'a list" where
  "write_at p xs buf = take p buf @ xs @ drop (p + length xs) buf"

definition read_at :: "nat \<Rightarrow> nat \<Rightarrow> 'a list \<Rightarrow> 'a list" where
  "read_at p n buf = take n (drop p buf)"

lemma length_write_at [buffer_simps]:
  "p + length xs \<le> length buf \<Longrightarrow> length (write_at p xs buf) = length buf"
  by (simp add: write_at_def)

lemma length_read_at [buffer_simps]:
  "p + n \<le> length buf \<Longrightarrow> length (read_at p n buf) = n"
  by (simp add: read_at_def)

lemma read_write_same [buffer_simps]:
  "p + length xs \<le> length buf \<Longrightarrow> n = length xs \<Longrightarrow> read_at p n (write_at p xs buf) = xs"
  by (simp add: read_at_def write_at_def)

lemma read_write_before [buffer_simps]:
  "q + n \<le> p \<Longrightarrow> p \<le> length buf \<Longrightarrow> read_at q n (write_at p xs buf) = read_at q n buf"
  by (simp add: read_at_def write_at_def take_drop)

lemma read_write_after [buffer_simps]:
  "p + length xs \<le> q \<Longrightarrow> p + length xs \<le> length buf \<Longrightarrow>
   read_at q n (write_at p xs buf) = read_at q n buf"
  by (simp add: read_at_def write_at_def)

lemma read_at_append [buffer_simps]:
  "p + m + n \<le> length buf \<Longrightarrow> read_at p (m + n) buf = read_at p m buf @ read_at (p + m) n buf"
  by (simp add: read_at_def take_add add.commute)

lemma write_read_same [buffer_simps]:
  "p + n \<le> length buf \<Longrightarrow> write_at p (read_at p n buf) buf = buf"
proof -
  assume "p + n \<le> length buf"
  then have "length (take n (drop p buf)) = n" by simp
  then show ?thesis
    by (simp add: write_at_def read_at_def)
       (metis add.commute append_take_drop_id drop_drop)
qed

lemma write_write_same [buffer_simps]:
  "p + length xs \<le> length buf \<Longrightarrow> length ys = length xs \<Longrightarrow>
   write_at p ys (write_at p xs buf) = write_at p ys buf"
  by (simp add: write_at_def)

lemma write_at_Cons:
  "Suc p \<le> length buf \<Longrightarrow> write_at p (x # xs) buf = write_at (Suc p) xs (write_at p [x] buf)"
  by (simp add: write_at_def take_Suc_conv_app_nth Suc_le_eq add.commute)

section \<open>Lists\<close>

text \<open>\<^verbatim>\<open>std::ranges::find\<close> followed by \<^verbatim>\<open>erase\<close> of the iterator found.\<close>

lemma set_remove1_subset': "x \<in> set (remove1 y xs) \<Longrightarrow> x \<in> set xs"
  by (meson in_set_takeD notin_set_remove1)

lemma distinct_remove1_mem: "distinct xs \<Longrightarrow> x \<in> set (remove1 y xs) \<longleftrightarrow> x \<in> set xs \<and> x \<noteq> y"
  by (simp add: set_remove1_eq)

lemma filter_shrinks: "length (filter P xs) < length xs \<longleftrightarrow> (\<exists>x \<in> set xs. \<not> P x)"
  by (induction xs) (auto simp: less_Suc_eq_le)

end
