(* ===== verification/Money.thy ===== *)
theory Money
  imports Prelude "HOL-Library.Multiset"
begin

text \<open>
  Money that is carried: \<^verbatim>\<open>Item::getWorth\<close>, \<^verbatim>\<open>Player::getMoney\<close>, and \<^verbatim>\<open>Game::removeMoney\<close> and
  \<^verbatim>\<open>Game::addMoney\<close> of \<^verbatim>\<open>src/game/game.cpp\<close>.  An inventory is the list of the things in the slots, a
  container holds further things, and every pile of items has an object number, its identity.  The
  coins \<open>addMoney\<close> creates are a list of new piles: where a cylinder puts them (inventory, loot
  pouch, the floor) is not modelled, nor do they ever merge into a pile that is being removed, since
  change is smaller than one coin of that pile.  An item the game refuses to remove is a parameter.
\<close>

section \<open>Coins\<close>

definition ITEM_GOLD_COIN :: u16 where "ITEM_GOLD_COIN = 3031"
definition ITEM_PLATINUM_COIN :: u16 where "ITEM_PLATINUM_COIN = 3035"
definition ITEM_CRYSTAL_COIN :: u16 where "ITEM_CRYSTAL_COIN = 3043"

definition getWorth :: "u16 \<Rightarrow> u16 \<Rightarrow> u32" where
  "getWorth i cnt =
     (if i = ITEM_GOLD_COIN then ucast cnt
      else if i = ITEM_PLATINUM_COIN then ucast cnt * 100
      else if i = ITEM_CRYSTAL_COIN then ucast cnt * 10000
      else 0)"

definition coin_value :: "u16 \<Rightarrow> nat" where
  "coin_value i = (if i = ITEM_GOLD_COIN then 1 else if i = ITEM_PLATINUM_COIN then 100
     else if i = ITEM_CRYSTAL_COIN then 10000 else 0)"

lemma unat_getWorth: "unat (getWorth i c) = coin_value i * unat c"
proof -
  have c: "unat c < 65536" by (rule unat_u16_bound)
  have "unat (ucast c * k :: u32) = unat c * unat k" if "unat k \<le> 10000" for k :: u32
  proof -
    have "unat c * unat k \<le> 65535 * 10000" using c that by (intro mult_le_mono) auto
    then show ?thesis by (simp add: unat_word_ariths unat_ucast_widen)
  qed
  from this [of 100] this [of 10000] show ?thesis
    by (simp add: getWorth_def coin_value_def unat_ucast_widen)
qed

lemma coin_value_le: "coin_value i \<le> 10000"
  by (simp add: coin_value_def)

lemma unat_getWorth_bound: "unat (getWorth i c) < 2 ^ 32"
  using unat_u32_bound [of "getWorth i c"] by simp

section \<open>Inventories\<close>

datatype thing = Pile nat u16 u16 | Bag nat "thing list"

fun money_in :: "thing \<Rightarrow> u64" where
  "money_in (Pile obj i cnt) = ucast (getWorth i cnt)"
| "money_in (Bag obj items) = sum_list (map money_in items)"

definition getMoney :: "thing list \<Rightarrow> u64" where
  "getMoney inventory = sum_list (map money_in inventory)"

text \<open>The piles of an inventory, whatever container they are in, and their worth.\<close>

type_synonym pile = "nat \<times> u16 \<times> u16"

fun piles :: "thing \<Rightarrow> pile list" where
  "piles (Pile obj i cnt) = [(obj, i, cnt)]"
| "piles (Bag obj items) = concat (map piles items)"

abbreviation all_piles :: "thing list \<Rightarrow> pile list" where
  "all_piles inventory \<equiv> concat (map piles inventory)"

definition pile_worth :: "pile \<Rightarrow> nat" where
  "pile_worth p = unat (getWorth (fst (snd p)) (snd (snd p)))"

definition worth :: "pile list \<Rightarrow> nat" where
  "worth ps = sum_list (map pile_worth ps)"

lemma worth_simps [simp]:
  "worth [] = 0" "worth (p # ps) = pile_worth p + worth ps" "worth (ps @ qs) = worth ps + worth qs"
  by (simp_all add: worth_def)

lemma money_in_piles: "money_in t = of_nat (worth (piles t))"
proof (induction t)
  case (Bag obj items)
  then have "sum_list (map money_in items) = of_nat (worth (all_piles items))"
    by (induction items) auto
  then show ?case by simp
qed (simp add: pile_worth_def)

lemma getMoney_worth: "worth (all_piles inven) < 2 ^ 64 \<Longrightarrow> unat (getMoney inven) = worth (all_piles inven)"
proof -
  have "sum_list (map money_in inven) = of_nat (worth (all_piles inven))"
    by (induction inven) (auto simp: money_in_piles)
  then show "worth (all_piles inven) < 2 ^ 64 \<Longrightarrow> ?thesis"
    by (simp add: getMoney_def unat_of_nat)
qed

section \<open>Adding money\<close>

type_synonym coins = "(u16 \<times> u16) list"

function addCoins :: "u16 \<Rightarrow> nat \<Rightarrow> coins" where
  "addCoins i cnt =
     (if cnt = 0 then []
      else let createCount = min 100 cnt in (i, of_nat createCount) # addCoins i (cnt - createCount))"
  by pat_completeness auto
termination
  by (relation "measure snd") auto

declare addCoins.simps [simp del]

definition addMoney :: "u64 \<Rightarrow> coins" where
  "addMoney money =
     (let crystalCoins = ucast (money div 10000) :: u32;
          m1 = (if crystalCoins \<noteq> 0 then money - ucast crystalCoins * 10000 else money);
          platinumCoins = ucast (m1 div 100) :: u32;
          m2 = (if platinumCoins \<noteq> 0 then m1 - ucast platinumCoins * 100 else m1)
      in (if crystalCoins \<noteq> 0 then addCoins ITEM_CRYSTAL_COIN (unat crystalCoins) else []) @
         (if platinumCoins \<noteq> 0 then addCoins ITEM_PLATINUM_COIN (unat (ucast platinumCoins :: u16)) else []) @
         (if m2 > 0 then addCoins ITEM_GOLD_COIN (unat (ucast m2 :: u32)) else []))"

definition coins_worth :: "coins \<Rightarrow> nat" where
  "coins_worth cs = (\<Sum>c\<leftarrow>cs. unat (getWorth (fst c) (snd c)))"

lemma coins_worth_simps [simp]:
  "coins_worth [] = 0" "coins_worth (c # cs) = unat (getWorth (fst c) (snd c)) + coins_worth cs"
  "coins_worth (cs @ ds) = coins_worth cs + coins_worth ds"
  by (simp_all add: coins_worth_def)

lemma addCoins_worth: "coins_worth (addCoins i n) = coin_value i * n"
proof (induction i n rule: addCoins.induct)
  case (1 i n)
  show ?case
  proof (cases "n = 0")
    case False
    let ?k = "min 100 n"
    have "unat (of_nat ?k :: u16) = ?k" by (simp add: unat_of_nat min_def)
    moreover have "coin_value i * ?k + coin_value i * (n - ?k) = coin_value i * n"
      by (simp flip: add_mult_distrib2)
    ultimately show ?thesis
      using 1 [OF False refl] False by (simp add: addCoins.simps [of i n] Let_def unat_getWorth)
  qed (simp add: addCoins.simps)
qed

lemma addCoins_stacks: "c \<in> set (addCoins i n) \<Longrightarrow> fst c = i \<and> 0 < unat (snd c) \<and> unat (snd c) \<le> 100"
proof (induction i n rule: addCoins.induct)
  case (1 i n)
  have "unat (of_nat (min 100 n) :: u16) = min 100 n" by (simp add: unat_of_nat min_def)
  then show ?case
    using 1 addCoins.simps [of i n] by (cases "n = 0") (auto simp: Let_def)
qed

lemma unat_ucast_u16: "unat (ucast (w :: u32) :: u16) = unat w mod 65536"
  by (simp add: unsigned_ucast_eq take_bit_eq_mod)

lemma addMoney_eq:
  assumes "unat m < 10000 * 2 ^ 32"
  shows "addMoney m = addCoins ITEM_CRYSTAL_COIN (unat m div 10000) @
    addCoins ITEM_PLATINUM_COIN (unat m mod 10000 div 100) @ addCoins ITEM_GOLD_COIN (unat m mod 100)"
proof -
  have none: "addCoins i 0 = []" for i by (simp add: addCoins.simps)
  let ?c = "ucast (m div 10000) :: u32"
  have q: "unat m div 10000 < 2 ^ 32" using assms by (simp add: less_mult_imp_div_less mult.commute)
  then have c: "unat ?c = unat m div 10000" by (simp add: unsigned_ucast_eq unat_div take_bit_nat_eq_self)
  define m1 where "m1 = (if ?c \<noteq> 0 then m - ucast ?c * 10000 else m)"
  have "unat (ucast ?c * 10000 :: u64) = unat m div 10000 * 10000"
    using q c unat_u64_bound [of m] by (simp add: unat_word_ariths unat_ucast_widen)
  moreover have "unat m div 10000 * 10000 \<le> unat m" by simp
  ultimately have "unat (m - ucast ?c * 10000) = unat m - unat m div 10000 * 10000"
    by (simp add: unat_sub word_le_nat_alt)
  then have m1: "unat m1 = unat m mod 10000"
    using c by (auto simp: m1_def minus_div_mult_eq_mod unat_eq_zero [symmetric])
  let ?p = "ucast (m1 div 100) :: u32"
  have b: "unat m1 < 10000" using m1 by simp
  then have p: "unat ?p = unat m1 div 100" by (simp add: unsigned_ucast_eq unat_div take_bit_nat_eq_self)
  have p16: "unat (ucast ?p :: u16) = unat m1 div 100" using b unfolding unat_ucast_u16 p by simp
  define m2 where "m2 = (if ?p \<noteq> 0 then m1 - ucast ?p * 100 else m1)"
  have "unat (ucast ?p * 100 :: u64) = unat m1 div 100 * 100"
    using b p by (simp add: unat_word_ariths unat_ucast_widen)
  moreover have "unat m1 div 100 * 100 \<le> unat m1" by simp
  ultimately have "unat (m1 - ucast ?p * 100) = unat m1 - unat m1 div 100 * 100"
    by (simp add: unat_sub word_le_nat_alt)
  then have m2: "unat m2 = unat m1 mod 100"
    using p by (auto simp: m2_def minus_div_mult_eq_mod unat_eq_zero [symmetric])
  have m2': "unat (ucast m2 :: u32) = unat m1 mod 100" using m2 by (simp add: unsigned_ucast_eq take_bit_nat_eq_self)
  have "addMoney m = (if ?c \<noteq> 0 then addCoins ITEM_CRYSTAL_COIN (unat ?c) else []) @
      (if ?p \<noteq> 0 then addCoins ITEM_PLATINUM_COIN (unat (ucast ?p :: u16)) else []) @
      (if m2 > 0 then addCoins ITEM_GOLD_COIN (unat (ucast m2 :: u32)) else [])"
    unfolding addMoney_def Let_def m1_def m2_def by (rule refl)
  moreover have "?c = 0 \<Longrightarrow> unat m div 10000 = 0" "?p = 0 \<Longrightarrow> unat m1 div 100 = 0" "\<not> m2 > 0 \<Longrightarrow> unat m1 mod 100 = 0"
    using c p m2 by (auto simp: word_gt_0)
  moreover have "unat m mod 10000 mod 100 = unat m mod 100" by (simp add: mod_mod_cancel)
  ultimately show ?thesis using c p16 m2' m1 by (auto simp: none)
qed

lemma addMoney_worth: "unat m < 10000 * 2 ^ 32 \<Longrightarrow> coins_worth (addMoney m) = unat m"
proof -
  assume "unat m < 10000 * 2 ^ 32"
  moreover have "10000 * (unat m div 10000) + (100 * (unat m mod 10000 div 100) + unat m mod 100) = unat m"
    using mult_div_mod_eq [of 10000 "unat m"] mult_div_mod_eq [of 100 "unat m mod 10000"]
      mod_mod_cancel [of 100 10000 "unat m"] by simp
  ultimately show ?thesis
    by (simp add: addMoney_eq addCoins_worth coin_value_def ITEM_GOLD_COIN_def ITEM_PLATINUM_COIN_def ITEM_CRYSTAL_COIN_def)
qed

section \<open>Removing money\<close>

text \<open>The piles of money of a list of things, level by level through the containers.\<close>

fun money_piles :: "thing list \<Rightarrow> pile list" where
  "money_piles [] = []"
| "money_piles (Pile obj i cnt # ts) = (if getWorth i cnt \<noteq> 0 then (obj, i, cnt) # money_piles ts else money_piles ts)"
| "money_piles (Bag obj items # ts) = money_piles ts"

fun bags :: "thing list \<Rightarrow> thing list list" where
  "bags [] = []"
| "bags (Pile obj i cnt # ts) = bags ts"
| "bags (Bag obj items # ts) = items # bags ts"

lemma bags_size: "(\<Sum>c\<leftarrow>bags ts. Suc (size_list size c)) \<le> size_list size ts"
  by (induction ts rule: bags.induct) auto

function gather :: "thing list list \<Rightarrow> pile list" where
  "gather [] = []"
| "gather (c # cs) = money_piles c @ gather (cs @ bags c)"
  by pat_completeness auto
termination
proof (relation "measure (\<lambda>cs. \<Sum>c\<leftarrow>cs. Suc (size_list size c))")
  fix c :: "thing list" and cs
  show "(cs @ bags c, c # cs) \<in> measure (\<lambda>cs. \<Sum>c\<leftarrow>cs. Suc (size_list size c))"
    using bags_size [of c] by simp
qed simp

definition unitWorth :: "pile \<Rightarrow> u32" where
  "unitWorth p = getWorth (fst (snd p)) (snd (snd p)) div max 1 (ucast (snd (snd p)))"

text \<open>Lower denominations first, then smaller piles.\<close>

definition sort_money :: "pile list \<Rightarrow> pile list" where
  "sort_money ps = sort_key unitWorth (sort_key (\<lambda>p. getWorth (fst (snd p)) (snd (snd p))) ps)"

text \<open>\<^verbatim>\<open>internalRemoveItem\<close> on a pile of coins: the pile goes, or its count, kept in eight bits, is lowered.\<close>

fun shrink :: "nat \<Rightarrow> nat \<Rightarrow> thing \<Rightarrow> thing list" where
  "shrink obj n (Pile obj' i cnt) =
     (if obj' = obj then (if n = unat cnt then [] else [Pile obj' i (ucast (of_nat (unat cnt - n) :: u8))])
      else [Pile obj' i cnt])"
| "shrink obj n (Bag obj' items) = [Bag obj' (concat (map (shrink obj n) items))]"

definition internalRemoveItem :: "(nat \<Rightarrow> bool) \<Rightarrow> nat \<Rightarrow> nat \<Rightarrow> thing list \<Rightarrow> thing list" where
  "internalRemoveItem refuses obj n inven =
     (if refuses obj then inven else concat (map (shrink obj n) inven))"

text \<open>The loop over the sorted piles: the inventory and the change it leaves, and what is still to be paid.\<close>

fun pay :: "(nat \<Rightarrow> bool) \<Rightarrow> pile list \<Rightarrow> u64 \<Rightarrow> thing list \<Rightarrow> thing list \<times> coins \<times> u64" where
  "pay refuses [] money inven = (inven, [], money)"
| "pay refuses ((obj, i, cnt) # ps) money inven =
     (let worthTotal = getWorth i cnt in
      if ucast worthTotal < money then
        let inven1 = internalRemoveItem refuses obj (unat cnt) inven; money1 = money - ucast worthTotal
        in if money1 = 0 then (inven1, [], 0) else pay refuses ps money1 inven1
      else if ucast worthTotal > money then
        let unit = worthTotal div ucast cnt;
            removeCount = of_nat ((unat money + unat unit - 1) div unat unit) :: u32
        in (internalRemoveItem refuses obj (unat removeCount) inven,
            addMoney (ucast (unit * removeCount) - money), 0)
      else (internalRemoveItem refuses obj (unat cnt) inven, [], 0))"

record payment =
  paid :: bool
  pay_inventory :: "thing list"
  pay_change :: coins
  pay_balance :: u64

definition removeMoney :: "(nat \<Rightarrow> bool) \<Rightarrow> thing list \<Rightarrow> u64 \<Rightarrow> bool \<Rightarrow> u64 \<Rightarrow> payment" where
  "removeMoney refuses inven bankBalance useBalance money =
     (if money = 0 then \<lparr>paid = True, pay_inventory = inven, pay_change = [], pay_balance = bankBalance\<rparr>
      else
        let moneyItems = gather [inven];
            moneyCount = (\<Sum>p\<leftarrow>moneyItems. ucast (getWorth (fst (snd p)) (snd (snd p)))) :: u64;
            balance = (if useBalance then bankBalance else 0)
        in if moneyCount + balance < money
           then \<lparr>paid = False, pay_inventory = inven, pay_change = [], pay_balance = bankBalance\<rparr>
           else
             let (inven1, change, rest) = pay refuses (sort_money moneyItems) money inven
             in \<lparr>paid = True, pay_inventory = inven1, pay_change = change,
                  pay_balance = (if rest \<noteq> 0 \<and> useBalance \<and> bankBalance \<ge> rest then bankBalance - rest else bankBalance)\<rparr>)"

subsection \<open>What is gathered\<close>

abbreviation is_money :: "pile \<Rightarrow> bool" where
  "is_money p \<equiv> getWorth (fst (snd p)) (snd (snd p)) \<noteq> 0"

lemma money_piles_bags:
  "mset (filter is_money (all_piles ts)) = mset (money_piles ts) + mset (filter is_money (concat (map all_piles (bags ts))))"
  by (induction ts rule: bags.induct) auto

lemma gather_mset: "mset (gather cs) = mset (filter is_money (concat (map all_piles cs)))"
proof (induction cs rule: gather.induct)
  case (2 c cs)
  then show ?case using money_piles_bags [of c] by simp
qed simp

lemma worth_filter: "worth (filter is_money ps) = worth ps"
  by (induction ps) (auto simp: pile_worth_def)

lemma worth_mset: "mset ps = mset qs \<Longrightarrow> worth ps = worth qs"
  unfolding worth_def by (metis mset_map sum_mset_sum_list)

lemma gather_worth: "worth (gather [inven]) = worth (all_piles inven)"
  using worth_mset [OF gather_mset [of "[inven]"]] by (simp add: worth_filter)

lemma gather_set: "set (gather [inven]) = {p \<in> set (all_piles inven). is_money p}"
  using arg_cong [OF gather_mset [of "[inven]"], of set_mset] by auto

lemma gather_distinct: "distinct (map fst (all_piles inven)) \<Longrightarrow> distinct (map fst (gather [inven]))"
proof -
  assume "distinct (map fst (all_piles inven))"
  then have d: "distinct (map fst (filter is_money (all_piles inven)))" by (rule distinct_map_filter)
  have "mset (gather [inven]) = mset (filter is_money (all_piles inven))"
    using gather_mset [of "[inven]"] by (simp only: list.map concat.simps append_Nil2)
  then have "mset (map fst (gather [inven])) = mset (map fst (filter is_money (all_piles inven)))"
    by (simp only: mset_map)
  from mset_eq_imp_distinct_iff [OF this] d show ?thesis by blast
qed

lemma sort_money_mset [simp]: "mset (sort_money ps) = mset ps"
  by (simp add: sort_money_def)

lemma sort_money_set [simp]: "set (sort_money ps) = set ps"
  by (simp add: sort_money_def)

subsection \<open>What is removed\<close>

definition shrink_pile :: "nat \<Rightarrow> nat \<Rightarrow> pile \<Rightarrow> pile list" where
  "shrink_pile obj n p =
     (if fst p = obj then
        (if n = unat (snd (snd p)) then [] else [(fst p, fst (snd p), ucast (of_nat (unat (snd (snd p)) - n) :: u8))])
      else [p])"

lemma all_piles_shrink: "all_piles (shrink obj n t) = concat (map (shrink_pile obj n) (piles t))"
proof (induction t)
  case (Bag obj' items)
  then have "all_piles (concat (map (shrink obj n) items)) = concat (map (shrink_pile obj n) (all_piles items))"
    by (induction items) auto
  then show ?case by simp
qed (simp add: shrink_pile_def)

lemma all_piles_remove:
  "\<not> refuses obj \<Longrightarrow> all_piles (internalRemoveItem refuses obj n inven) = concat (map (shrink_pile obj n) (all_piles inven))"
  unfolding internalRemoveItem_def by (induction inven) (auto simp: all_piles_shrink)

lemma shrink_other: "fst p \<noteq> obj \<Longrightarrow> shrink_pile obj n p = [p]"
  by (simp add: shrink_pile_def)

lemma shrink_pile_same:
  "shrink_pile obj n (obj, i, c) = (if n = unat c then [] else [(obj, i, ucast (of_nat (unat c - n) :: u8))])"
  by (simp add: shrink_pile_def)

lemma shrink_absent: "obj \<notin> set (map fst ps) \<Longrightarrow> concat (map (shrink_pile obj n) ps) = ps"
  by (induction ps) (auto simp: shrink_pile_def)

lemma unat_shrunk: "unat (c :: u16) \<le> 255 \<Longrightarrow> unat (ucast (of_nat (unat c - n) :: u8) :: u16) = unat c - n"
  by (simp add: unsigned_ucast_eq unsigned_of_nat take_bit_nat_eq_self)

lemma shrink_worth:
  assumes "distinct (map fst ps)" and "(obj, i, c) \<in> set ps" and "n \<le> unat c" and "unat c \<le> 255"
  shows "worth (concat (map (shrink_pile obj n) ps)) + coin_value i * n = worth ps"
  using assms(1,2)
proof (induction ps)
  case (Cons p ps)
  show ?case
  proof (cases "fst p = obj")
    case True
    then have p: "p = (obj, i, c)" using Cons.prems by (cases p) (force simp: image_iff)
    have "coin_value i * (unat c - n) + coin_value i * n = coin_value i * unat c"
      using assms(3) by (simp flip: add_mult_distrib2)
    moreover have "concat (map (shrink_pile obj n) ps) = ps"
      using Cons.prems True by (intro shrink_absent) auto
    ultimately show ?thesis
      using unat_shrunk [OF assms(4), of n] by (simp add: p shrink_pile_same pile_worth_def unat_getWorth)
  qed (use Cons in \<open>auto simp: shrink_other\<close>)
qed simp

lemma shrink_fst: "fst ` set (concat (map (shrink_pile obj n) ps)) \<subseteq> fst ` set ps"
  by (force simp: shrink_pile_def split: if_splits)

lemma shrink_distinct: "distinct (map fst ps) \<Longrightarrow> distinct (map fst (concat (map (shrink_pile obj n) ps)))"
proof (induction ps)
  case (Cons p ps)
  then have "fst p \<notin> fst ` set (concat (map (shrink_pile obj n) ps))" using shrink_fst [of obj n ps] by auto
  then show ?case using Cons by (auto simp: shrink_pile_def)
qed simp

lemma shrink_keeps: "p \<in> set ps \<Longrightarrow> fst p \<noteq> obj \<Longrightarrow> p \<in> set (concat (map (shrink_pile obj n) ps))"
  by (force simp: shrink_other)

subsection \<open>Paying\<close>

lemma unat_ucast_widen_u64: "unat (ucast (w :: u32) :: u64) = unat w"
  by (simp add: unat_ucast_widen)

lemma breaking_a_pile:
  fixes money :: u64
  assumes "ucast (getWorth i c) > money" and "money \<noteq> 0"
  defines "unit \<equiv> getWorth i c div ucast c"
  defines "R \<equiv> of_nat ((unat money + unat unit - 1) div unat unit) :: u32"
  shows "unat R \<le> unat c" and "coins_worth (addMoney (ucast (unit * R) - money)) + unat money = coin_value i * unat R"
proof -
  have w: "unat (getWorth i c) = coin_value i * unat c" by (rule unat_getWorth)
  have M: "unat money < coin_value i * unat c"
    using assms(1) by (simp add: word_less_nat_alt unat_ucast_widen w)
  then have V: "0 < coin_value i" and C: "0 < unat c" by (cases "coin_value i"; cases "unat c"; simp)+
  have unit: "unat unit = coin_value i"
    using C by (simp add: unit_def unat_div w unat_ucast_widen)
  define r where "r = (unat money + coin_value i - 1) div coin_value i"
  have "unat money + coin_value i - 1 < (unat c + 1) * coin_value i" using M V by (simp add: mult.commute)
  from less_mult_imp_div_less [OF this] have r: "r \<le> unat c" by (simp add: r_def)
  then have R: "unat R = r" using unat_u16_bound [of c] by (simp add: R_def unit unat_of_nat r_def)
  with r show "unat R \<le> unat c" by simp
  have lo: "unat money \<le> coin_value i * r" and hi: "coin_value i * r < unat money + coin_value i"
  proof -
    have "coin_value i * r + (unat money + coin_value i - 1) mod coin_value i = unat money + coin_value i - 1"
      by (simp add: r_def)
    then show "unat money \<le> coin_value i * r" "coin_value i * r < unat money + coin_value i"
      using V mod_less_divisor [OF V, of "unat money + coin_value i - 1"] by linarith+
  qed
  have "coin_value i * r \<le> coin_value i * unat c" using r by simp
  also have "\<dots> < 2 ^ 32" using unat_getWorth_bound [of i c] w by simp
  finally have "unat (unit * R) = coin_value i * r" by (simp add: unat_word_ariths unit R)
  then have u: "unat (ucast (unit * R) :: u64) = coin_value i * r" by (simp add: unat_ucast_widen)
  then have "money \<le> ucast (unit * R)" using lo by (simp add: word_le_nat_alt)
  then have change: "unat (ucast (unit * R) - money) = coin_value i * r - unat money" using u by (simp add: unat_sub)
  have "coin_value i * r - unat money < 10000" using hi coin_value_le [of i] by linarith
  then have "coins_worth (addMoney (ucast (unit * R) - money)) = coin_value i * r - unat money"
    using addMoney_worth [of "ucast (unit * R) - money"] change by simp
  then show "coins_worth (addMoney (ucast (unit * R) - money)) + unat money = coin_value i * unat R"
    using lo R by simp
qed

definition payable :: "pile list \<Rightarrow> thing list \<Rightarrow> bool" where
  "payable ps inven \<longleftrightarrow> distinct (map fst ps) \<and> distinct (map fst (all_piles inven)) \<and>
     (\<forall>p \<in> set ps. p \<in> set (all_piles inven) \<and> is_money p \<and> unat (snd (snd p)) \<le> 255)"

lemma remove_worth:
  assumes "payable ((obj, i, c) # ps) inven" and "\<not> refuses obj" and "n \<le> unat c"
  shows "worth (all_piles (internalRemoveItem refuses obj n inven)) + coin_value i * n = worth (all_piles inven)"
    and "payable ps (internalRemoveItem refuses obj n inven)"
proof -
  note p = assms(1) [unfolded payable_def]
  have mem: "(obj, i, c) \<in> set (all_piles inven)" "unat c \<le> 255" using p by simp_all
  show "worth (all_piles (internalRemoveItem refuses obj n inven)) + coin_value i * n = worth (all_piles inven)"
    unfolding all_piles_remove [of refuses, OF assms(2)] using p by (intro shrink_worth [OF _ mem(1) assms(3) mem(2)]) simp
  have "\<forall>q \<in> set ps. fst q \<noteq> obj" using p by force
  then show "payable ps (internalRemoveItem refuses obj n inven)"
    unfolding payable_def all_piles_remove [of refuses, OF assms(2)] using p
    by (simp add: shrink_distinct shrink_keeps del: set_concat)
qed

lemma pay_conserves:
  assumes "payable ps inven" and "\<And>obj. \<not> refuses obj" and "money \<noteq> 0"
  shows "\<exists>inven' change rest. pay refuses ps money inven = (inven', change, rest) \<and>
    worth (all_piles inven') + coins_worth change + unat money = worth (all_piles inven) + unat rest \<and>
    (rest \<noteq> 0 \<longrightarrow> worth ps + unat rest = unat money)"
  using assms(1,3)
proof (induction ps arbitrary: inven money)
  case (Cons p ps)
  obtain obj i c where p: "p = (obj, i, c)" by (cases p) auto
  let ?w = "getWorth i c"
  have w: "unat ?w = coin_value i * unat c" by (rule unat_getWorth)
  note rm = remove_worth [where refuses = refuses, OF Cons.prems(1) [unfolded p] assms(2)]
  consider "ucast ?w < money" | "ucast ?w > money" | "ucast ?w = money" by (meson linorder_cases)
  then show ?case
  proof cases
    case 1
    let ?m = "money - ucast ?w"
    let ?inven = "internalRemoveItem refuses obj (unat c) inven"
    have m: "unat ?m + unat ?w = unat money"
      using 1 by (simp add: unat_sub order_less_imp_le unat_ucast_widen word_less_nat_alt)
    show ?thesis
    proof (cases "?m = 0")
      case True
      then have "unat money = unat ?w" using m by simp
      then show ?thesis using 1 True rm(1) [OF order_refl] w by (simp add: p Let_def)
    next
      case False
      obtain inven' change rest where "pay refuses ps ?m ?inven = (inven', change, rest)"
        "worth (all_piles inven') + coins_worth change + unat ?m = worth (all_piles ?inven) + unat rest"
        "rest \<noteq> 0 \<longrightarrow> worth ps + unat rest = unat ?m"
        using Cons.IH [OF rm(2) [OF order_refl] False] by blast
      then show ?thesis using 1 False m rm(1) [OF order_refl] w
        by (cases "rest = 0") (simp_all add: p Let_def pile_worth_def)
    qed
  next
    case 2
    note b = breaking_a_pile [OF 2 Cons.prems(2)]
    have "\<not> ucast ?w < money" using 2 by simp
    then show ?thesis using 2 rm(1) [OF b(1)] b(2) by (simp add: p Let_def)
  next
    case 3
    then have "unat money = unat ?w" by (metis unat_ucast_widen_u64)
    then show ?thesis using 3 rm(1) [OF order_refl] w by (simp add: p Let_def)
  qed
qed simp

subsection \<open>Properties\<close>

definition purse_ok :: "thing list \<Rightarrow> bool" where
  "purse_ok inven \<longleftrightarrow> distinct (map fst (all_piles inven)) \<and> (\<forall>p \<in> set (all_piles inven). unat (snd (snd p)) \<le> 255)"

lemma purse_payable: "purse_ok inven \<Longrightarrow> payable (sort_money (gather [inven])) inven"
proof -
  assume ok: "purse_ok inven"
  then have "distinct (map fst (gather [inven]))" by (intro gather_distinct) (simp add: purse_ok_def)
  moreover have "mset (map fst (sort_money (gather [inven]))) = mset (map fst (gather [inven]))"
    by (simp only: mset_map sort_money_mset)
  ultimately have "distinct (map fst (sort_money (gather [inven])))" using mset_eq_imp_distinct_iff by blast
  then show ?thesis using ok unfolding payable_def sort_money_set gather_set purse_ok_def by blast
qed

lemma gathered_sum:
  "unat (\<Sum>p\<leftarrow>ps. ucast (getWorth (fst (snd p)) (snd (snd p))) :: u64) = worth ps" if "worth ps < 2 ^ 64"
proof -
  have "(\<Sum>p\<leftarrow>ps. ucast (getWorth (fst (snd p)) (snd (snd p))) :: u64) = of_nat (worth ps)"
    by (induction ps) (simp_all add: pile_worth_def)
  then show ?thesis using that by (simp add: unat_of_nat)
qed

lemma removeMoney_cases:
  fixes money bankBalance :: u64 and useBalance :: bool
  assumes "purse_ok inven" and "worth (all_piles inven) + unat bankBalance < 2 ^ 64"
    and "\<And>obj. \<not> refuses obj"
  defines "r \<equiv> removeMoney refuses inven bankBalance useBalance money"
  defines "available \<equiv> worth (all_piles inven) + (if useBalance then unat bankBalance else 0)"
  shows "paid r \<longleftrightarrow> unat money \<le> available"
    and "paid r \<Longrightarrow> worth (all_piles (pay_inventory r)) + coins_worth (pay_change r) + unat (pay_balance r) + unat money =
      worth (all_piles inven) + unat bankBalance"
    and "\<not> paid r \<Longrightarrow> pay_inventory r = inven \<and> pay_change r = [] \<and> pay_balance r = bankBalance"
proof -
  let ?ps = "gather [inven]"
  let ?cnt = "(\<Sum>p\<leftarrow>?ps. ucast (getWorth (fst (snd p)) (snd (snd p)))) :: u64"
  let ?bal = "if useBalance then bankBalance else 0"
  have "unat ?cnt = worth (all_piles inven)"
    using gathered_sum [of ?ps] assms(2) by (simp only: gather_worth)
  then have total: "unat (?cnt + ?bal) = available"
    using assms(2) by (simp add: available_def unat_word_ariths)
  have sw: "worth (sort_money ?ps) = worth (all_piles inven)"
    using worth_mset [OF sort_money_mset, of ?ps] gather_worth [of inven] by simp
  obtain inven' change rest where pay: "pay refuses (sort_money ?ps) money inven = (inven', change, rest)"
    by (cases "pay refuses (sort_money ?ps) money inven")
  note pc = pay_conserves [where refuses = refuses and money = money, OF purse_payable [OF assms(1)] assms(3)]
  have conserve: "money \<noteq> 0 \<Longrightarrow> worth (all_piles inven') + coins_worth change + unat money = worth (all_piles inven) + unat rest"
    and rest: "money \<noteq> 0 \<Longrightarrow> rest \<noteq> 0 \<Longrightarrow> worth (all_piles inven) + unat rest = unat money"
    using pc pay sw by (auto simp del: gather.simps)
  have r: "r = (if money = 0 then \<lparr>paid = True, pay_inventory = inven, pay_change = [], pay_balance = bankBalance\<rparr>
     else if ?cnt + ?bal < money then \<lparr>paid = False, pay_inventory = inven, pay_change = [], pay_balance = bankBalance\<rparr>
     else \<lparr>paid = True, pay_inventory = inven', pay_change = change,
       pay_balance = (if rest \<noteq> 0 \<and> useBalance \<and> bankBalance \<ge> rest then bankBalance - rest else bankBalance)\<rparr>)"
    unfolding r_def removeMoney_def Let_def pay by simp
  have poor: "?cnt + ?bal < money \<longleftrightarrow> available < unat money" by (simp only: word_less_nat_alt total)
  show "paid r \<longleftrightarrow> unat money \<le> available" unfolding r poor by auto
  show "\<not> paid r \<Longrightarrow> pay_inventory r = inven \<and> pay_change r = [] \<and> pay_balance r = bankBalance"
    unfolding r poor by (auto split: if_splits)
  assume "paid r"
  have covered: "useBalance \<and> bankBalance \<ge> rest" if "money \<noteq> 0" "unat money \<le> available" "rest \<noteq> 0"
  proof -
    have "0 < unat rest" using that(3) by (simp add: unat_gt_0)
    then show ?thesis using rest [OF that(1,3)] that(2)
      by (cases useBalance) (simp_all add: available_def word_le_nat_alt)
  qed
  show "worth (all_piles (pay_inventory r)) + coins_worth (pay_change r) + unat (pay_balance r) + unat money =
      worth (all_piles inven) + unat bankBalance"
  proof (cases "money = 0")
    case False
    then have le: "unat money \<le> available" using \<open>paid r\<close> unfolding r poor by (simp split: if_splits)
    show ?thesis
    proof (cases "rest = 0")
      case True
      then show ?thesis using False le conserve unfolding r poor by simp
    next
      case rest': False
      then have "unat (bankBalance - rest) + unat rest = unat bankBalance"
        using covered [OF False le] by (simp add: unat_sub word_le_nat_alt)
      then show ?thesis using False le rest' covered [OF False le rest'] conserve unfolding r poor by simp
    qed
  qed (simp add: r)
qed

text \<open>C13: A payment from carried money and, where allowed, the bank takes exactly the price: it succeeds if and
  only if the money is there, what is left together with the change and the balance is worth the price
  less than before, and a refused payment changes nothing.\<close>

theorem removeMoney_exact:
  assumes "purse_ok inven" and "worth (all_piles inven) + unat bankBalance < 2 ^ 64"
    and "\<forall>obj. \<not> refuses obj"
  shows "let r = removeMoney refuses inven bankBalance useBalance money in
      (paid r \<longleftrightarrow> unat money \<le> worth (all_piles inven) + (if useBalance then unat bankBalance else 0)) \<and>
      (if paid r
       then worth (all_piles (pay_inventory r)) + coins_worth (pay_change r) + unat (pay_balance r) + unat money =
         worth (all_piles inven) + unat bankBalance
       else pay_inventory r = inven \<and> pay_change r = [] \<and> pay_balance r = bankBalance)"
  using removeMoney_cases [OF assms(1,2) spec [OF assms(3)], where useBalance = useBalance and money = money]
  by (simp add: Let_def)

text \<open>A purse with two platinum coins and 30 gold coins pays 50: the gold goes first, one platinum coin is
  broken and 80 gold coins are handed back.\<close>

theorem removeMoney_exact_witness:
  "let r = removeMoney (\<lambda>_. False) [Bag 1 [Pile 2 ITEM_GOLD_COIN 30], Pile 3 ITEM_PLATINUM_COIN 2] 5 False 50 in
     paid r \<and> worth (all_piles (pay_inventory r)) + coins_worth (pay_change r) + unat (pay_balance r) + 50 = 235"
proof -
  define inven where "inven = [Bag 1 [Pile 2 ITEM_GOLD_COIN 30], Pile 3 ITEM_PLATINUM_COIN 2]"
  have w: "worth (all_piles inven) = 230"
    by (simp add: inven_def pile_worth_def getWorth_def ITEM_GOLD_COIN_def ITEM_PLATINUM_COIN_def)
  moreover have "purse_ok inven" by (simp add: inven_def purse_ok_def)
  ultimately show ?thesis
    using removeMoney_exact [of inven 5 "\<lambda>_. False" False 50] unfolding inven_def [symmetric] by (auto simp: Let_def)
qed

text \<open>C14: Every amount below ten thousand times \<open>2 ^ 32\<close> is paid out exactly, in stacks of one to a hundred coins.\<close>

theorem addMoney_exact:
  assumes "unat money < 10000 * 2 ^ 32"
  shows "coins_worth (addMoney money) = unat money \<and> (\<forall>c \<in> set (addMoney money). 0 < unat (snd c) \<and> unat (snd c) \<le> 100)"
proof
  show "\<forall>c \<in> set (addMoney money). 0 < unat (snd c) \<and> unat (snd c) \<le> 100"
    using addCoins_stacks by (auto simp: addMoney_eq [OF assms])
qed (rule addMoney_worth [OF assms])

theorem addMoney_exact_witness:
  "coins_worth (addMoney 1234567) = 1234567 \<and> list_all (\<lambda>c. 0 < unat (snd c) \<and> unat (snd c) \<le> 100) (addMoney 1234567)"
  using addMoney_exact [of 1234567] by (simp add: list_all_iff)

text \<open>An item the game refuses to remove is counted as payment but stays where it is.\<close>

lemma refused_coins_pay:
  "removeMoney (\<lambda>obj. obj = 3) [Pile 3 ITEM_GOLD_COIN 50] 0 False 50 =
     \<lparr>paid = True, pay_inventory = [Pile 3 ITEM_GOLD_COIN 50], pay_change = [], pay_balance = 0\<rparr>"
  by (simp add: removeMoney_def getWorth_def ITEM_GOLD_COIN_def sort_money_def internalRemoveItem_def Let_def)

end
