(* ===== verification/Text_Tools.thy ===== *)
theory Text_Tools
  imports Prelude "HOL-Library.Sublist" "HOL-Library.Char_ord"
begin

text \<open>
  The string functions of \<^verbatim>\<open>src/utils/tools.cpp\<close>: searching and replacing, trimming, splitting, letter
  case, prices and numbers.  Characters are bytes and the locale is C.  A loop that need not end is a
  \<open>partial_function\<close>, so that \<open>None\<close> is a call that never returns.
\<close>

section \<open>Searching\<close>

fun find_sub :: "string \<Rightarrow> string \<Rightarrow> nat option" where
  "find_sub sub [] = (if sub = [] then Some 0 else None)"
| "find_sub sub (c # s) = (if prefix sub (c # s) then Some 0 else map_option Suc (find_sub sub s))"

text \<open>\<^verbatim>\<open>std::string::find\<close> from a position.\<close>

definition str_find :: "string \<Rightarrow> string \<Rightarrow> nat \<Rightarrow> nat option" where
  "str_find s sub pos = (if length s < pos then None else map_option ((+) pos) (find_sub sub (drop pos s)))"

lemma find_sub_Some:
  "find_sub sub s = Some i \<Longrightarrow> i + length sub \<le> length s \<and> prefix sub (drop i s) \<and> (\<forall>j < i. \<not> prefix sub (drop j s))"
proof (induction s arbitrary: i)
  case (Cons c s)
  show ?case
  proof (cases "prefix sub (c # s)")
    case True
    then show ?thesis using Cons.prems prefix_length_le [OF True] by simp
  next
    case False
    then obtain k where "find_sub sub s = Some k" "i = Suc k" using Cons.prems by auto
    then show ?thesis using Cons.IH False by (auto simp: less_Suc_eq_0_disj)
  qed
qed (auto split: if_splits)

lemma find_sub_None: "find_sub sub s = None \<longleftrightarrow> \<not> sublist sub s"
proof (induction s)
  case (Cons c s)
  then show ?case by (auto simp: sublist_Cons_right)
qed auto

lemma find_sub_empty [simp]: "find_sub [] s = Some 0"
  by (cases s) simp_all

section \<open>Replacing\<close>

partial_function (option) replace_loop :: "string \<Rightarrow> string \<Rightarrow> nat \<Rightarrow> string \<Rightarrow> string option" where
  "replace_loop sought replacement startPos str =
     (case str_find str sought startPos of
        None \<Rightarrow> Some str
      | Some i \<Rightarrow> replace_loop sought replacement (i + length replacement)
          (take i str @ replacement @ drop (i + length sought) str))"

definition replaceString :: "string \<Rightarrow> string \<Rightarrow> string \<Rightarrow> string option" where
  "replaceString str sought replacement = (if str = [] then Some [] else replace_loop sought replacement 0 str)"

text \<open>The meaning: from left to right, each occurrence of the text sought is replaced once.\<close>

function replace_all :: "string \<Rightarrow> string \<Rightarrow> string \<Rightarrow> string" where
  "replace_all sought replacement s =
     (if sought = [] \<or> s = [] then s
      else if prefix sought s then replacement @ replace_all sought replacement (drop (length sought) s)
      else hd s # replace_all sought replacement (tl s))"
  by pat_completeness auto
termination
  by (relation "measure (\<lambda>(_, _, s). length s)") auto

declare replace_all.simps [simp del]

lemma replace_all_simps [simp]:
  "replace_all sought replacement [] = []"
  "sought \<noteq> [] \<Longrightarrow> replace_all sought replacement (sought @ s) = replacement @ replace_all sought replacement s"
  "sought \<noteq> [] \<Longrightarrow> \<not> prefix sought (c # s) \<Longrightarrow> replace_all sought replacement (c # s) = c # replace_all sought replacement s"
  by (simp_all add: replace_all.simps)

lemma replace_all_skip:
  "sought \<noteq> [] \<Longrightarrow> \<forall>j < i. \<not> prefix sought (drop j s) \<Longrightarrow> i \<le> length s \<Longrightarrow>
   replace_all sought replacement s = take i s @ replace_all sought replacement (drop i s)"
proof (induction i arbitrary: s)
  case (Suc i)
  then obtain c t where s: "s = c # t" by (cases s) auto
  have "\<not> prefix sought s" using Suc.prems(2) by force
  moreover have "\<forall>j < i. \<not> prefix sought (drop j t)" using Suc.prems(2) s by auto
  ultimately show ?case using Suc.IH [of t] Suc.prems s by simp
qed simp

lemma replace_all_absent: "sought \<noteq> [] \<Longrightarrow> \<not> sublist sought s \<Longrightarrow> replace_all sought replacement s = s"
  by (induction s) (auto simp: sublist_Cons_right)

lemma replace_loop_all:
  assumes "sought \<noteq> []"
  shows "replace_loop sought replacement (length pre) (pre @ s) = Some (pre @ replace_all sought replacement s)"
proof (induction "length s" arbitrary: pre s rule: less_induct)
  case less
  show ?case
  proof (cases "find_sub sought s")
    case None
    then have "replace_all sought replacement s = s"
      using replace_all_absent [OF assms] by (simp add: find_sub_None)
    then show ?thesis using None by (simp add: replace_loop.simps [of _ _ _ "pre @ s"] str_find_def)
  next
    case (Some i)
    note f = find_sub_Some [OF this]
    obtain t where t: "drop i s = sought @ t" using f by (auto simp: prefix_def)
    have "length t < length s" using arg_cong [OF t, of length] assms f by (cases sought) auto
    then have "replace_loop sought replacement (length (pre @ take i s @ replacement)) ((pre @ take i s @ replacement) @ t) =
        Some ((pre @ take i s @ replacement) @ replace_all sought replacement t)"
      by (rule less)
    moreover have "drop (i + length sought) s = t" using arg_cong [OF t, of "drop (length sought)"] by (simp add: add.commute)
    ultimately show ?thesis
      using Some f t replace_all_skip [OF assms, of i s replacement] assms
      by (simp add: replace_loop.simps [of _ _ _ "pre @ s"] str_find_def ac_simps)
  qed
qed

lemma replaceString_all: "sought \<noteq> [] \<Longrightarrow> replaceString s sought replacement = Some (replace_all sought replacement s)"
  using replace_loop_all [of sought replacement "[]" s] by (simp add: replaceString_def)

lemma replace_loop_diverges: "replace_loop sought replacement pos s = Some r \<Longrightarrow> sought = [] \<Longrightarrow> length s < pos"
proof (induction sought replacement pos s r rule: replace_loop.raw_induct [rotated, consumes 1, case_names step])
  case (step loop sought replacement pos s r)
  show ?case
  proof (rule ccontr)
    assume le: "\<not> length s < pos"
    then have "loop sought replacement (pos + length replacement) (take pos s @ replacement @ drop pos s) = Some r"
      using step.hyps step.prems by (simp add: str_find_def)
    from step.IH [OF this step.prems] le show False by simp
  qed
qed

lemma replace_char: "replace_all [c] [] s = filter ((\<noteq>) c) s"
proof (induction s)
  case (Cons d s)
  then show ?case using replace_all_simps(2,3) [of "[c]"] by (cases "c = d") force+
qed simp

section \<open>Trimming and splitting\<close>

definition trim_right :: "string \<Rightarrow> char \<Rightarrow> string" where
  "trim_right source t = rev (dropWhile ((=) t) (rev source))"

definition trim_left :: "string \<Rightarrow> char \<Rightarrow> string" where
  "trim_left source t = dropWhile ((=) t) source"

definition trimString :: "string \<Rightarrow> string" where
  "trimString str = trim_left (trim_right str CHR '' '') CHR '' ''"

definition keepFirstWordOnly :: "string \<Rightarrow> string" where
  "keepFirstWordOnly str = (case str_find str '' '' 0 of None \<Rightarrow> str | Some i \<Rightarrow> take i str)"

definition getFirstLine :: "string \<Rightarrow> string" where
  "getFirstLine str = takeWhile (\<lambda>c. c \<noteq> CHR 0x0A) str"

partial_function (option) explode_loop :: "string \<Rightarrow> int \<Rightarrow> string \<Rightarrow> string list option" where
  "explode_loop separator limit s =
     (if limit - 1 \<noteq> - 1 then
        (case find_sub separator s of
           None \<Rightarrow> Some [s]
         | Some end \<Rightarrow>
             Option.bind (explode_loop separator (limit - 1) (drop (end + length separator) s))
               (\<lambda>rest. Some (take end s # rest)))
      else Some [s])"

definition explodeString :: "string \<Rightarrow> string \<Rightarrow> int \<Rightarrow> string list option" where
  "explodeString inString separator limit = explode_loop separator limit inString"

text \<open>\<^verbatim>\<open>std::getline\<close> on a delimiter: a delimiter at the very end opens no further token.\<close>

fun getlines :: "char \<Rightarrow> string \<Rightarrow> string list" where
  "getlines d [] = []"
| "getlines d (c # s) =
     (if c = d then [] # getlines d s
      else (case getlines d s of
              [] \<Rightarrow> [[c]]
            | t # ts \<Rightarrow> (c # t) # ts))"

definition split :: "string \<Rightarrow> char \<Rightarrow> string list" where
  "split str delimiter = map trimString (getlines delimiter str)"

fun join :: "string \<Rightarrow> string list \<Rightarrow> string" where
  "join sep [] = []"
| "join sep [x] = x"
| "join sep (x # y # xs) = x @ sep @ join sep (y # xs)"

lemma join_Cons: "xs \<noteq> [] \<Longrightarrow> join sep (x # xs) = x @ sep @ join sep xs"
  by (cases xs) simp_all

lemma explode_loop_join:
  assumes "separator \<noteq> []"
  shows "\<exists>ps. explode_loop separator limit s = Some ps \<and> ps \<noteq> [] \<and> join separator ps = s \<and>
    (0 \<le> limit \<longrightarrow> int (length ps) \<le> limit + 1) \<and>
    (limit < 0 \<longrightarrow> (\<forall>p \<in> set ps. \<not> sublist separator p))"
proof (induction "length s" arbitrary: s limit rule: less_induct)
  case less
  show ?case
  proof (cases "limit - 1 \<noteq> - 1 \<and> find_sub separator s \<noteq> None")
    case True
    then obtain i where i: "find_sub separator s = Some i" by auto
    note f = find_sub_Some [OF this]
    let ?t = "drop (i + length separator) s"
    have "?t = drop (length separator) (drop i s)" by (simp add: add.commute)
    then have t: "drop i s = separator @ ?t" using f by (metis prefix_def append_eq_conv_conj)
    have "length ?t < length s" using f assms by (cases separator) auto
    from less [OF this, of "limit - 1"] obtain ps where ps: "explode_loop separator (limit - 1) ?t = Some ps"
      "ps \<noteq> []" "join separator ps = ?t" "0 \<le> limit - 1 \<longrightarrow> int (length ps) \<le> limit"
      "limit - 1 < 0 \<longrightarrow> (\<forall>p \<in> set ps. \<not> sublist separator p)" by auto
    have "take i s @ separator @ ?t = s" using t append_take_drop_id [of i s] by simp
    moreover have "\<not> sublist separator (take i s)"
    proof
      assume "sublist separator (take i s)"
      then obtain a b where ab: "take i s = a @ separator @ b" by (auto simp: sublist_def)
      then have "length (take i s) = length a + (length separator + length b)" by simp
      moreover have "length (take i s) \<le> i" "0 < length separator" using assms by simp_all
      ultimately have "length a < i" by linarith
      moreover have "s = a @ separator @ (b @ drop i s)" using ab append_take_drop_id [of i s] by simp
      then have "prefix separator (drop (length a) s)" by (metis append_eq_conv_conj prefixI)
      ultimately show False using f by blast
    qed
    ultimately show ?thesis
      using True i ps by (subst explode_loop.simps) (auto simp: join_Cons)
  next
    case False
    then have "explode_loop separator limit s = Some [s]"
      by (subst explode_loop.simps) (auto split: option.splits)
    moreover have "limit < 0 \<longrightarrow> \<not> sublist separator s" using False by (auto simp flip: find_sub_None)
    ultimately show ?thesis by simp
  qed
qed

section \<open>Letter case\<close>

definition tolower :: "char \<Rightarrow> char" where
  "tolower c = (if CHR ''A'' \<le> c \<and> c \<le> CHR ''Z'' then char_of (of_char c + 32 :: nat) else c)"

definition toupper :: "char \<Rightarrow> char" where
  "toupper c = (if CHR ''a'' \<le> c \<and> c \<le> CHR ''z'' then char_of (of_char c - 32 :: nat) else c)"

definition isupper :: "char \<Rightarrow> bool" where
  "isupper c \<longleftrightarrow> CHR ''A'' \<le> c \<and> c \<le> CHR ''Z''"

definition isspace :: "char \<Rightarrow> bool" where
  "isspace c \<longleftrightarrow> c = CHR '' '' \<or> CHR 0x09 \<le> c \<and> c \<le> CHR 0x0D"

definition asLowerCaseString :: "string \<Rightarrow> string" where
  "asLowerCaseString source = map tolower source"

definition asUpperCaseString :: "string \<Rightarrow> string" where
  "asUpperCaseString source = map toupper source"

fun camel_loop :: "bool \<Rightarrow> string \<Rightarrow> string" where
  "camel_loop capitalizeNext [] = []"
| "camel_loop capitalizeNext (ch # s) =
     (if ch = CHR ''_'' \<or> isspace ch \<or> ch = CHR ''-'' then camel_loop True s
      else if capitalizeNext then toupper ch # camel_loop False s
      else tolower ch # camel_loop False s)"

definition toCamelCase :: "string \<Rightarrow> string" where
  "toCamelCase str = camel_loop False str"

fun pascal_loop :: "bool \<Rightarrow> string \<Rightarrow> string" where
  "pascal_loop capitalizeNext [] = []"
| "pascal_loop capitalizeNext (ch # s) =
     (if ch = CHR ''_'' \<or> isspace ch \<or> ch = CHR ''-'' then pascal_loop True s
      else if capitalizeNext then toupper ch # pascal_loop False s
      else ch # pascal_loop False s)"

definition toPascalCase :: "string \<Rightarrow> string" where
  "toPascalCase str = pascal_loop True str"

definition toSnakeCase :: "string \<Rightarrow> string" where
  "toSnakeCase str = concat (map (\<lambda>ch.
     if isupper ch then [CHR ''_'', tolower ch] else if isspace ch \<or> ch = CHR ''-'' then [CHR ''_''] else [ch]) str)"

definition toKebabCase :: "string \<Rightarrow> string" where
  "toKebabCase str = concat (map (\<lambda>ch.
     if isupper ch then [CHR ''-'', tolower ch] else if isspace ch \<or> ch = CHR ''_'' then [CHR ''-''] else [ch]) str)"

definition toStartCaseWithSpace :: "string \<Rightarrow> string" where
  "toStartCaseWithSpace str = (case str of
     [] \<Rightarrow> []
   | ch # s \<Rightarrow> toupper ch # concat (map (\<lambda>ch. if isupper ch then [CHR '' '', toupper ch] else [tolower ch]) s))"

fun ucfirst :: "string \<Rightarrow> string" where
  "ucfirst [] = []"
| "ucfirst (c # s) = (if c \<noteq> CHR '' '' then toupper c # s else c # ucfirst s)"

text \<open>The loops that look at the previous character of the string being changed.\<close>

fun capitalize_after :: "(char \<Rightarrow> bool) \<Rightarrow> char \<Rightarrow> string \<Rightarrow> string" where
  "capitalize_after P previous [] = []"
| "capitalize_after P previous (c # s) =
     (let c' = if P previous then toupper c else c in c' # capitalize_after P c' s)"

definition ucwords :: "string \<Rightarrow> string" where
  "ucwords str = (case str of [] \<Rightarrow> [] | c # s \<Rightarrow> toupper c # capitalize_after (\<lambda>p. p = CHR '' '') (toupper c) s)"

text \<open>The length is kept in eight bits: only that many characters are visited.\<close>

definition capitalizeWords :: "string \<Rightarrow> string" where
  "capitalizeWords source =
     (let low = asLowerCaseString source; size = unat (of_nat (length low) :: u8)
      in (case take size low of
            [] \<Rightarrow> []
          | c # s \<Rightarrow> toupper c # capitalize_after (\<lambda>p. p = CHR '' '' \<or> p = CHR 0x27) (toupper c) s) @ drop size low)"

definition booleanString :: "string \<Rightarrow> bool" where
  "booleanString str = (case str of
     [] \<Rightarrow> False
   | c # _ \<Rightarrow> tolower c \<noteq> CHR ''f'' \<and> tolower c \<noteq> CHR ''n'' \<and> tolower c \<noteq> CHR ''0'')"

definition toKey :: "string \<Rightarrow> string" where
  "toKey str = filter (\<lambda>c. \<not> isspace c) (map (\<lambda>c. if c = CHR '' '' then CHR ''-'' else c) (asLowerCaseString str))"

definition caseInsensitiveCompare :: "string \<Rightarrow> string \<Rightarrow> nat option \<Rightarrow> bool" where
  "caseInsensitiveCompare str1 str2 len =
     (case len of
        None \<Rightarrow> length str1 = length str2 \<and> list_all2 (\<lambda>c1 c2. tolower c1 = tolower c2) str1 str2
      | Some n \<Rightarrow>
          let n = min n (min (length str1) (length str2))
          in list_all2 (\<lambda>c1 c2. tolower c1 = tolower c2) (take n str1) (take n str2))"

lemma tolower_tolower [simp]: "tolower (tolower c) = tolower c"
  by (auto simp: tolower_def less_eq_char_def)

lemma tolower_space [simp]: "isspace (tolower c) = isspace c"
  by (auto simp: tolower_def isspace_def order.eq_iff [of _ "CHR '' ''"] less_eq_char_def)

lemma lower_idem: "asLowerCaseString (asLowerCaseString s) = asLowerCaseString s"
  by (simp add: asLowerCaseString_def)

lemma caseInsensitiveCompare_lower:
  "caseInsensitiveCompare s t None \<longleftrightarrow> asLowerCaseString s = asLowerCaseString t"
  by (auto simp: caseInsensitiveCompare_def asLowerCaseString_def list_all2_conv_all_nth list_eq_iff_nth_eq)

lemma toKey_clean: "c \<in> set (toKey s) \<Longrightarrow> \<not> isspace c \<and> \<not> isupper c"
  by (auto simp: toKey_def asLowerCaseString_def isupper_def tolower_def less_eq_char_def split: if_splits)

section \<open>Numbers, prices and articles\<close>

fun dec :: "nat \<Rightarrow> string" where
  "dec n = (if n < 10 then [char_of (48 + n)] else dec (n div 10) @ [char_of (48 + n mod 10)])"

declare dec.simps [simp del]

fun comma_loop :: "nat \<Rightarrow> string \<Rightarrow> string" where
  "comma_loop pos s = (if pos = 0 then s else comma_loop (pos - 3) (take pos s @ '','' @ drop pos s))"

declare comma_loop.simps [simp del]

definition formatNumber :: "u64 \<Rightarrow> string" where
  "formatNumber number = (let s = dec (unat number) in comma_loop (length s - 3) s)"

text \<open>Groups of three digits from the right.\<close>

function group3 :: "string \<Rightarrow> string" where
  "group3 s = (if length s \<le> 3 then s else group3 (take (length s - 3) s) @ '','' @ drop (length s - 3) s)"
  by pat_completeness auto
termination
  by (relation "measure length") auto

declare group3.simps [simp del]

lemma comma_loop_group:
  "comma_loop (length s - 3) (s @ t) = group3 s @ t"
proof (induction s arbitrary: t rule: group3.induct)
  case (1 s)
  show ?case
  proof (cases "length s \<le> 3")
    case False
    let ?u = "take (length s - 3) s"
    have "comma_loop (length ?u - 3) (?u @ ('','' @ drop (length s - 3) s @ t)) = group3 ?u @ '','' @ drop (length s - 3) s @ t"
      using 1 [OF False] .
    then show ?thesis
      using False by (simp add: comma_loop.simps [of "length s - 3"] group3.simps [of s])
  qed (simp add: comma_loop.simps group3.simps)
qed

lemma formatNumber_groups: "formatNumber n = group3 (dec (unat n))"
  using comma_loop_group [of "dec (unat n)" "[]"] by (simp add: formatNumber_def Let_def)

lemma group3_digits: "filter ((\<noteq>) CHR '','') (group3 s) = filter ((\<noteq>) CHR '','') s"
proof (induction s rule: group3.induct)
  case (1 s)
  have "filter ((\<noteq>) CHR '','') (take (length s - 3) s) @ filter ((\<noteq>) CHR '','') (drop (length s - 3) s) =
      filter ((\<noteq>) CHR '','') s"
    by (metis filter_append append_take_drop_id)
  then show ?case using 1 by (cases "length s \<le> 3") (simp_all add: group3.simps [of s])
qed

definition formatPrice :: "string \<Rightarrow> bool \<Rightarrow> string" where
  "formatPrice price space =
     (let p = rev (replace_all ''000'' ''k'' (rev price))
      in if space then (case find_sub ''k'' p of None \<Rightarrow> p | Some i \<Rightarrow> take i p @ '' k'' @ drop (i + 1) p) else p)"

definition removeArticle :: "string \<Rightarrow> string" where
  "removeArticle str =
     (if length str > 2 \<and> caseInsensitiveCompare ''a '' (take 2 str) None then drop 2 str
      else if length str > 3 \<and> caseInsensitiveCompare ''an '' (take 3 str) None then drop 3 str
      else str)"

definition formatWithArticle :: "string \<Rightarrow> bool \<Rightarrow> string" where
  "formatWithArticle value withSpace =
     (if value = [] then []
      else
        let modified = removeArticle value
        in if modified = [] then []
           else (if withSpace then '' '' else []) @
             (if tolower (hd modified) \<in> set ''aeiou'' then ''an'' else ''a'') @ '' '' @ modified @ ''.'')"

definition convertIPToString :: "u32 \<Rightarrow> string" where
  "convertIPToString ip =
     take 15 (join ''.'' (map (\<lambda>k. dec (unat (and (drop_bit (8 * k) ip) 0xFF))) [0, 1, 2, 3]))"

section \<open>Properties\<close>

text \<open>\<open>replaceString\<close> returns exactly when the text sought is not empty or there is nothing to search;
  its result is the text with each occurrence, from left to right, replaced once.\<close>

theorem replaceString_returns:
  "replaceString s sought replacement =
     (if s = [] then Some [] else if sought = [] then None else Some (replace_all sought replacement s))"
proof (cases "sought = []")
  case True
  then show ?thesis
    using replace_loop_diverges [of sought replacement 0 s] by (cases "replace_loop sought replacement 0 s") (auto simp: replaceString_def)
qed (auto simp: replaceString_all)

text \<open>Splitting at a separator that is not empty always returns; joining the parts with the separator
  gives the text back; no part contains the separator when there is no limit, and a limit of \<open>n\<close> gives
  at most \<open>n + 1\<close> parts.\<close>

theorem explodeString_join:
  assumes "separator \<noteq> []"
  shows "\<exists>parts. explodeString s separator limit = Some parts \<and> join separator parts = s \<and>
    (limit < 0 \<longrightarrow> (\<forall>p \<in> set parts. \<not> sublist separator p)) \<and> (0 \<le> limit \<longrightarrow> int (length parts) \<le> limit + 1)"
  using explode_loop_join [OF assms, of limit s] by (auto simp: explodeString_def)

theorem explodeString_join_witness:
  "\<exists>parts. explodeString ''a;b;;c'' '';'' (- 1) = Some parts \<and> join '';'' parts = ''a;b;;c'' \<and>
    (\<forall>p \<in> set parts. \<not> sublist '';'' p)"
  using explodeString_join [of "'';''" "''a;b;;c''" "- 1"] by auto

end
