(* ===== verification/Bank.thy ===== *)
theory Bank
  imports Money Text_Tools
begin

text \<open>
  Bank accounts: \<^verbatim>\<open>src/game/bank/bank.cpp\<close>.  A \<^verbatim>\<open>Bank\<close> is a handle on a \<^verbatim>\<open>Bankable\<close>, a player or a guild,
  or on nothing; the balances are unsigned 64-bit words.  \<open>bankable\<close> is the interface the bank uses,
  interpreted on the players and guilds of a world.  Metrics, logging and the saving of accounts whose
  owner is offline are left out, and every player has a town.
\<close>

section \<open>The accounts of a world\<close>

record account_holder =
  h_name :: string
  h_town :: u32
  h_balance :: u64
  h_inventory :: "thing list"

record guild_account =
  g_name :: string
  g_balance :: u64

record bank_world =
  holders :: "nat \<Rightarrow> account_holder"
  guild_accounts :: "nat \<Rightarrow> guild_account"

datatype Bankable = OfPlayer nat | OfGuild nat

fun getBankBalance :: "Bankable \<Rightarrow> bank_world \<Rightarrow> u64" where
  "getBankBalance (OfPlayer p) w = h_balance (holders w p)"
| "getBankBalance (OfGuild g) w = g_balance (guild_accounts w g)"

fun setBankBalance :: "Bankable \<Rightarrow> u64 \<Rightarrow> bank_world \<Rightarrow> bank_world" where
  "setBankBalance (OfPlayer p) b w = w\<lparr>holders := (holders w)(p := (holders w p)\<lparr>h_balance := b\<rparr>)\<rparr>"
| "setBankBalance (OfGuild g) b w = w\<lparr>guild_accounts := (guild_accounts w)(g := (guild_accounts w g)\<lparr>g_balance := b\<rparr>)\<rparr>"

fun getPlayer :: "Bankable \<Rightarrow> nat option" where
  "getPlayer (OfPlayer p) = Some p"
| "getPlayer (OfGuild g) = None"

section \<open>Operations\<close>

text \<open>A handle is \<open>None\<close> when its \<^verbatim>\<open>m_bankable\<close> is null.\<close>

type_synonym bank = "Bankable option"

definition set_balance :: "bank \<Rightarrow> u64 \<Rightarrow> bank_world \<Rightarrow> bool \<times> bank_world" where
  "set_balance bank amount w = (case bank of None \<Rightarrow> (False, w) | Some b \<Rightarrow> (True, setBankBalance b amount w))"

definition balance :: "bank \<Rightarrow> bank_world \<Rightarrow> u64" where
  "balance bank w = (case bank of None \<Rightarrow> 0 | Some b \<Rightarrow> getBankBalance b w)"

definition hasBalance :: "bank \<Rightarrow> u64 \<Rightarrow> bank_world \<Rightarrow> bool" where
  "hasBalance bank amount w \<longleftrightarrow> balance bank w \<ge> amount"

definition credit :: "bank \<Rightarrow> u64 \<Rightarrow> bank_world \<Rightarrow> bool \<times> bank_world" where
  "credit bank amount w = set_balance bank (balance bank w + amount) w"

definition debit :: "bank \<Rightarrow> u64 \<Rightarrow> bank_world \<Rightarrow> bool \<times> bank_world" where
  "debit bank amount w =
     (if \<not> hasBalance bank amount w then (False, w) else set_balance bank (balance bank w - amount) w)"

definition deniedNames :: "string set" where
  "deniedNames = {''accountmanager'', ''rooksample'', ''druidsample'', ''sorcerersample'', ''knightsample'',
     ''paladinsample'', ''monksample''}"

text \<open>The rules on two players: sample characters get nothing, and money does not cross between the first
  towns and the others.\<close>

definition transfer_denied :: "u32 \<Rightarrow> account_holder \<Rightarrow> account_holder \<Rightarrow> bool" where
  "transfer_denied minTown source destination \<longleftrightarrow>
     (case replaceString (asLowerCaseString (h_name destination)) '' '' '''' of
        None \<Rightarrow> True | Some name \<Rightarrow> name \<in> deniedNames) \<or>
     h_town destination < minTown \<and> h_town source \<ge> minTown \<or>
     h_town source < minTown \<and> h_town destination \<ge> minTown"

definition transferTo :: "u32 \<Rightarrow> bank \<Rightarrow> bank option \<Rightarrow> u64 \<Rightarrow> bank_world \<Rightarrow> bool \<times> bank_world" where
  "transferTo minTown bank destination amount w =
     (case (destination, bank) of
        (Some (Some dest), Some source) \<Rightarrow>
          if (case (getPlayer dest, getPlayer source) of
                (Some d, Some s) \<Rightarrow> transfer_denied minTown (holders w s) (holders w d) | _ \<Rightarrow> False)
          then (False, w)
          else
            (case debit bank amount w of
               (True, w1) \<Rightarrow> credit (Some dest) amount w1
             | (False, w1) \<Rightarrow> (False, w1))
      | _ \<Rightarrow> (False, w))"

text \<open>Withdrawing hands the player coins, depositing takes carried money; \<open>refuses\<close> is as in \<open>removeMoney\<close>.
  A guild has no player, and \<open>removeMoney\<close> refuses a null cylinder.\<close>

definition withdraw :: "bank \<Rightarrow> nat option \<Rightarrow> u64 \<Rightarrow> bank_world \<Rightarrow> bool \<times> coins \<times> bank_world" where
  "withdraw bank player amount w =
     (case player of
        None \<Rightarrow> (False, [], w)
      | Some p \<Rightarrow>
          (case debit bank amount w of
             (False, w1) \<Rightarrow> (False, [], w1)
           | (True, w1) \<Rightarrow> (True, addMoney amount, w1)))"

definition deposit_amount :: "(nat \<Rightarrow> bool) \<Rightarrow> bank \<Rightarrow> bank option \<Rightarrow> u64 \<Rightarrow> bank_world \<Rightarrow> bool \<times> coins \<times> bank_world" where
  "deposit_amount refuses bank destination amount w =
     (case (destination, bank) of
        (Some dest, Some b) \<Rightarrow>
          (case getPlayer b of
             None \<Rightarrow> (False, [], w)
           | Some p \<Rightarrow>
               let r = removeMoney refuses (h_inventory (holders w p)) (h_balance (holders w p)) False amount in
               if \<not> paid r then (False, [], w)
               else
                 let (ok, w1) = credit dest amount
                   (w\<lparr>holders := (holders w)(p := (holders w p)\<lparr>h_inventory := pay_inventory r, h_balance := pay_balance r\<rparr>)\<rparr>)
                 in (ok, pay_change r, w1))
      | _ \<Rightarrow> (False, [], w))"

definition deposit :: "(nat \<Rightarrow> bool) \<Rightarrow> bank \<Rightarrow> bank option \<Rightarrow> bank_world \<Rightarrow> bool \<times> coins \<times> bank_world" where
  "deposit refuses bank destination w =
     (case bank of
        None \<Rightarrow> (False, [], w)
      | Some b \<Rightarrow>
          (case getPlayer b of
             None \<Rightarrow> (False, [], w)
           | Some p \<Rightarrow> deposit_amount refuses bank destination (getMoney (h_inventory (holders w p))) w))"

section \<open>The interface of an account\<close>

locale bankable =
  fixes get :: "'a \<Rightarrow> 'w \<Rightarrow> u64" and set_to :: "'a \<Rightarrow> u64 \<Rightarrow> 'w \<Rightarrow> 'w"
  assumes get_set: "get b (set_to a v w) = (if b = a then v else get b w)"
begin

text \<open>The money in a finite set of accounts.\<close>

definition total :: "'a set \<Rightarrow> 'w \<Rightarrow> nat" where
  "total A w = (\<Sum>a\<in>A. unat (get a w))"

lemma total_set:
  assumes "finite A" and "a \<in> A"
  shows "total A (set_to a v w) + unat (get a w) = total A w + unat v"
proof -
  have "total A w = unat (get a w) + (\<Sum>b \<in> A - {a}. unat (get b w))"
    "total A (set_to a v w) = unat v + (\<Sum>b \<in> A - {a}. unat (get b (set_to a v w)))"
    unfolding total_def using assms by (simp_all add: sum.remove get_set)
  moreover have "(\<Sum>b \<in> A - {a}. unat (get b (set_to a v w))) = (\<Sum>b \<in> A - {a}. unat (get b w))"
    by (intro sum.cong) (auto simp: get_set)
  ultimately show ?thesis by simp
qed

definition move :: "'a \<Rightarrow> 'a \<Rightarrow> u64 \<Rightarrow> 'w \<Rightarrow> 'w" where
  "move a b amount w =
     (let w1 = set_to a (get a w - amount) w in set_to b (get b w1 + amount) w1)"

lemma move_get:
  "amount \<le> get a w \<Longrightarrow> get c (move a b amount w) =
     (if a = b then get c w else if c = a then get a w - amount else if c = b then get b w + amount else get c w)"
  by (simp add: move_def Let_def get_set)

lemma move_total:
  assumes "finite A" and "a \<in> A" and "b \<in> A" and "amount \<le> get a w"
  shows "total A (move a b amount w) + (if a \<noteq> b \<and> unat (get b w) + unat amount \<ge> 2 ^ 64 then 2 ^ 64 else 0) = total A w"
proof -
  let ?w = "set_to a (get a w - amount) w"
  have debit: "total A ?w + unat amount = total A w"
    using total_set [OF assms(1,2), of "get a w - amount" w] assms(4) by (simp add: unat_sub word_le_nat_alt)
  have credit: "total A (move a b amount w) + unat (get b ?w) = total A ?w + unat (get b ?w + amount)"
    using total_set [OF assms(1,3), of "get b ?w + amount" ?w] by (simp add: move_def Let_def)
  show ?thesis
  proof (cases "unat (get b ?w) + unat amount < 2 ^ 64")
    case True
    then have "unat (get b ?w + amount) = unat (get b ?w) + unat amount" by (simp add: unat_word_ariths)
    moreover have "a \<noteq> b \<Longrightarrow> get b ?w = get b w" by (simp add: get_set)
    ultimately show ?thesis using debit credit True by auto
  next
    case False
    have "a \<noteq> b"
    proof
      assume "a = b"
      then have "unat (get b ?w) + unat amount = unat (get a w)"
        using assms(4) by (simp add: get_set unat_sub word_le_nat_alt)
      then show False using False unat_u64_bound [of "get a w"] by simp
    qed
    have "unat (get b ?w + amount) + 2 ^ 64 = unat (get b ?w) + unat amount"
      using False unat_u64_bound [of "get b ?w"] unat_u64_bound [of amount]
      by (simp add: unat_word_ariths le_mod_geq)
    then show ?thesis using debit credit False \<open>a \<noteq> b\<close> by (simp add: get_set)
  qed
qed

end

lemma get_set_balance: "getBankBalance b (setBankBalance a v w) = (if b = a then v else getBankBalance b w)"
  by (cases a; cases b) auto

interpretation accounts: bankable getBankBalance setBankBalance
  by unfold_locales (rule get_set_balance)

lemma debit_Some:
  "debit (Some b) amount w =
     (if amount \<le> getBankBalance b w then (True, setBankBalance b (getBankBalance b w - amount) w) else (False, w))"
  by (simp add: debit_def hasBalance_def balance_def set_balance_def)

lemma credit_Some: "credit (Some b) amount w = (True, setBankBalance b (getBankBalance b w + amount) w)"
  by (simp add: credit_def balance_def set_balance_def)

definition transfer_refused :: "u32 \<Rightarrow> Bankable \<Rightarrow> Bankable \<Rightarrow> bank_world \<Rightarrow> bool" where
  "transfer_refused minTown a b w \<longleftrightarrow>
     (case (getPlayer b, getPlayer a) of
        (Some d, Some s) \<Rightarrow> transfer_denied minTown (holders w s) (holders w d) | _ \<Rightarrow> False)"

lemma transferTo_cases [simp]:
  "transferTo minTown bank None amount w = (False, w)"
  "transferTo minTown bank (Some None) amount w = (False, w)"
  "transferTo minTown None destination amount w = (False, w)"
  by (simp_all add: transferTo_def split: option.splits)

lemma transferTo_destination:
  obtains "destination = None" | "destination = Some None" | b where "destination = Some (Some b)"
  by (cases destination) (auto intro: option.exhaust)

lemma transferTo_move:
  "transferTo minTown (Some a) (Some (Some b)) amount w =
     (if amount \<le> getBankBalance a w \<and> \<not> transfer_refused minTown a b w
      then (True, accounts.move a b amount w) else (False, w))"
  by (simp add: transferTo_def debit_Some credit_Some accounts.move_def transfer_refused_def Let_def)

lemma holders_set_guild [simp]: "holders (setBankBalance (OfGuild g) v w) = holders w"
  by simp

text \<open>What a world holds for a player: carried and in the bank.\<close>

definition wealth :: "nat \<Rightarrow> bank_world \<Rightarrow> nat" where
  "wealth p w = worth (all_piles (h_inventory (holders w p))) + unat (h_balance (holders w p))"

section \<open>Properties\<close>

text \<open>C12: A transfer is all or nothing, and conserves money: one that succeeds moves the amount from one account
  to the other, one that fails changes nothing, and the total of any finite set of accounts with both
  accounts in it stays the same unless the balance of the receiver would exceed 64 bits; then exactly
  \<open>2 ^ 64\<close> gold is lost.\<close>

theorem transfer_conserves_money:
  assumes "finite A" and "a \<in> A" and "b \<in> A" and "transferTo minTown (Some a) (Some (Some b)) amount w = (ok, w')"
  shows "(\<not> ok \<longrightarrow> w' = w) \<and>
    (ok \<longrightarrow> amount \<le> getBankBalance a w \<and>
      (\<Sum>c\<in>A. unat (getBankBalance c w')) +
        (if a \<noteq> b \<and> unat (getBankBalance b w) + unat amount \<ge> 2 ^ 64 then 2 ^ 64 else 0) =
      (\<Sum>c\<in>A. unat (getBankBalance c w)))"
  using assms(4) accounts.move_total [OF assms(1-3), of amount w]
  by (auto simp: transferTo_move accounts.total_def split: if_splits)

definition sample_world :: bank_world where
  "sample_world = \<lparr>holders = \<lambda>p. \<lparr>h_name = ''Ann'', h_town = 8, h_balance = 100,
     h_inventory = [Pile 1 ITEM_PLATINUM_COIN 3]\<rparr>, guild_accounts = \<lambda>g. \<lparr>g_name = ''G'', g_balance = 7\<rparr>\<rparr>"

theorem transfer_conserves_money_witness:
  "\<exists>w'. transferTo 4 (Some (OfPlayer 0)) (Some (Some (OfGuild 0))) 60 sample_world = (True, w') \<and>
    (\<Sum>c\<in>{OfPlayer 0, OfGuild 0}. unat (getBankBalance c w')) = 107"
proof -
  obtain ok w' where t: "transferTo 4 (Some (OfPlayer 0)) (Some (Some (OfGuild 0))) 60 sample_world = (ok, w')" by fastforce
  then have "ok" by (auto simp: transferTo_move transfer_refused_def sample_world_def)
  then show ?thesis
    using t transfer_conserves_money [OF _ _ _ t, of "{OfPlayer 0, OfGuild 0}"] by (simp add: sample_world_def)
qed

text \<open>A balance never goes below zero nor grows by an operation on another account: withdrawing more than
  there is fails and changes nothing, and a transfer touches no account but the two.\<close>

theorem no_overdraft:
  "(amount > getBankBalance a w \<longrightarrow>
      debit (Some a) amount w = (False, w) \<and> withdraw (Some a) player amount w = (False, [], w) \<and>
      transferTo minTown (Some a) destination amount w = (False, w)) \<and>
   (c \<noteq> a \<and> destination \<noteq> Some (Some c) \<longrightarrow>
      getBankBalance c (snd (transferTo minTown (Some a) destination amount w)) = getBankBalance c w)"
proof -
  have "transferTo minTown (Some a) destination amount w = (False, w)" if "amount > getBankBalance a w"
    using that by (cases destination rule: transferTo_destination) (simp_all add: transferTo_move not_le)
  moreover have "getBankBalance c (snd (transferTo minTown (Some a) destination amount w)) = getBankBalance c w"
    if "c \<noteq> a" "destination \<noteq> Some (Some c)"
    using that by (cases destination rule: transferTo_destination) (auto simp: transferTo_move accounts.move_get)
  ultimately show ?thesis by (auto simp: debit_Some withdraw_def not_le split: option.splits)
qed

theorem no_overdraft_witness:
  "debit (Some (OfPlayer 0)) 101 sample_world = (False, sample_world)"
  using no_overdraft [of "OfPlayer 0" sample_world 101] by (simp add: sample_world_def)

text \<open>Depositing into one's own account and withdrawing from it neither make nor destroy money: what the
  player carries, including the coins handed out, and the balance add up to the same as before.\<close>

theorem deposit_withdraw_conserve:
  assumes "purse_ok (h_inventory (holders w p))" and "wealth p w < 2 ^ 64" and "\<forall>obj. \<not> refuses obj"
  shows "(case deposit_amount refuses (Some (OfPlayer p)) (Some (Some (OfPlayer p))) amount w of
      (ok, change, w') \<Rightarrow> wealth p w' + coins_worth change = wealth p w \<and>
        (ok \<longleftrightarrow> unat amount \<le> worth (all_piles (h_inventory (holders w p))))) \<and>
    (unat amount < 10000 * 2 ^ 32 \<longrightarrow>
      (case withdraw (Some (OfPlayer p)) (Some p) amount w of
        (ok, coins, w') \<Rightarrow> wealth p w' + coins_worth coins = wealth p w))"
proof -
  let ?h = "holders w p"
  let ?r = "removeMoney refuses (h_inventory ?h) (h_balance ?h) False amount"
  have r: "paid ?r \<longleftrightarrow> unat amount \<le> worth (all_piles (h_inventory ?h))"
    "paid ?r \<Longrightarrow> worth (all_piles (pay_inventory ?r)) + coins_worth (pay_change ?r) + unat (pay_balance ?r) + unat amount = wealth p w"
    using removeMoney_cases [OF assms(1) _ spec [OF assms(3)], where bankBalance = "h_balance ?h" and useBalance = False and money = amount] assms(2)
    by (simp_all add: wealth_def)
  have "unat (pay_balance ?r + amount) = unat (pay_balance ?r) + unat amount" if "paid ?r"
    using r(2) [OF that] assms(2) by (simp add: unat_word_ariths)
  then have "case deposit_amount refuses (Some (OfPlayer p)) (Some (Some (OfPlayer p))) amount w of
      (ok, change, w') \<Rightarrow> wealth p w' + coins_worth change = wealth p w \<and>
        (ok \<longleftrightarrow> unat amount \<le> worth (all_piles (h_inventory ?h)))"
    using r by (auto simp: deposit_amount_def Let_def credit_Some wealth_def)
  moreover have "case withdraw (Some (OfPlayer p)) (Some p) amount w of
      (ok, coins, w') \<Rightarrow> wealth p w' + coins_worth coins = wealth p w" if "unat amount < 10000 * 2 ^ 32"
    using addMoney_worth [OF that]
    by (auto simp: withdraw_def debit_Some wealth_def unat_sub word_le_nat_alt split: if_splits)
  ultimately show ?thesis by blast
qed

theorem deposit_withdraw_conserve_witness:
  "case deposit_amount (\<lambda>_. False) (Some (OfPlayer 0)) (Some (Some (OfPlayer 0))) 250 sample_world of
     (ok, change, w') \<Rightarrow> ok \<and> wealth 0 w' + coins_worth change = 400"
proof -
  have w: "worth (all_piles (h_inventory (holders sample_world 0))) = 300" "wealth 0 sample_world = 400"
    "purse_ok (h_inventory (holders sample_world 0))"
    by (simp_all add: sample_world_def wealth_def purse_ok_def pile_worth_def getWorth_def ITEM_GOLD_COIN_def ITEM_PLATINUM_COIN_def)
  show ?thesis
    using deposit_withdraw_conserve [OF w(3), of "\<lambda>_. False" 250] by (auto simp: w)
qed

end
