(* ===== verification/Geometry.thy ===== *)
theory Geometry
  imports Prelude
begin

text \<open>
  Positions and directions: \<^verbatim>\<open>src/game/movement/position.hpp\<close>, \<^verbatim>\<open>position.cpp\<close> and the
  movement helpers of \<^verbatim>\<open>src/utils/tools.cpp\<close> (\<open>getDirection\<close>, \<open>getNextPosition\<close>,
  \<open>getDirectionTo\<close>).  Coordinates are kept at their width (\<open>u16\<close>, \<open>u16\<close>, \<open>u8\<close>); differences are
  computed by the code in \<^verbatim>\<open>int_fast32_t\<close>, where they cannot overflow, and are \<open>int\<close> here.  The
  lemmas show that \<open>operator<\<close> is a strict total order, that the hash is injective, that steps
  in opposite directions cancel, and that walking by \<open>getDirectionTo\<close> closes the distance by one
  tile per step.
\<close>

section \<open>Directions\<close>

datatype Direction =
    DIRECTION_NORTH | DIRECTION_EAST | DIRECTION_SOUTH | DIRECTION_WEST
  | DIRECTION_SOUTHWEST | DIRECTION_SOUTHEAST | DIRECTION_NORTHWEST | DIRECTION_NORTHEAST
  | DIRECTION_NONE

fun direction_value :: "Direction \<Rightarrow> u8" where
  "direction_value DIRECTION_NORTH = 0"
| "direction_value DIRECTION_EAST = 1"
| "direction_value DIRECTION_SOUTH = 2"
| "direction_value DIRECTION_WEST = 3"
| "direction_value DIRECTION_SOUTHWEST = 4 OR 0"
| "direction_value DIRECTION_SOUTHEAST = 4 OR 1"
| "direction_value DIRECTION_NORTHWEST = 4 OR 2"
| "direction_value DIRECTION_NORTHEAST = 4 OR 3"
| "direction_value DIRECTION_NONE = 8"

lemma direction_value_inj: "direction_value a = direction_value b \<Longrightarrow> a = b"
  by (cases a; cases b) simp_all

text \<open>The enumerators are ordered by their values, as C++ compares them.\<close>

instantiation Direction :: linorder
begin

definition less_eq_Direction :: "Direction \<Rightarrow> Direction \<Rightarrow> bool" where
  "a \<le> b \<longleftrightarrow> direction_value a \<le> direction_value b"

definition less_Direction :: "Direction \<Rightarrow> Direction \<Rightarrow> bool" where
  "a < b \<longleftrightarrow> direction_value a < direction_value b"

instance
  by standard (auto simp: less_eq_Direction_def less_Direction_def intro: direction_value_inj)

end

section \<open>Positions\<close>

record Position =
  pos_x :: u16
  pos_y :: u16
  pos_z :: u8

definition mkPosition :: "u16 \<Rightarrow> u16 \<Rightarrow> u8 \<Rightarrow> Position" where
  "mkPosition x y z = \<lparr>pos_x = x, pos_y = y, pos_z = z\<rparr>"

definition getX :: "Position \<Rightarrow> int" where "getX p = int (unat (pos_x p))"
definition getY :: "Position \<Rightarrow> int" where "getY p = int (unat (pos_y p))"
definition getZ :: "Position \<Rightarrow> int" where "getZ p = int (unat (pos_z p))"

definition getOffsetX :: "Position \<Rightarrow> Position \<Rightarrow> int" where "getOffsetX p1 p2 = getX p1 - getX p2"
definition getOffsetY :: "Position \<Rightarrow> Position \<Rightarrow> int" where "getOffsetY p1 p2 = getY p1 - getY p2"
definition getOffsetZ :: "Position \<Rightarrow> Position \<Rightarrow> int" where "getOffsetZ p1 p2 = getZ p1 - getZ p2"

definition getDistanceX :: "Position \<Rightarrow> Position \<Rightarrow> int" where
  "getDistanceX p1 p2 = \<bar>getOffsetX p1 p2\<bar>"

definition getDistanceY :: "Position \<Rightarrow> Position \<Rightarrow> int" where
  "getDistanceY p1 p2 = \<bar>getOffsetY p1 p2\<bar>"

definition getDistanceZ :: "Position \<Rightarrow> Position \<Rightarrow> int" where
  "getDistanceZ p1 p2 = \<bar>getOffsetZ p1 p2\<bar>"

definition getDiagonalDistance :: "Position \<Rightarrow> Position \<Rightarrow> int" where
  "getDiagonalDistance p1 p2 = max (getDistanceX p1 p2) (getDistanceY p1 p2)"

text \<open>The two overloads of the template \<^verbatim>\<open>areInRange\<close>; the deltas are its template arguments.\<close>

definition areInRange2 :: "int \<Rightarrow> int \<Rightarrow> Position \<Rightarrow> Position \<Rightarrow> bool" where
  "areInRange2 deltax deltay p1 p2 \<longleftrightarrow>
     getDistanceX p1 p2 \<le> deltax \<and> getDistanceY p1 p2 \<le> deltay"

definition areInRange3 :: "int \<Rightarrow> int \<Rightarrow> int \<Rightarrow> Position \<Rightarrow> Position \<Rightarrow> bool" where
  "areInRange3 deltax deltay deltaz p1 p2 \<longleftrightarrow>
     getDistanceX p1 p2 \<le> deltax \<and> getDistanceY p1 p2 \<le> deltay \<and> getDistanceZ p1 p2 \<le> deltaz"

definition pos_less :: "Position \<Rightarrow> Position \<Rightarrow> bool" where
  "pos_less a p \<longleftrightarrow>
     pos_z a < pos_z p \<or> (pos_z a = pos_z p \<and> pos_y a < pos_y p) \<or>
     (pos_z a = pos_z p \<and> pos_y a = pos_y p \<and> pos_x a < pos_x p)"

definition pos_greater :: "Position \<Rightarrow> Position \<Rightarrow> bool" where
  "pos_greater a p \<longleftrightarrow> \<not> pos_less a p"

definition pos_plus :: "Position \<Rightarrow> Position \<Rightarrow> Position" where
  "pos_plus a p1 = mkPosition (pos_x a + pos_x p1) (pos_y a + pos_y p1) (pos_z a + pos_z p1)"

definition pos_minus :: "Position \<Rightarrow> Position \<Rightarrow> Position" where
  "pos_minus a p1 = mkPosition (pos_x a - pos_x p1) (pos_y a - pos_y p1) (pos_z a - pos_z p1)"

text \<open>\<^verbatim>\<open>std::hash<Position>\<close>: \<open>x\<close>, \<open>y\<close> and \<open>z\<close> in disjoint bit ranges of a 64-bit word.\<close>

definition pos_hash :: "Position \<Rightarrow> u64" where
  "pos_hash p = ucast (pos_x p) OR push_bit 16 (ucast (pos_y p)) OR push_bit 32 (ucast (pos_z p))"

section \<open>Movement helpers of tools.cpp\<close>

definition getDirection :: "string \<Rightarrow> Direction" where
  "getDirection s =
     (if s = ''north'' \<or> s = ''n'' \<or> s = ''0'' then DIRECTION_NORTH
      else if s = ''east'' \<or> s = ''e'' \<or> s = ''1'' then DIRECTION_EAST
      else if s = ''south'' \<or> s = ''s'' \<or> s = ''2'' then DIRECTION_SOUTH
      else if s = ''west'' \<or> s = ''w'' \<or> s = ''3'' then DIRECTION_WEST
      else if s = ''southwest'' \<or> s = ''south west'' \<or> s = ''south-west'' \<or> s = ''sw'' \<or> s = ''4''
        then DIRECTION_SOUTHWEST
      else if s = ''southeast'' \<or> s = ''south east'' \<or> s = ''south-east'' \<or> s = ''se'' \<or> s = ''5''
        then DIRECTION_SOUTHEAST
      else if s = ''northwest'' \<or> s = ''north west'' \<or> s = ''north-west'' \<or> s = ''nw'' \<or> s = ''6''
        then DIRECTION_NORTHWEST
      else if s = ''northeast'' \<or> s = ''north east'' \<or> s = ''north-east'' \<or> s = ''ne'' \<or> s = ''7''
        then DIRECTION_NORTHEAST
      else DIRECTION_NORTH)"

text \<open>The text that \<^verbatim>\<open>operator<<\<close> of a direction writes (nothing for \<open>DIRECTION_NONE\<close>).\<close>

fun direction_string :: "Direction \<Rightarrow> string" where
  "direction_string DIRECTION_NORTH = ''North''"
| "direction_string DIRECTION_EAST = ''East''"
| "direction_string DIRECTION_WEST = ''West''"
| "direction_string DIRECTION_SOUTH = ''South''"
| "direction_string DIRECTION_SOUTHWEST = ''South-West''"
| "direction_string DIRECTION_SOUTHEAST = ''South-East''"
| "direction_string DIRECTION_NORTHWEST = ''North-West''"
| "direction_string DIRECTION_NORTHEAST = ''North-East''"
| "direction_string DIRECTION_NONE = ''''"

fun getNextPosition :: "Direction \<Rightarrow> Position \<Rightarrow> Position" where
  "getNextPosition DIRECTION_NORTH pos = pos\<lparr>pos_y := pos_y pos - 1\<rparr>"
| "getNextPosition DIRECTION_SOUTH pos = pos\<lparr>pos_y := pos_y pos + 1\<rparr>"
| "getNextPosition DIRECTION_WEST pos = pos\<lparr>pos_x := pos_x pos - 1\<rparr>"
| "getNextPosition DIRECTION_EAST pos = pos\<lparr>pos_x := pos_x pos + 1\<rparr>"
| "getNextPosition DIRECTION_SOUTHWEST pos = pos\<lparr>pos_x := pos_x pos - 1, pos_y := pos_y pos + 1\<rparr>"
| "getNextPosition DIRECTION_NORTHWEST pos = pos\<lparr>pos_x := pos_x pos - 1, pos_y := pos_y pos - 1\<rparr>"
| "getNextPosition DIRECTION_NORTHEAST pos = pos\<lparr>pos_x := pos_x pos + 1, pos_y := pos_y pos - 1\<rparr>"
| "getNextPosition DIRECTION_SOUTHEAST pos = pos\<lparr>pos_x := pos_x pos + 1, pos_y := pos_y pos + 1\<rparr>"
| "getNextPosition DIRECTION_NONE pos = pos"

definition getDirectionTo :: "Position \<Rightarrow> Position \<Rightarrow> bool \<Rightarrow> Direction" where
  "getDirectionTo fromPos toPos exactDiagonalOnly =
     (if fromPos = toPos then DIRECTION_NONE
      else
        let dx = getOffsetX fromPos toPos; dy = getOffsetY fromPos toPos in
        if exactDiagonalOnly \<and> \<bar>dx\<bar> > \<bar>dy\<bar> then
          (if dx < 0 then DIRECTION_EAST else DIRECTION_WEST)
        else if exactDiagonalOnly \<and> \<bar>dx\<bar> < \<bar>dy\<bar> then
          (if dy > 0 then DIRECTION_NORTH else DIRECTION_SOUTH)
        else if dx < 0 then
          (if dy < 0 then DIRECTION_SOUTHEAST
           else if dy > 0 then DIRECTION_NORTHEAST
           else DIRECTION_EAST)
        else if dx > 0 then
          (if dy < 0 then DIRECTION_SOUTHWEST
           else if dy > 0 then DIRECTION_NORTHWEST
           else DIRECTION_WEST)
        else if dy > 0 then DIRECTION_NORTH else DIRECTION_SOUTH)"

lemmas distance_defs =
  getX_def getY_def getZ_def getOffsetX_def getOffsetY_def getOffsetZ_def
  getDistanceX_def getDistanceY_def getDistanceZ_def getDiagonalDistance_def

section \<open>The order, the hash, opposite steps\<close>

lemma pos_less_irrefl: "\<not> pos_less p p"
  by (simp add: pos_less_def)

lemma pos_less_trans: "pos_less a b \<Longrightarrow> pos_less b c \<Longrightarrow> pos_less a c"
  by (auto simp: pos_less_def)

lemma pos_less_total: "a \<noteq> b \<Longrightarrow> pos_less a b \<or> pos_less b a"
  by (cases a; cases b) (auto simp: pos_less_def)

lemma pos_hash_fields:
  "pos_x p = ucast (pos_hash p)"
  "pos_y p = ucast (drop_bit 16 (pos_hash p))"
  "pos_z p = ucast (drop_bit 32 (pos_hash p))"
  by (rule bit_word_eqI, auto simp: pos_hash_def bit_simps dest: bit_imp_le_length)+

lemma pos_hash_inj: "pos_hash p = pos_hash q \<Longrightarrow> (p :: Position) = q"
  using pos_hash_fields [of p] pos_hash_fields [of q] by (cases p; cases q) simp

fun opposite :: "Direction \<Rightarrow> Direction" where
  "opposite DIRECTION_NORTH = DIRECTION_SOUTH"
| "opposite DIRECTION_SOUTH = DIRECTION_NORTH"
| "opposite DIRECTION_WEST = DIRECTION_EAST"
| "opposite DIRECTION_EAST = DIRECTION_WEST"
| "opposite DIRECTION_SOUTHWEST = DIRECTION_NORTHEAST"
| "opposite DIRECTION_NORTHEAST = DIRECTION_SOUTHWEST"
| "opposite DIRECTION_NORTHWEST = DIRECTION_SOUTHEAST"
| "opposite DIRECTION_SOUTHEAST = DIRECTION_NORTHWEST"
| "opposite DIRECTION_NONE = DIRECTION_NONE"

lemma getNextPosition_opposite: "getNextPosition (opposite d) (getNextPosition d p) = p"
  by (cases d) simp_all

section \<open>Walking towards a target\<close>

lemma uint_u16_bound: "uint (w :: u16) < 65536"
  using unsigned_less [of w] by simp

lemma uint_inc16: "uint (a :: u16) < uint (b :: u16) \<Longrightarrow> uint (a + 1) = uint a + 1"
  using uint_u16_bound [of b] by (simp add: uint_word_ariths)

lemma uint_dec16: "uint (b :: u16) < uint (a :: u16) \<Longrightarrow> uint (a - 1) = uint a - 1"
proof -
  assume "uint b < uint a"
  moreover have "0 \<le> uint b" by simp
  ultimately have "0 \<le> uint a - 1" "uint a - 1 < 65536" using uint_u16_bound [of a] by linarith+
  then show ?thesis by (simp add: uint_word_ariths)
qed

text \<open>One step of a creature that follows \<open>getDirectionTo\<close>.\<close>

definition step_towards :: "bool \<Rightarrow> Position \<Rightarrow> Position \<Rightarrow> Position" where
  "step_towards exactOnly target p = getNextPosition (getDirectionTo p target exactOnly) p"

lemma step_towards_x:
  "getX (step_towards ex t p) = getX p +
     (if ex \<and> getDistanceX p t < getDistanceY p t then 0 else sgn (getX t - getX p))"
  by (cases "p = t")
     (auto simp: step_towards_def getDirectionTo_def distance_defs Let_def uint_inc16 uint_dec16)

lemma step_towards_y:
  "getDiagonalDistance p t > 0 \<Longrightarrow> getY (step_towards ex t p) = getY p +
     (if ex \<and> getDistanceY p t < getDistanceX p t then 0 else sgn (getY t - getY p))"
  using uint_inc16 [of "pos_y p" "pos_y t"] uint_dec16 [of "pos_y t" "pos_y p"]
  by (cases "p = t")
     (auto simp: step_towards_def getDirectionTo_def distance_defs Let_def max_def
       split: if_splits)

lemma max_step:
  "0 \<le> m \<Longrightarrow> 0 \<le> n \<Longrightarrow> max m n > 0 \<Longrightarrow>
   max (if ex \<and> m < n then m else m - (if m = 0 then 0 else 1))
       (if ex \<and> n < m then n else n - (if n = 0 then 0 else 1)) = max m n - (1 :: int)"
  by (auto simp: max_def)

lemma closer_by_one:
  fixes a b c d :: int
  assumes "max \<bar>a - c\<bar> \<bar>b - d\<bar> > 0"
    and "a' = a + (if ex \<and> \<bar>a - c\<bar> < \<bar>b - d\<bar> then 0 else sgn (c - a))"
    and "b' = b + (if ex \<and> \<bar>b - d\<bar> < \<bar>a - c\<bar> then 0 else sgn (d - b))"
  shows "max \<bar>a' - c\<bar> \<bar>b' - d\<bar> = max \<bar>a - c\<bar> \<bar>b - d\<bar> - 1"
proof -
  have sg: "\<And>u :: int. \<bar>u - sgn u\<bar> = \<bar>u\<bar> - (if u = 0 then 0 else 1)"
    by (simp add: sgn_if abs_if)
  define u v where "u = a - c" and "v = b - d"
  have "a' - c = u - (if ex \<and> \<bar>u\<bar> < \<bar>v\<bar> then 0 else sgn u)"
    and "b' - d = v - (if ex \<and> \<bar>v\<bar> < \<bar>u\<bar> then 0 else sgn v)"
    using assms(2,3) by (auto simp: u_def v_def sgn_if abs_if)
  then have "\<bar>a' - c\<bar> = (if ex \<and> \<bar>u\<bar> < \<bar>v\<bar> then \<bar>u\<bar> else \<bar>u\<bar> - (if \<bar>u\<bar> = 0 then 0 else 1))"
    and "\<bar>b' - d\<bar> = (if ex \<and> \<bar>v\<bar> < \<bar>u\<bar> then \<bar>v\<bar> else \<bar>v\<bar> - (if \<bar>v\<bar> = 0 then 0 else 1))"
    by (auto simp: sg)
  then have "max \<bar>a' - c\<bar> \<bar>b' - d\<bar> = max \<bar>u\<bar> \<bar>v\<bar> - 1"
    using max_step [of "\<bar>u\<bar>" "\<bar>v\<bar>" ex] assms(1) by (simp only: u_def v_def abs_ge_zero)
  then show ?thesis by (simp add: u_def v_def)
qed

lemma getDiagonalDistance_eq:
  "getDiagonalDistance p t = max \<bar>getX p - getX t\<bar> \<bar>getY p - getY t\<bar>"
  by (simp only: getDiagonalDistance_def getDistanceX_def getDistanceY_def getOffsetX_def
      getOffsetY_def)

lemma step_towards_closer:
  assumes "getDiagonalDistance p t > 0"
  shows "getDiagonalDistance (step_towards ex t p) t = getDiagonalDistance p t - 1"
  unfolding getDiagonalDistance_eq
proof (rule closer_by_one)
  show "0 < max \<bar>getX p - getX t\<bar> \<bar>getY p - getY t\<bar>"
    using assms by (simp only: getDiagonalDistance_eq)
  show "getX (step_towards ex t p) = getX p +
      (if ex \<and> \<bar>getX p - getX t\<bar> < \<bar>getY p - getY t\<bar> then 0 else sgn (getX t - getX p))"
    using step_towards_x [of ex t p]
    by (simp only: getDistanceX_def getDistanceY_def getOffsetX_def getOffsetY_def)
  show "getY (step_towards ex t p) = getY p +
      (if ex \<and> \<bar>getY p - getY t\<bar> < \<bar>getX p - getX t\<bar> then 0 else sgn (getY t - getY p))"
    using step_towards_y [OF assms, of ex]
    by (simp only: getDistanceX_def getDistanceY_def getOffsetX_def getOffsetY_def)
qed

lemma step_towards_z: "pos_z (step_towards ex t p) = pos_z p"
  by (cases "getDirectionTo p t ex") (simp_all add: step_towards_def)

lemma walk_distance:
  "int n \<le> getDiagonalDistance p t \<Longrightarrow>
   getDiagonalDistance ((step_towards ex t ^^ n) p) t = getDiagonalDistance p t - int n"
  by (induction n) (auto simp: step_towards_closer)

lemma walk_z: "pos_z ((step_towards ex t ^^ n) p) = pos_z p"
  by (induction n) (auto simp: step_towards_z)

lemma diagonal_zero:
  "getDiagonalDistance p t = 0 \<Longrightarrow> pos_x p = pos_x t \<and> pos_y p = pos_y t"
  by (auto simp: distance_defs max_def intro: word_uint_eqI split: if_splits)

lemma getDiagonalDistance_nonneg: "0 \<le> getDiagonalDistance p t"
  by (simp add: distance_defs max_def)

section \<open>Properties\<close>

text \<open>A creature that follows \<open>getDirectionTo\<close> with either setting of \<open>exactDiagonalOnly\<close> stands
  on the target's column after exactly as many steps as the diagonal (Chebyshev) distance, on its own
  floor; the distance after each step is one less.\<close>

theorem getDirectionTo_reaches:
  "(step_towards exactOnly target ^^ nat (getDiagonalDistance p target)) p = target\<lparr>pos_z := pos_z p\<rparr>"
proof -
  let ?q = "(step_towards exactOnly target ^^ nat (getDiagonalDistance p target)) p"
  have "getDiagonalDistance ?q target = 0"
    using walk_distance [of "nat (getDiagonalDistance p target)" p target exactOnly]
      getDiagonalDistance_nonneg [of p target] by simp
  from diagonal_zero [OF this] walk_z [of "nat (getDiagonalDistance p target)" exactOnly target p] show ?thesis
    by (cases ?q; cases target) simp
qed

text \<open>\<open>operator<\<close> on positions is a strict total order, and the hash used for the maps and sets of
  positions is injective.\<close>

theorem positions_ordered_and_hashed:
  "irreflp pos_less \<and> transp pos_less \<and> totalp pos_less \<and> inj pos_hash"
  by (auto simp: irreflp_def pos_less_irrefl totalp_on_def inj_def
      intro: transpI dest: pos_less_trans pos_less_total pos_hash_inj)

text \<open>A step in a direction and one in the opposite direction return to the same position, for all
  nine directions and also where a coordinate wraps around.\<close>

theorem opposite_steps_cancel:
  "getNextPosition (opposite d) (getNextPosition d p) = p \<and>
   getNextPosition d (getNextPosition (opposite d) p) = p"
  by (cases d) simp_all

end
