(* ===== verification/Network_Message.thy ===== *)
theory Network_Message
  imports Geometry
begin

text \<open>
  The byte buffer of the wire protocol: \<^verbatim>\<open>src/server/network/message/networkmessage.hpp\<close> and
  \<^verbatim>\<open>networkmessage.cpp\<close>.  A message is a record with the fields of \<^verbatim>\<open>NetworkMessageInfo\<close> and the
  buffer of \<open>NETWORKMESSAGE_MAXSIZE\<close> bytes; length and position keep their 16 bits, so every
  \<open>+=\<close> wraps as in the code.  An operation that indexes the raw buffer returns an option:
  \<open>None\<close> is an access outside the array (undefined behaviour in C++), which
  the lemmas show cannot happen on well-formed messages.  Log calls are left out.  The character
  set conversions of Boost.Locale are the parameters \<open>from_utf\<close> and \<open>to_utf\<close>.

  The lemmas give each writer its effect on the payload, each reader its effect on the bytes still
  to be read, and, through the locale \<open>message_codec\<close>, the round trip of every field type over
  any sequence of values.
\<close>

section \<open>Constants and state\<close>

definition NETWORKMESSAGE_MAXSIZE :: nat where "NETWORKMESSAGE_MAXSIZE = 65500"
definition HEADER_LENGTH :: nat where "HEADER_LENGTH = 2"
definition CHECKSUM_LENGTH :: nat where "CHECKSUM_LENGTH = 4"
definition XTEA_MULTIPLE :: nat where "XTEA_MULTIPLE = 8"

definition MAX_BODY_LENGTH :: nat where
  "MAX_BODY_LENGTH = NETWORKMESSAGE_MAXSIZE - HEADER_LENGTH - CHECKSUM_LENGTH - XTEA_MULTIPLE"

definition MAX_PROTOCOL_BODY_LENGTH :: nat where
  "MAX_PROTOCOL_BODY_LENGTH = MAX_BODY_LENGTH - 10"

definition INITIAL_BUFFER_POSITION :: u16 where "INITIAL_BUFFER_POSITION = 7"

lemmas message_consts =
  NETWORKMESSAGE_MAXSIZE_def HEADER_LENGTH_def CHECKSUM_LENGTH_def XTEA_MULTIPLE_def
  MAX_BODY_LENGTH_def MAX_PROTOCOL_BODY_LENGTH_def INITIAL_BUFFER_POSITION_def

record NetworkMessage =
  msg_length :: u16
  msg_position :: u16
  msg_overrun :: bool
  msg_buffer :: "byte list"

definition reset :: "'z NetworkMessage_scheme \<Rightarrow> 'z NetworkMessage_scheme" where
  "reset m = m\<lparr>msg_length := 0, msg_position := INITIAL_BUFFER_POSITION, msg_overrun := False\<rparr>"

definition new_message :: NetworkMessage where
  "new_message = \<lparr>msg_length = 0, msg_position = INITIAL_BUFFER_POSITION, msg_overrun = False,
     msg_buffer = replicate NETWORKMESSAGE_MAXSIZE 0\<rparr>"

section \<open>Capacity tests\<close>

text \<open>
  \<open>canAdd\<close> adds in \<^verbatim>\<open>size_t\<close>; \<open>canRead\<close> subtracts in \<^verbatim>\<open>int\<close>, where nothing overflows.
\<close>

definition canAdd :: "nat \<Rightarrow> 'z NetworkMessage_scheme \<Rightarrow> bool" where
  "canAdd sz m \<longleftrightarrow> (sz + unat (msg_position m)) mod 2 ^ 64 < MAX_BODY_LENGTH"

definition canRead :: "int \<Rightarrow> 'z NetworkMessage_scheme \<Rightarrow> bool" where
  "canRead sz m \<longleftrightarrow>
     sz \<le> int (unat (msg_length m)) - (int (unat (msg_position m)) - int (unat INITIAL_BUFFER_POSITION))"

section \<open>Readers\<close>

definition decodeHeader :: "'z NetworkMessage_scheme \<Rightarrow> int \<times> 'z NetworkMessage_scheme" where
  "decodeHeader m =
     (if \<not> canRead 2 m then (0, m)
      else
        let p = unat (msg_position m) in
        if p + 1 < NETWORKMESSAGE_MAXSIZE then
          (int (unat (msg_buffer m ! p)) + 256 * int (unat (msg_buffer m ! (p + 1))),
           m\<lparr>msg_position := msg_position m + 4\<rparr>)
        else (0, m))"

definition getByte :: "'z NetworkMessage_scheme \<Rightarrow> byte \<times> 'z NetworkMessage_scheme" where
  "getByte m =
     (if \<not> canRead 1 m then (0, m)
      else if msg_position m = 0 then (0, m)
      else
        let p = unat (msg_position m) in
        ((if p < NETWORKMESSAGE_MAXSIZE then msg_buffer m ! p else 0),
         m\<lparr>msg_position := msg_position m + 1\<rparr>))"

definition getPreviousByte :: "'z NetworkMessage_scheme \<Rightarrow> byte \<times> 'z NetworkMessage_scheme" where
  "getPreviousByte m =
     (if msg_position m = 0 then (0, m)
      else
        let q = msg_position m - 1 in
        ((if unat q < NETWORKMESSAGE_MAXSIZE then msg_buffer m ! unat q else 0),
         m\<lparr>msg_position := q\<rparr>))"

text \<open>The template \<^verbatim>\<open>get<T>()\<close> for an integral \<open>T\<close>; the span over the raw buffer is unchecked.\<close>

definition get :: "'z NetworkMessage_scheme \<Rightarrow> ('a::len word \<times> 'z NetworkMessage_scheme) option" where
  "get m =
     (let n = LENGTH('a) div 8; p = unat (msg_position m) in
      if \<not> canRead (int n) m then Some (0, m)
      else if p + n \<le> NETWORKMESSAGE_MAXSIZE then
        Some (word_of_bytes (read_at p n (msg_buffer m)),
              m\<lparr>msg_position := msg_position m + of_nat n\<rparr>)
      else None)"

definition getString ::
  "(byte list \<Rightarrow> byte list) \<Rightarrow> u16 \<Rightarrow> 'z NetworkMessage_scheme \<Rightarrow>
   (byte list \<times> 'z NetworkMessage_scheme) option" where
  "getString to_utf stringLen m =
     (case (if stringLen = 0 then get m else Some (stringLen, m)) of
        None \<Rightarrow> None
      | Some (len, m1) \<Rightarrow>
          let n = unat len; p = unat (msg_position m1) in
          if \<not> canRead (int n) m1 then Some ([], m1)
          else if n > NETWORKMESSAGE_MAXSIZE then Some ([], m1)
          else if p + n \<le> NETWORKMESSAGE_MAXSIZE then
            Some (to_utf (read_at p n (msg_buffer m1)),
                  m1\<lparr>msg_position := msg_position m1 + len\<rparr>)
          else None)"

definition getPosition :: "'z NetworkMessage_scheme \<Rightarrow> (Position \<times> 'z NetworkMessage_scheme) option" where
  "getPosition m =
     (case get m of
        None \<Rightarrow> None
      | Some (x, m1) \<Rightarrow>
          (case get m1 of
             None \<Rightarrow> None
           | Some (y, m2) \<Rightarrow>
               let (z, m3) = getByte m2 in Some (mkPosition x y z, m3)))"

text \<open>The argument is an \<^verbatim>\<open>int16_t\<close>: adding its two's complement moves back for negative counts.\<close>

definition skipBytes :: "16 word \<Rightarrow> 'z NetworkMessage_scheme \<Rightarrow> 'z NetworkMessage_scheme" where
  "skipBytes count m = m\<lparr>msg_position := msg_position m + count\<rparr>"

section \<open>Writers\<close>

definition addByte :: "byte \<Rightarrow> 'z NetworkMessage_scheme \<Rightarrow> 'z NetworkMessage_scheme" where
  "addByte v m =
     (if \<not> canAdd 1 m then m
      else if unat (msg_position m) < NETWORKMESSAGE_MAXSIZE then
        m\<lparr>msg_buffer := write_at (unat (msg_position m)) [v] (msg_buffer m),
          msg_position := msg_position m + 1, msg_length := msg_length m + 1\<rparr>
      else m\<lparr>msg_position := msg_position m + 1\<rparr>)"

definition add :: "'a::len word \<Rightarrow> 'z NetworkMessage_scheme \<Rightarrow> 'z NetworkMessage_scheme" where
  "add v m =
     (let n = sizeof v; p = unat (msg_position m) in
      if \<not> canAdd n m then m
      else if p + n > NETWORKMESSAGE_MAXSIZE then m
      else if n > NETWORKMESSAGE_MAXSIZE - p then m
      else m\<lparr>msg_buffer := write_at p (bytes_of v) (msg_buffer m),
             msg_position := msg_position m + of_nat n, msg_length := msg_length m + of_nat n\<rparr>)"

text \<open>A null pointer is \<open>None\<close>; otherwise the list holds the \<open>size\<close> bytes pointed to.\<close>

definition addBytes :: "byte list option \<Rightarrow> 'z NetworkMessage_scheme \<Rightarrow> 'z NetworkMessage_scheme" where
  "addBytes bytes m =
     (case bytes of
        None \<Rightarrow> m
      | Some bs \<Rightarrow>
          let n = length bs; p = unat (msg_position m) in
          if \<not> canAdd n m then m
          else if n > NETWORKMESSAGE_MAXSIZE then m
          else m\<lparr>msg_buffer := write_at p bs (msg_buffer m),
                 msg_position := msg_position m + of_nat n, msg_length := msg_length m + of_nat n\<rparr>)"

definition addPaddingBytes :: "nat \<Rightarrow> 'z NetworkMessage_scheme \<Rightarrow> 'z NetworkMessage_scheme option" where
  "addPaddingBytes n m =
     (let p = unat (msg_position m) in
      if \<not> canAdd n m then Some m
      else if p + n \<le> NETWORKMESSAGE_MAXSIZE then
        Some (m\<lparr>msg_buffer := write_at p (replicate n 0x33) (msg_buffer m),
                msg_position := msg_position m + of_nat n, msg_length := msg_length m + of_nat n\<rparr>)
      else None)"

definition addString ::
  "(byte list \<Rightarrow> byte list) \<Rightarrow> byte list \<Rightarrow> 'z NetworkMessage_scheme \<Rightarrow> 'z NetworkMessage_scheme" where
  "addString from_utf value m =
     (if value = [] then add (0 :: u16) m
      else
        let latin1Str = from_utf value; stringLen = length latin1Str in
        if \<not> canAdd (stringLen + 2) m then m
        else if stringLen > NETWORKMESSAGE_MAXSIZE then m
        else
          let m1 = add (of_nat stringLen :: u16) m in
          m1\<lparr>msg_buffer := write_at (unat (msg_position m1)) latin1Str (msg_buffer m1),
             msg_position := msg_position m1 + of_nat stringLen,
             msg_length := msg_length m1 + of_nat stringLen\<rparr>)"

definition addPosition :: "Position \<Rightarrow> 'z NetworkMessage_scheme \<Rightarrow> 'z NetworkMessage_scheme" where
  "addPosition pos m = addByte (pos_z pos) (add (pos_y pos) (add (pos_x pos) m))"

text \<open>\<open>append\<close> copies the other message's body from \<open>INITIAL_BUFFER_POSITION\<close> on.\<close>

definition append :: "'y NetworkMessage_scheme \<Rightarrow> 'z NetworkMessage_scheme \<Rightarrow> 'z NetworkMessage_scheme option" where
  "append other m =
     (let n = unat (msg_length other); q = unat INITIAL_BUFFER_POSITION;
          p = unat (msg_position m) in
      if \<not> canAdd n m then Some m
      else if q + n \<le> NETWORKMESSAGE_MAXSIZE \<and> p + n \<le> NETWORKMESSAGE_MAXSIZE then
        Some (m\<lparr>msg_buffer := write_at p (read_at q n (msg_buffer other)) (msg_buffer m),
                msg_length := msg_length m + of_nat n, msg_position := msg_position m + of_nat n\<rparr>)
      else None)"

section \<open>Accessors\<close>

definition getLength :: "'z NetworkMessage_scheme \<Rightarrow> u16" where "getLength m = msg_length m"

definition setLength :: "u16 \<Rightarrow> 'z NetworkMessage_scheme \<Rightarrow> 'z NetworkMessage_scheme" where
  "setLength n m = m\<lparr>msg_length := n\<rparr>"

definition getBufferPosition :: "'z NetworkMessage_scheme \<Rightarrow> u16" where
  "getBufferPosition m = msg_position m"

definition setBufferPosition :: "u16 \<Rightarrow> 'z NetworkMessage_scheme \<Rightarrow> 'z NetworkMessage_scheme" where
  "setBufferPosition p m = m\<lparr>msg_position := p\<rparr>"

definition getLengthHeader :: "'z NetworkMessage_scheme \<Rightarrow> u16" where
  "getLengthHeader m = ucast (msg_buffer m ! 0) OR push_bit 8 (ucast (msg_buffer m ! 1))"

definition isOverrun :: "'z NetworkMessage_scheme \<Rightarrow> bool" where "isOverrun m = msg_overrun m"

text \<open>\<open>getBodyBuffer\<close> returns the offset of the pointer and rewinds the position to 2.\<close>

definition getBodyBuffer :: "'z NetworkMessage_scheme \<Rightarrow> nat \<times> 'z NetworkMessage_scheme" where
  "getBodyBuffer m = (HEADER_LENGTH, m\<lparr>msg_position := 2\<rparr>)"

section \<open>Abstraction: payload and bytes left to read\<close>

text \<open>
  A message being written keeps \<open>position = length + 7\<close> below \<open>MAX_BODY_LENGTH\<close>; its payload is what
  has been written.  A message being read has its position inside the body; \<open>remaining\<close> is the
  part of the body after the position.
\<close>

definition msg_wf :: "'z NetworkMessage_scheme \<Rightarrow> bool" where
  "msg_wf m \<longleftrightarrow> length (msg_buffer m) = NETWORKMESSAGE_MAXSIZE"

definition writer :: "'z NetworkMessage_scheme \<Rightarrow> bool" where
  "writer m \<longleftrightarrow> msg_wf m \<and> unat (msg_position m) = unat (msg_length m) + 7 \<and>
     unat (msg_position m) < MAX_BODY_LENGTH"

definition reader :: "'z NetworkMessage_scheme \<Rightarrow> bool" where
  "reader m \<longleftrightarrow> msg_wf m \<and> 7 \<le> unat (msg_position m) \<and>
     unat (msg_position m) \<le> unat (msg_length m) + 7 \<and>
     unat (msg_length m) + 7 \<le> NETWORKMESSAGE_MAXSIZE"

definition fits :: "nat \<Rightarrow> 'z NetworkMessage_scheme \<Rightarrow> bool" where
  "fits n m \<longleftrightarrow> unat (msg_position m) + n < MAX_BODY_LENGTH"

definition payload :: "'z NetworkMessage_scheme \<Rightarrow> byte list" where
  "payload m = read_at 7 (unat (msg_length m)) (msg_buffer m)"

definition remaining :: "'z NetworkMessage_scheme \<Rightarrow> byte list" where
  "remaining m =
     read_at (unat (msg_position m)) (unat (msg_length m) + 7 - unat (msg_position m)) (msg_buffer m)"

lemma canAdd_fits: "n < 2 ^ 32 \<Longrightarrow> canAdd n m \<longleftrightarrow> fits n m"
  using unat_u16_bound [of "msg_position m"] by (simp add: canAdd_def fits_def add.commute)

lemma canRead_nat: "canRead (int n) m \<longleftrightarrow> n + unat (msg_position m) \<le> unat (msg_length m) + 7"
proof -
  have "unat INITIAL_BUFFER_POSITION = 7" by (simp add: INITIAL_BUFFER_POSITION_def)
  then show ?thesis unfolding canRead_def by linarith
qed

lemma writer_new_message: "writer new_message" "payload new_message = []"
  by (simp_all add: writer_def msg_wf_def new_message_def payload_def read_at_def message_consts)

lemma writer_reset: "msg_wf m \<Longrightarrow> writer (reset m)" "payload (reset m) = []"
  by (simp_all add: writer_def msg_wf_def reset_def payload_def read_at_def message_consts)

lemma length_payload: "writer m \<Longrightarrow> length (payload m) = unat (msg_length m)"
  by (simp add: payload_def writer_def msg_wf_def buffer_simps message_consts)

text \<open>Every writer stores a block of bytes at the position and moves position and length past it.\<close>

definition put_block :: "byte list \<Rightarrow> 'z NetworkMessage_scheme \<Rightarrow> 'z NetworkMessage_scheme" where
  "put_block bs m = m\<lparr>msg_buffer := write_at (unat (msg_position m)) bs (msg_buffer m),
     msg_position := msg_position m + of_nat (length bs),
     msg_length := msg_length m + of_nat (length bs)\<rparr>"

lemma put_block_writer:
  assumes "writer m" and "fits (length bs) m"
  shows "writer (put_block bs m)" and "payload (put_block bs m) = payload m @ bs"
proof -
  from assms have p: "unat (msg_position m) = unat (msg_length m) + 7"
    and b: "length (msg_buffer m) = 65500"
    and f: "unat (msg_position m) + length bs < 65486"
    by (simp_all add: writer_def msg_wf_def fits_def message_consts)
  have pos: "unat (msg_position m + of_nat (length bs)) = unat (msg_position m) + length bs"
    using f by (intro u16_add) simp
  have len: "unat (msg_length m + of_nat (length bs)) = unat (msg_length m) + length bs"
    using f p by (intro u16_add) simp
  show "writer (put_block bs m)"
    using p b f pos len
    by (simp add: writer_def put_block_def msg_wf_def message_consts buffer_simps)
  have "payload (put_block bs m) = read_at 7 (unat (msg_length m) + length bs)
      (write_at (unat (msg_position m)) bs (msg_buffer m))"
    by (simp add: payload_def put_block_def len)
  also have "\<dots> = payload m @ bs"
    using p b f by (simp add: buffer_simps payload_def add.commute [of _ 7])
  finally show "payload (put_block bs m) = payload m @ bs" .
qed

lemma put_block_append: "fits (length (as @ bs)) m \<Longrightarrow> length (msg_buffer m) = 65500 \<Longrightarrow>
   put_block (as @ bs) m = put_block bs (put_block as m)"
  using unat_u16_bound [of "msg_position m"]
  by (simp add: put_block_def fits_def message_consts u16_add write_at_def min_def
      add.assoc of_nat_add [symmetric] del: of_nat_add)
     (simp add: ac_simps)

lemma addByte_put: "fits 1 m \<Longrightarrow> addByte v m = put_block [v] m"
  by (simp add: addByte_def canAdd_fits put_block_def) (simp add: fits_def message_consts)

lemma add_put: "sizeof v < 2 ^ 32 \<Longrightarrow> fits (sizeof v) m \<Longrightarrow> add v m = put_block (bytes_of v) m"
  by (simp add: add_def canAdd_fits put_block_def Let_def) (simp add: fits_def message_consts)

lemma addBytes_put: "fits (length bs) m \<Longrightarrow> addBytes (Some bs) m = put_block bs m"
  by (simp add: addBytes_def canAdd_fits put_block_def Let_def) (simp add: fits_def message_consts canAdd_def)

lemma addPaddingBytes_put: "fits n m \<Longrightarrow> addPaddingBytes n m = Some (put_block (replicate n 0x33) m)"
  by (simp add: addPaddingBytes_def put_block_def Let_def) (simp add: fits_def message_consts canAdd_def)

text \<open>A field that does not fit leaves the message as it was.\<close>

lemma no_room:
  "\<not> canAdd 1 m \<Longrightarrow> addByte b m = m"
  "\<not> canAdd (sizeof v) m \<Longrightarrow> add v m = m"
  "\<not> canAdd (length bs) m \<Longrightarrow> addBytes (Some bs) m = m"
  "\<not> canAdd n m \<Longrightarrow> addPaddingBytes n m = Some m"
  by (simp_all add: addByte_def add_def addBytes_def addPaddingBytes_def Let_def)

section \<open>Reading back\<close>

definition skip_block :: "nat \<Rightarrow> 'z NetworkMessage_scheme \<Rightarrow> 'z NetworkMessage_scheme" where
  "skip_block n m = m\<lparr>msg_position := msg_position m + of_nat n\<rparr>"

lemma length_remaining:
  "reader m \<Longrightarrow> length (remaining m) = unat (msg_length m) + 7 - unat (msg_position m)"
  by (simp add: remaining_def reader_def msg_wf_def buffer_simps message_consts)

lemma take_block:
  assumes "reader m" and "remaining m = bs @ rest"
  shows "canRead (int (length bs)) m"
    and "unat (msg_position m) + length bs \<le> NETWORKMESSAGE_MAXSIZE"
    and "read_at (unat (msg_position m)) (length bs) (msg_buffer m) = bs"
    and "reader (skip_block (length bs) m)"
    and "remaining (skip_block (length bs) m) = rest"
proof -
  let ?p = "unat (msg_position m)" and ?n = "unat (msg_length m)"
  have p: "7 \<le> ?p" "?p \<le> ?n + 7" "?n + 7 \<le> 65500" "length (msg_buffer m) = 65500"
    using assms(1) by (simp_all add: reader_def msg_wf_def message_consts)
  have len: "length bs + length rest = ?n + 7 - ?p"
    using length_remaining [OF assms(1)] assms(2) by simp
  have pos: "unat (msg_position m + of_nat (length bs)) = ?p + length bs"
    using p len by (intro u16_add) linarith
  show "canRead (int (length bs)) m"
    using p len by (simp add: canRead_nat)
  show "?p + length bs \<le> NETWORKMESSAGE_MAXSIZE"
    using p len by (simp add: message_consts)
  show "reader (skip_block (length bs) m)"
    using p len pos by (simp add: reader_def skip_block_def msg_wf_def message_consts)
  have "read_at ?p (?n + 7 - ?p) (msg_buffer m)
      = read_at ?p (length bs) (msg_buffer m) @ read_at (?p + length bs) (length rest) (msg_buffer m)"
    using p len read_at_append [of ?p "length bs" "length rest" "msg_buffer m"] by simp
  moreover have "length (read_at ?p (length bs) (msg_buffer m)) = length bs"
    using p len by (simp add: buffer_simps)
  ultimately have sp: "read_at ?p (length bs) (msg_buffer m) = bs"
    "read_at (?p + length bs) (length rest) (msg_buffer m) = rest"
    using assms(2) by (simp_all add: remaining_def)
  then show "read_at ?p (length bs) (msg_buffer m) = bs" by simp
  have "?n + 7 - (?p + length bs) = length rest" using p len by linarith
  then show "remaining (skip_block (length bs) m) = rest"
    using sp(2) by (simp add: remaining_def skip_block_def pos)
qed

lemma getByte_block:
  "reader m \<Longrightarrow> remaining m = [b] @ rest \<Longrightarrow> getByte m = (b, skip_block 1 m)"
  using take_block [of m "[b]" rest]
  by (auto simp: getByte_def skip_block_def Let_def reader_def read_at_def message_consts
      take_Suc_conv_app_nth msg_wf_def)

lemma get_block:
  fixes w :: "'a::len word"
  assumes "reader m" and "remaining m = bytes_of w @ rest" and "8 dvd LENGTH('a)"
  shows "get m = Some (w, skip_block (sizeof w) m)"
  using take_block [OF assms(1,2)] word_of_bytes_of [OF assms(3), of w]
  by (simp add: get_def skip_block_def Let_def sizeof_def)

text \<open>
  No reader leaves the buffer: on a message whose length field fits the buffer every raw access is
  inside the array, wherever the position is.
\<close>

lemma get_safe:
  assumes "unat (msg_length m) + 7 \<le> NETWORKMESSAGE_MAXSIZE"
  shows "get m \<noteq> (None :: ('a::len word \<times> 'z NetworkMessage_scheme) option)"
  using assms by (auto simp: get_def Let_def canRead_nat message_consts)

lemma get_length: "get m = Some (v, m') \<Longrightarrow> msg_length m' = msg_length m"
  by (auto simp: get_def Let_def split: if_splits)

lemma getString_safe:
  assumes "unat (msg_length m) + 7 \<le> NETWORKMESSAGE_MAXSIZE"
  shows "getString to_utf n m \<noteq> None"
proof -
  have *: "p + k \<le> 65500" if "unat (msg_length m1) = unat (msg_length m)"
      "canRead (int k) m1" "p = unat (msg_position m1)" for m1 :: "'a NetworkMessage_scheme" and k p
    using that assms by (auto simp: canRead_nat message_consts)
  show ?thesis
    using get_safe [OF assms, where ?'a = 16] *
    by (auto simp: getString_def Let_def message_consts dest: get_length
        split: option.splits if_splits prod.splits)
qed

lemma getPosition_safe:
  assumes "unat (msg_length m) + 7 \<le> NETWORKMESSAGE_MAXSIZE"
  shows "getPosition m \<noteq> None"
proof -
  obtain x m1 where 1: "get m = Some (x :: u16, m1)"
    using get_safe [OF assms] by (metis not_Some_eq surj_pair)
  then have "unat (msg_length m1) + 7 \<le> NETWORKMESSAGE_MAXSIZE"
    using assms by (simp add: get_length)
  then obtain y m2 where "get m1 = Some (y :: u16, m2)"
    using get_safe by (metis not_Some_eq surj_pair)
  with 1 show ?thesis
    by (auto simp: getPosition_def split: option.splits prod.splits)
qed

lemma writer_rewind:
  assumes "writer m"
  shows "reader (setBufferPosition INITIAL_BUFFER_POSITION m)"
    and "remaining (setBufferPosition INITIAL_BUFFER_POSITION m) = payload m"
  using assms
  by (simp_all add: writer_def reader_def setBufferPosition_def remaining_def payload_def msg_wf_def
      message_consts)

section \<open>Field codecs\<close>

text \<open>
  The contract between a writer and the reader of the same field type: on a message with room, \<open>put\<close>
  appends the encoding of the value to the payload; when the bytes left start with the encoding of a
  value, \<open>fetch\<close> returns the value and consumes exactly these bytes.
\<close>

locale message_codec =
  fixes put :: "'v \<Rightarrow> NetworkMessage \<Rightarrow> NetworkMessage"
    and fetch :: "NetworkMessage \<Rightarrow> ('v \<times> NetworkMessage) option"
    and enc :: "'v \<Rightarrow> byte list"
    and valid :: "'v \<Rightarrow> bool"
  assumes put_writer: "writer m \<Longrightarrow> valid v \<Longrightarrow> fits (length (enc v)) m \<Longrightarrow> writer (put v m)"
    and put_payload:
      "writer m \<Longrightarrow> valid v \<Longrightarrow> fits (length (enc v)) m \<Longrightarrow> payload (put v m) = payload m @ enc v"
    and fetch_enc: "reader m \<Longrightarrow> valid v \<Longrightarrow> remaining m = enc v @ rest \<Longrightarrow>
      \<exists>m'. fetch m = Some (v, m') \<and> reader m' \<and> remaining m' = rest"

text \<open>A sequence of fields written in order, and as many read in order.\<close>

fun put_all :: "('v \<Rightarrow> 'm \<Rightarrow> 'm) \<Rightarrow> 'v list \<Rightarrow> 'm \<Rightarrow> 'm" where
  "put_all put [] m = m"
| "put_all put (v # vs) m = put_all put vs (put v m)"

fun fetch_all :: "('m \<Rightarrow> ('v \<times> 'm) option) \<Rightarrow> nat \<Rightarrow> 'm \<Rightarrow> ('v list \<times> 'm) option" where
  "fetch_all fetch 0 m = Some ([], m)"
| "fetch_all fetch (Suc n) m =
     (case fetch m of
        None \<Rightarrow> None
      | Some (v, m1) \<Rightarrow>
          (case fetch_all fetch n m1 of
             None \<Rightarrow> None
           | Some (vs, m2) \<Rightarrow> Some (v # vs, m2)))"

context message_codec
begin

lemma put_all_payload:
  assumes "writer m" and "\<forall>v \<in> set vs. valid v"
    and "unat (msg_length m) + 7 + length (concat (map enc vs)) < MAX_BODY_LENGTH"
  shows "writer (put_all put vs m)" (is ?w)
    and "payload (put_all put vs m) = payload m @ concat (map enc vs)" (is ?p)
proof -
  have "?w \<and> ?p"
    using assms
  proof (induction vs arbitrary: m)
    case Nil
    then show ?case by simp
  next
    case (Cons v vs)
    from Cons.prems have fit: "fits (length (enc v)) m"
      by (simp add: fits_def writer_def)
    with Cons.prems have w: "writer (put v m)" and p: "payload (put v m) = payload m @ enc v"
      by (simp_all add: put_writer put_payload)
    from w p Cons.prems have "unat (msg_length (put v m)) = unat (msg_length m) + length (enc v)"
      by (metis length_append length_payload)
    with w p Cons show ?case by simp
  qed
  then show ?w ?p by simp_all
qed

lemma fetch_all_enc:
  assumes "reader m" and "\<forall>v \<in> set vs. valid v" and "remaining m = concat (map enc vs) @ rest"
  shows "\<exists>m'. fetch_all fetch (length vs) m = Some (vs, m') \<and> reader m' \<and> remaining m' = rest"
  using assms
proof (induction vs arbitrary: m)
  case Nil
  then show ?case by simp
next
  case (Cons v vs)
  then have "remaining m = enc v @ (concat (map enc vs) @ rest)" by simp
  then obtain m1 where "fetch m = Some (v, m1)" "reader m1"
    "remaining m1 = concat (map enc vs) @ rest"
    using fetch_enc Cons.prems by (metis list.set_intros(1))
  with Cons.IH [of m1] Cons.prems show ?case by auto
qed

lemma roundtrip:
  assumes "\<forall>v \<in> set vs. valid v" and "length (concat (map enc vs)) + 7 < MAX_BODY_LENGTH"
  shows "\<exists>m'. fetch_all fetch (length vs)
      (setBufferPosition INITIAL_BUFFER_POSITION (put_all put vs new_message)) = Some (vs, m')
      \<and> remaining m' = []"
proof -
  let ?m = "put_all put vs new_message"
  have "writer ?m" and "payload ?m = concat (map enc vs)"
    using put_all_payload [OF writer_new_message(1) assms(1)] assms(2) writer_new_message(2)
    by (simp_all add: new_message_def add.commute)
  then show ?thesis
    using fetch_all_enc [of "setBufferPosition INITIAL_BUFFER_POSITION ?m" vs "[]"] writer_rewind [of ?m] assms(1)
    by auto
qed

end

section \<open>The field types are codecs\<close>

text \<open>\<open>addByte\<close>/\<open>getByte\<close> and, for every width, \<open>add<T>\<close>/\<open>get<T>\<close>.\<close>

lemma fetch_word:
  fixes w :: "'a::len word"
  assumes "8 dvd LENGTH('a)" and "reader m" and "remaining m = bytes_of w @ rest"
  shows "\<exists>m'. get m = Some (w, m') \<and> reader m' \<and> remaining m' = rest"
  using get_block [OF assms(2,3,1)] take_block [OF assms(2,3)] by simp

interpretation byte_codec: message_codec addByte "\<lambda>m. Some (getByte m)" "\<lambda>b. [b]" "\<lambda>_. True"
proof unfold_locales
  fix m :: NetworkMessage and v rest
  assume "reader m" and "remaining m = [v] @ rest"
  then show "\<exists>m'. Some (getByte m) = Some (v, m') \<and> reader m' \<and> remaining m' = rest"
    using getByte_block [of m v rest] take_block [of m "[v]" rest] by simp
qed (simp_all add: addByte_put put_block_writer)

interpretation u16_codec: message_codec "add :: u16 \<Rightarrow> _" get bytes_of "\<lambda>_. True"
  by unfold_locales (simp_all add: add_put put_block_writer fetch_word)

interpretation u32_codec: message_codec "add :: u32 \<Rightarrow> _" get bytes_of "\<lambda>_. True"
  by unfold_locales (simp_all add: add_put put_block_writer fetch_word)

interpretation u64_codec: message_codec "add :: u64 \<Rightarrow> _" get bytes_of "\<lambda>_. True"
  by unfold_locales (simp_all add: add_put put_block_writer fetch_word)

text \<open>Positions: two 16-bit coordinates and a floor byte.\<close>

definition position_bytes :: "Position \<Rightarrow> byte list" where
  "position_bytes pos = bytes_of (pos_x pos) @ bytes_of (pos_y pos) @ [pos_z pos]"

lemma put_blocks:
  assumes "writer m" and "fits (length (as @ bs)) m"
  shows "fits (length as) m" and "fits (length bs) (put_block as m)"
    and "put_block bs (put_block as m) = put_block (as @ bs) m"
proof -
  show "fits (length as) m" using assms(2) by (simp add: fits_def)
  show "put_block bs (put_block as m) = put_block (as @ bs) m"
    using put_block_append [of as bs m] assms by (simp add: writer_def msg_wf_def message_consts)
  show "fits (length bs) (put_block as m)"
    using assms by (simp add: fits_def put_block_def message_consts u16_add)
qed

lemma addPosition_put:
  assumes "writer m" and "fits 5 m"
  shows "addPosition pos m = put_block (position_bytes pos) m"
proof -
  let ?x = "bytes_of (pos_x pos)" and ?y = "bytes_of (pos_y pos)" and ?z = "[pos_z pos]"
  have "fits (length (?x @ (?y @ ?z))) m" using assms(2) by simp
  note 1 = put_blocks [OF assms(1) this]
  have w: "writer (put_block ?x m)" by (rule put_block_writer [OF assms(1) 1(1)])
  note 2 = put_blocks [OF w 1(2)]
  show ?thesis
    using 1 2 by (simp add: addPosition_def position_bytes_def add_put addByte_put)
qed

lemma fetch_position:
  assumes "reader m" and "remaining m = position_bytes pos @ rest"
  shows "\<exists>m'. getPosition m = Some (pos, m') \<and> reader m' \<and> remaining m' = rest"
proof -
  obtain m1 where 1: "get m = Some (pos_x pos, m1)" "reader m1"
      "remaining m1 = bytes_of (pos_y pos) @ ([pos_z pos] @ rest)"
    using fetch_word [OF _ assms(1), of "pos_x pos"] assms(2) by (auto simp: position_bytes_def)
  then obtain m2 where 2: "get m1 = Some (pos_y pos, m2)" "reader m2" "remaining m2 = [pos_z pos] @ rest"
    using fetch_word [of m1 "pos_y pos"] by auto
  then obtain m3 where "getByte m2 = (pos_z pos, m3)" "reader m3" "remaining m3 = rest"
    using getByte_block [of m2 "pos_z pos" rest] take_block [of m2 "[pos_z pos]" rest] by auto
  with 1 2 show ?thesis
    by (auto simp: getPosition_def mkPosition_def)
qed

interpretation position_codec: message_codec addPosition getPosition position_bytes "\<lambda>_. True"
proof unfold_locales
  fix m :: NetworkMessage and v
  assume "writer m" and "fits (length (position_bytes v)) m"
  then show "writer (addPosition v m)" "payload (addPosition v m) = payload m @ position_bytes v"
    using addPosition_put [of m v] put_block_writer [of m "position_bytes v"]
    by (simp_all add: position_bytes_def)
qed (rule fetch_position)

text \<open>
  Strings: a 16-bit length and the Latin-1 bytes.  A string is valid when the conversion library maps
  it to Latin-1 and back, and the empty string to itself.
\<close>

definition string_bytes :: "(byte list \<Rightarrow> byte list) \<Rightarrow> byte list \<Rightarrow> byte list" where
  "string_bytes from_utf s =
     (if s = [] then bytes_of (0 :: u16)
      else bytes_of (of_nat (length (from_utf s)) :: u16) @ from_utf s)"

definition latin1 :: "(byte list \<Rightarrow> byte list) \<Rightarrow> (byte list \<Rightarrow> byte list) \<Rightarrow> byte list \<Rightarrow> bool" where
  "latin1 from_utf to_utf s \<longleftrightarrow> to_utf (from_utf s) = s \<and> to_utf [] = [] \<and> length (from_utf s) < 65536"

lemma addString_put:
  assumes "writer m" and "fits (length (string_bytes from_utf s)) m"
  shows "addString from_utf s m = put_block (string_bytes from_utf s) m"
proof (cases "s = []")
  case True
  with assms show ?thesis by (simp add: addString_def string_bytes_def add_put)
next
  case False
  let ?l = "from_utf s"
  let ?n = "bytes_of (of_nat (length ?l) :: u16)"
  have f: "fits (length (?n @ ?l)) m" using assms(2) False by (simp add: string_bytes_def)
  then have "length ?l < 65500" by (simp add: fits_def message_consts)
  moreover have "canAdd (length ?l + 2) m"
    using f canAdd_fits [of "length ?l + 2" m] calculation by (simp add: add.commute)
  ultimately show ?thesis
    using False put_blocks [OF assms(1) f] 
    by (simp add: addString_def string_bytes_def Let_def add_put message_consts)
       (simp add: put_block_def)
qed

lemma fetch_string:
  assumes "reader m" and "latin1 from_utf to_utf s" and "remaining m = string_bytes from_utf s @ rest"
  shows "\<exists>m'. getString to_utf 0 m = Some (s, m') \<and> reader m' \<and> remaining m' = rest"
proof -
  define bs where "bs = (if s = [] then [] else from_utf s)"
  have len: "length bs < 65536" and s: "to_utf bs = s"
    using assms(2) by (auto simp: bs_def latin1_def)
  have un: "unat (of_nat (length bs) :: u16) = length bs"
    using len by (simp add: unat_of_nat take_bit_nat_eq_self)
  then have ui: "uint (of_nat (length bs) :: u16) = int (length bs)"
    using arg_cong [of _ _ int] by fastforce
  have "remaining m = bytes_of (of_nat (length bs) :: u16) @ (bs @ rest)"
    using assms(3) by (auto simp: string_bytes_def bs_def)
  then obtain m1 where 1: "get m = Some (of_nat (length bs) :: u16, m1)" "reader m1"
      "remaining m1 = bs @ rest"
    using fetch_word [OF _ assms(1), of "of_nat (length bs) :: u16"] by auto
  note b = take_block [OF 1(2,3)]
  from b(2) have "length bs \<le> NETWORKMESSAGE_MAXSIZE" by simp
  then have "getString to_utf 0 m = Some (to_utf bs, skip_block (length bs) m1)"
    using 1(1) b un ui by (simp add: getString_def Let_def skip_block_def)
  with b s show ?thesis by auto
qed

interpretation string_codec: message_codec "addString from_utf" "getString to_utf 0"
    "string_bytes from_utf" "latin1 from_utf to_utf"
  for from_utf to_utf
proof unfold_locales
  fix m :: NetworkMessage and v
  assume "writer m" and "fits (length (string_bytes from_utf v)) m"
  then show "writer (addString from_utf v m)"
    "payload (addString from_utf v m) = payload m @ string_bytes from_utf v"
    using addString_put [of m from_utf v] put_block_writer [of m "string_bytes from_utf v"]
    by simp_all
qed (rule fetch_string)

section \<open>Appending messages, the header, the previous byte\<close>

lemma append_put:
  assumes "writer other" and "fits (unat (msg_length other)) m"
  shows "append other m = Some (put_block (payload other) m)"
proof -
  have "unat (msg_length other) < 65486"
    using assms(2) by (simp add: fits_def message_consts)
  with assms canAdd_fits [of "unat (msg_length other)" m] show ?thesis
    by (simp add: append_def Let_def put_block_def payload_def length_payload buffer_simps
        writer_def msg_wf_def message_consts fits_def)
qed

lemma append_never_overflows:
  "append other m \<noteq> None"
  using unat_u16_bound [of "msg_length other"] unat_u16_bound [of "msg_position m"]
  by (auto simp: append_def Let_def canAdd_def message_consts)

lemma decodeHeader_value:
  assumes "reader m" and "remaining m = bytes_of (h :: u16) @ rest"
  shows "decodeHeader m = (int (unat h), m\<lparr>msg_position := msg_position m + 4\<rparr>)"
proof -
  let ?p = "unat (msg_position m)"
  note b = take_block [OF assms]
  have "length (msg_buffer m) = 65500"
    using assms(1) by (simp add: reader_def msg_wf_def message_consts)
  with b(2) have "read_at ?p 2 (msg_buffer m) = [msg_buffer m ! ?p, msg_buffer m ! (?p + 1)]"
    by (simp add: read_at_def message_consts numeral_2_eq_2 take_Suc_conv_app_nth nth_append)
  with b(3) have "bytes_of h = [msg_buffer m ! ?p, msg_buffer m ! (?p + 1)]" by simp
  moreover have "le_val (bytes_of h) = unat h"
    using unat_u16_bound [of h] by (simp add: bytes_of_def codec_simps)
  ultimately have "unat h = unat (msg_buffer m ! ?p) + 256 * unat (msg_buffer m ! (?p + 1))"
    by simp
  moreover have "canRead 2 m" using b(1) by simp
  ultimately show ?thesis
    using b(2) by (simp add: decodeHeader_def Let_def message_consts)
qed

text \<open>\<open>getPreviousByte\<close> undoes a \<open>getByte\<close>: it returns the byte just read and the message before.\<close>

lemma getPreviousByte_getByte:
  assumes "reader m" and "remaining m = b # rest"
  shows "getPreviousByte (snd (getByte m)) = (b, m)"
  using assms getByte_block [of m b rest] take_block [of m "[b]" rest]
  by (auto simp: getPreviousByte_def skip_block_def Let_def reader_def read_at_def msg_wf_def
      message_consts take_Suc_conv_app_nth u16_add)

section \<open>Properties\<close>

text \<open>A sequence of strings written into a fresh message is read back unchanged, and nothing is left
  over, whenever the conversion library can represent the strings and the fields fit the body.\<close>

theorem strings_roundtrip:
  assumes "\<forall>s \<in> set ss. latin1 from_utf to_utf s"
    and "length (concat (map (string_bytes from_utf) ss)) + 7 < MAX_BODY_LENGTH"
  shows "\<exists>m'. fetch_all (getString to_utf 0) (length ss)
      (setBufferPosition INITIAL_BUFFER_POSITION (put_all (addString from_utf) ss new_message)) = Some (ss, m')
      \<and> remaining m' = []"
  using assms by (rule string_codec.roundtrip)

theorem strings_roundtrip_witness:
  "\<exists>m'. fetch_all (getString id 0) 2
      (setBufferPosition INITIAL_BUFFER_POSITION (put_all (addString id) [[72, 105], []] new_message))
      = Some ([[72, 105], []], m') \<and> remaining m' = []"
  using strings_roundtrip [of "[[72, 105], []]" id id]
  by (simp add: latin1_def string_bytes_def message_consts numeral_2_eq_2 del: fetch_all.simps)

text \<open>A sequence of positions written into a fresh message is read back unchanged.\<close>

theorem positions_roundtrip:
  assumes "5 * length ps + 7 < MAX_BODY_LENGTH"
  shows "\<exists>m'. fetch_all getPosition (length ps)
      (setBufferPosition INITIAL_BUFFER_POSITION (put_all addPosition ps new_message)) = Some (ps, m')
      \<and> remaining m' = []"
proof -
  have "length (concat (map position_bytes ps)) = 5 * length ps"
    by (induction ps) (simp_all add: position_bytes_def)
  with assms show ?thesis using position_codec.roundtrip [of ps] by simp
qed

theorem positions_roundtrip_witness:
  "\<exists>m'. fetch_all getPosition 1 (setBufferPosition INITIAL_BUFFER_POSITION
      (put_all addPosition [mkPosition 32369 32241 7] new_message)) = Some ([mkPosition 32369 32241 7], m')
      \<and> remaining m' = []"
  using positions_roundtrip [of "[mkPosition 32369 32241 7]"] by (simp add: message_consts)

text \<open>C5: The readers of integers, strings and positions never touch memory outside the buffer, wherever
  the position of the message is, as long as its length field is at most the buffer without the header.\<close>

theorem readers_stay_in_buffer:
  fixes m :: NetworkMessage
  assumes "unat (msg_length m) + 7 \<le> NETWORKMESSAGE_MAXSIZE"
  shows "get m \<noteq> (None :: ('a::len word \<times> NetworkMessage) option) \<and>
    getString to_utf n m \<noteq> None \<and> getPosition m \<noteq> None"
  using assms by (simp add: get_safe getString_safe getPosition_safe)

theorem readers_stay_in_buffer_witness:
  "get (setLength 65493 new_message) \<noteq> (None :: (u64 \<times> NetworkMessage) option) \<and>
    getString id 0 (setLength 65493 new_message) \<noteq> None \<and> getPosition (setLength 65493 new_message) \<noteq> None"
  using readers_stay_in_buffer [of "setLength 65493 new_message"] by (simp add: setLength_def message_consts)

text \<open>Appending a message adds exactly its payload, and an append that does not fit leaves the
  message unchanged; in neither case does the copy leave the buffer.\<close>

theorem append_payload:
  assumes "writer m" and "writer other"
  shows "\<exists>m'. append other m = Some m' \<and>
    (if fits (unat (msg_length other)) m then writer m' \<and> payload m' = payload m @ payload other else m' = m)"
proof (cases "fits (unat (msg_length other)) m")
  case True
  with append_put [OF assms(2) True] put_block_writer [OF assms(1), of "payload other"] assms(2)
  show ?thesis by (simp add: length_payload)
next
  case False
  then have "\<not> canAdd (unat (msg_length other)) m"
    using canAdd_fits [of "unat (msg_length other)" m] unat_u16_bound [of "msg_length other"] by simp
  with False show ?thesis by (simp add: append_def Let_def)
qed

theorem append_payload_witness:
  "\<exists>m'. append (addByte 1 new_message) (addByte 2 new_message) = Some m' \<and>
    (if fits (unat (msg_length (addByte 1 new_message))) (addByte 2 new_message)
     then writer m' \<and> payload m' = payload (addByte 2 new_message) @ payload (addByte 1 new_message)
     else m' = addByte 2 new_message)"
proof -
  have "fits (length [b]) new_message" for b :: byte
    by (simp add: fits_def new_message_def message_consts)
  then have "writer (addByte b new_message)" for b
    using addByte_put [of new_message b] put_block_writer [OF writer_new_message(1), of "[b]"] by simp
  then show ?thesis by (intro append_payload)
qed

end
