(* ===== verification/Output_Message.thy ===== *)
theory Output_Message
  imports Network_Message
begin

text \<open>
  Outgoing messages, \<^verbatim>\<open>src/server/network/message/outputmessage.hpp\<close>: a network message with the
  start of the data to send.  Headers are written backwards into the seven bytes before the body.
  The record extends \<open>NetworkMessage\<close> as the class derives from it, so every operation of the base
  applies unchanged.  \<open>framed m start bs\<close> says that the bytes to send are \<open>bs\<close>, at offset \<open>start\<close>;
  each operation has a lemma that says how it changes \<open>bs\<close>.
\<close>

section \<open>State and operations\<close>

record OutputMessage = NetworkMessage +
  outputBufferStart :: u16

definition new_output_message :: OutputMessage where
  "new_output_message =
     NetworkMessage.extend new_message \<lparr>outputBufferStart = INITIAL_BUFFER_POSITION\<rparr>"

text \<open>The bytes behind \<open>getOutputBuffer()\<close>, \<open>getLength()\<close> of them.\<close>

definition output_bytes :: "OutputMessage \<Rightarrow> byte list" where
  "output_bytes m = read_at (unat (outputBufferStart m)) (unat (msg_length m)) (msg_buffer m)"

definition add_header :: "'a::len word \<Rightarrow> OutputMessage \<Rightarrow> OutputMessage" where
  "add_header h m =
     (if unat (outputBufferStart m) < sizeof h then m
      else
        let start = outputBufferStart m - of_nat (sizeof h) in
        m\<lparr>outputBufferStart := start,
          msg_buffer := write_at (unat start) (bytes_of h) (msg_buffer m),
          msg_length := msg_length m + of_nat (sizeof h)\<rparr>)"

definition writePaddingAmount :: "OutputMessage \<Rightarrow> OutputMessage option" where
  "writePaddingAmount m =
     (let paddingAmount = 8 - unat (msg_length m) mod 8 - 1 in
      case addPaddingBytes paddingAmount m of
        None \<Rightarrow> None
      | Some m1 \<Rightarrow> Some (add_header (of_nat paddingAmount :: u8) m1))"

text \<open>The subtraction and the division are in \<^verbatim>\<open>int\<close>; the quotient is truncated to 16 bits.\<close>

definition writeMessageLength :: "OutputMessage \<Rightarrow> OutputMessage" where
  "writeMessageLength m =
     add_header (of_int (c_div (int (unat (msg_length m)) - 4) 8) :: u16) m"

definition addCryptoHeader :: "bool \<Rightarrow> u32 \<Rightarrow> OutputMessage \<Rightarrow> OutputMessage" where
  "addCryptoHeader addChecksum checksum m =
     writeMessageLength (if addChecksum then add_header checksum m else m)"

text \<open>
  \<open>OutputMessage::append\<close> hides the method of the base class and has no capacity test: \<open>None\<close> is the
  copy out of one array or into the other past its end.
\<close>

definition append_output :: "'z NetworkMessage_scheme \<Rightarrow> OutputMessage \<Rightarrow> OutputMessage option" where
  "append_output msg m =
     (let n = unat (msg_length msg); q = unat INITIAL_BUFFER_POSITION; p = unat (msg_position m) in
      if q + n \<le> NETWORKMESSAGE_MAXSIZE \<and> p + n \<le> NETWORKMESSAGE_MAXSIZE then
        Some (m\<lparr>msg_buffer := write_at p (read_at q n (msg_buffer msg)) (msg_buffer m),
                msg_length := msg_length m + of_nat n, msg_position := msg_position m + of_nat n\<rparr>)
      else None)"

section \<open>What is sent\<close>

definition out_writer :: "OutputMessage \<Rightarrow> bool" where
  "out_writer m \<longleftrightarrow> writer m \<and> outputBufferStart m = INITIAL_BUFFER_POSITION"

definition framed :: "OutputMessage \<Rightarrow> nat \<Rightarrow> byte list \<Rightarrow> bool" where
  "framed m start bs \<longleftrightarrow> msg_wf m \<and> unat (outputBufferStart m) = start \<and>
     unat (msg_length m) = length bs \<and> start + length bs \<le> NETWORKMESSAGE_MAXSIZE \<and>
     read_at start (length bs) (msg_buffer m) = bs"

lemma out_writer_new: "out_writer new_output_message" "payload new_output_message = []"
  by (simp_all add: out_writer_def writer_def msg_wf_def new_output_message_def new_message_def
      payload_def read_at_def NetworkMessage.defs OutputMessage.defs message_consts)

lemma framed_output_bytes: "framed m start bs \<Longrightarrow> output_bytes m = bs"
  by (auto simp: framed_def output_bytes_def)

lemma out_writer_framed: "out_writer m \<Longrightarrow> framed m 7 (payload m)"
  by (auto simp: out_writer_def writer_def framed_def payload_def msg_wf_def message_consts
      buffer_simps)

lemma framed_add_header:
  assumes "framed m start bs" and "sizeof h \<le> start"
  shows "framed (add_header h m) (start - sizeof h) (bytes_of h @ bs)"
proof -
  let ?n = "sizeof h" and ?s = "outputBufferStart m"
  have m: "length (msg_buffer m) = 65500" "unat ?s = start" "unat (msg_length m) = length bs"
    "start + length bs \<le> 65500" "read_at start (length bs) (msg_buffer m) = bs"
    using assms(1) by (simp_all add: framed_def msg_wf_def message_consts)
  have "?n < 65536" using assms(2) m by linarith
  then have "unat (of_nat ?n :: u16) = ?n" by (simp add: unat_of_nat take_bit_nat_eq_self)
  moreover from this have "of_nat ?n \<le> ?s" using assms(2) m by (simp add: word_le_nat_alt)
  ultimately have s: "unat (?s - of_nat ?n) = start - ?n"
    using m by (simp add: unat_sub)
  have l: "unat (msg_length m + of_nat ?n) = length bs + ?n"
    using m assms(2) u16_add [of "msg_length m" ?n] by simp
  let ?buf = "write_at (start - ?n) (bytes_of h) (msg_buffer m)"
  have "read_at (start - ?n) (?n + length bs) ?buf
      = read_at (start - ?n) ?n ?buf @ read_at start (length bs) ?buf"
    using read_at_append [of "start - ?n" ?n "length bs" ?buf] m assms(2)
    by (simp add: buffer_simps)
  also have "\<dots> = bytes_of h @ bs"
    using m assms(2) by (simp add: buffer_simps)
  finally show ?thesis
    using m assms(2) s l
    by (simp add: framed_def add_header_def Let_def msg_wf_def message_consts buffer_simps
        add.commute)
qed

text \<open>
  With seven bytes of room, \<open>writePaddingAmount\<close> fills the body and its length byte to a multiple of
  eight and puts the number of padding bytes in front.
\<close>

definition padding_of :: "nat \<Rightarrow> nat" where "padding_of n = 8 - n mod 8 - 1"

definition padded :: "byte list \<Rightarrow> byte list" where
  "padded bs = of_nat (padding_of (length bs)) # bs @ replicate (padding_of (length bs)) 0x33"

lemma padding_of_lt: "padding_of n < 8"
  by (simp add: padding_of_def)

lemma padded_dvd: "8 dvd length (padded bs)"
proof -
  have "length (padded bs) = 8 * (length bs div 8 + 1)"
    by (simp only: padded_def padding_of_def list.size length_append length_replicate) presburger
  then show ?thesis by simp
qed

lemma writePaddingAmount_framed:
  assumes "out_writer m" and "fits 7 m"
  shows "\<exists>m'. writePaddingAmount m = Some m' \<and> framed m' 6 (padded (payload m))"
proof -
  let ?n = "padding_of (length (payload m))"
  let ?m = "put_block (replicate ?n 0x33) m"
  have len: "unat (msg_length m) = length (payload m)"
    using assms(1) by (simp add: out_writer_def length_payload)
  have fit: "fits ?n m" using assms(2) padding_of_lt [of "length (payload m)"] by (simp add: fits_def)
  then have w: "writer ?m" and p: "payload ?m = payload m @ replicate ?n 0x33"
    using put_block_writer [of m "replicate ?n 0x33"] assms(1) by (simp_all add: out_writer_def)
  have "out_writer ?m" using w assms(1) by (simp add: out_writer_def put_block_def)
  note f = framed_add_header [OF out_writer_framed [OF this], of "of_nat ?n :: u8"]
  have "writePaddingAmount m = Some (add_header (of_nat ?n :: u8) ?m)"
    using addPaddingBytes_put [OF fit] len by (simp add: writePaddingAmount_def padding_of_def)
  then show ?thesis using f p by (simp add: padded_def)
qed

text \<open>\<open>writeMessageLength\<close> counts blocks of eight bytes behind a four-byte checksum.\<close>

lemma writeMessageLength_framed:
  assumes "framed m start bs" and "2 \<le> start" and "length bs = 4 + 8 * k"
  shows "framed (writeMessageLength m) (start - 2) (bytes_of (of_nat k :: u16) @ bs)"
proof -
  have "c_div (int (unat (msg_length m)) - 4) 8 = int k"
    using assms(1,3) by (simp add: framed_def)
  then have "writeMessageLength m = add_header (of_nat k :: u16) m"
    by (simp add: writeMessageLength_def)
  then show ?thesis using framed_add_header [OF assms(1), of "of_nat k :: u16"] assms(2) by simp
qed

text \<open>Appending within the bounds concatenates payloads.\<close>

lemma append_output_put:
  assumes "writer msg" and "fits (unat (msg_length msg)) m"
  shows "append_output msg m = Some (put_block (payload msg) m)"
  using assms
  by (simp add: append_output_def Let_def put_block_def payload_def length_payload buffer_simps
      writer_def msg_wf_def message_consts fits_def)

lemma out_writer_put_block:
  assumes "out_writer m" and "fits (length bs) m"
  shows "out_writer (put_block bs m)" "payload (put_block bs m) = payload m @ bs"
  using assms put_block_writer [of m bs] by (simp_all add: out_writer_def put_block_def)

end
