(* ===== verification/Xtea.thy ===== *)
theory Xtea
  imports Prelude
begin

text \<open>
  The block cipher of the wire protocol, \<open>Protocol::XTEA_transform\<close> in
  \<^verbatim>\<open>src/server/network/protocol/protocol.cpp\<close>: the two precomputed tables of control sums, the 32
  rounds on a pair of 32-bit words, and the loop that transforms a byte buffer in place, eight bytes
  at a time.  A block outside the buffer is undefined behaviour and is \<open>None\<close>.

  The locale \<open>block_cipher\<close> states what the framing of messages needs of a cipher; the in-place loop
  is inverted there once for any cipher, and XTEA interprets it for every key.
\<close>

section \<open>Key schedule and rounds\<close>

definition delta :: u32 where "delta = 0x61C88647"

text \<open>\<open>newKey[i]\<close> with an index masked to two bits; the key has four words.\<close>

type_synonym xtea_key = "u32 \<times> u32 \<times> u32 \<times> u32"

fun key_at :: "xtea_key \<Rightarrow> u32 \<Rightarrow> u32" where
  "key_at (k0, k1, k2, k3) i =
     (if i = 0 then k0 else if i = 1 then k1 else if i = 2 then k2 else k3)"

fun encrypt_sums :: "nat \<Rightarrow> xtea_key \<Rightarrow> u32 \<Rightarrow> (u32 \<times> u32) list" where
  "encrypt_sums 0 key acc = []"
| "encrypt_sums (Suc n) key acc =
     (let c0 = acc + key_at key (acc AND 3);
          acc' = acc - delta;
          c1 = acc' + key_at key (drop_bit 11 acc' AND 3)
      in (c0, c1) # encrypt_sums n key acc')"

fun decrypt_sums :: "nat \<Rightarrow> xtea_key \<Rightarrow> u32 \<Rightarrow> (u32 \<times> u32) list" where
  "decrypt_sums 0 key acc = []"
| "decrypt_sums (Suc n) key acc =
     (let c0 = acc + key_at key (drop_bit 11 acc AND 3);
          acc' = acc + delta;
          c1 = acc' + key_at key (acc' AND 3)
      in (c0, c1) # decrypt_sums n key acc')"

definition control_sums :: "xtea_key \<Rightarrow> bool \<Rightarrow> (u32 \<times> u32) list" where
  "control_sums key encrypt =
     (if encrypt then encrypt_sums 32 key 0 else decrypt_sums 32 key 0xC6EF3720)"

definition mix :: "u32 \<Rightarrow> u32" where
  "mix v = (push_bit 4 v XOR drop_bit 5 v) + v"

fun encrypt_round :: "u32 \<times> u32 \<Rightarrow> u32 \<times> u32 \<Rightarrow> u32 \<times> u32" where
  "encrypt_round (v0, v1) (c0, c1) =
     (let v0' = v0 + (mix v1 XOR c0); v1' = v1 + (mix v0' XOR c1) in (v0', v1'))"

fun decrypt_round :: "u32 \<times> u32 \<Rightarrow> u32 \<times> u32 \<Rightarrow> u32 \<times> u32" where
  "decrypt_round (v0, v1) (c0, c1) =
     (let v1' = v1 - (mix v0 XOR c0); v0' = v0 - (mix v1' XOR c1) in (v0', v1'))"

text \<open>One block: eight bytes, two little-endian words, all rounds, eight bytes.\<close>

definition xtea_block :: "xtea_key \<Rightarrow> bool \<Rightarrow> byte list \<Rightarrow> byte list" where
  "xtea_block key encrypt block =
     (let vData0 = word_of_bytes (take 4 block);
          vData1 = word_of_bytes (take 4 (drop 4 block));
          (v0, v1) = foldl (if encrypt then encrypt_round else decrypt_round)
                       (vData0, vData1) (control_sums key encrypt)
      in bytes_of v0 @ bytes_of v1)"

section \<open>The loop over a buffer\<close>

text \<open>\<open>off\<close> is the offset of the \<^verbatim>\<open>buffer\<close> pointer in the message's array.\<close>

function transform_blocks ::
  "(byte list \<Rightarrow> byte list) \<Rightarrow> nat \<Rightarrow> nat \<Rightarrow> nat \<Rightarrow> byte list \<Rightarrow> byte list option" where
  "transform_blocks f off readPos messageLength buf =
     (if readPos < messageLength then
        (if off + readPos + 8 \<le> length buf then
           transform_blocks f off (readPos + 8) messageLength
             (write_at (off + readPos) (f (read_at (off + readPos) 8 buf)) buf)
         else None)
      else Some buf)"
  by pat_completeness auto
termination
  by (relation "measure (\<lambda>(f, off, readPos, messageLength, buf). messageLength - readPos)") auto

declare transform_blocks.simps [simp del]

definition XTEA_transform ::
  "xtea_key \<Rightarrow> nat \<Rightarrow> nat \<Rightarrow> bool \<Rightarrow> byte list \<Rightarrow> byte list option" where
  "XTEA_transform key off messageLength encrypt buf =
     transform_blocks (xtea_block key encrypt) off 0 messageLength buf"

section \<open>Block ciphers in place\<close>

fun map_blocks :: "(byte list \<Rightarrow> byte list) \<Rightarrow> nat \<Rightarrow> byte list \<Rightarrow> byte list" where
  "map_blocks f 0 xs = []"
| "map_blocks f (Suc n) xs = f (take 8 xs) @ map_blocks f n (drop 8 xs)"

lemma length_map_blocks:
  "(\<And>b. length b = 8 \<Longrightarrow> length (f b) = 8) \<Longrightarrow> length xs = 8 * n \<Longrightarrow>
   length (map_blocks f n xs) = 8 * n"
  by (induction n arbitrary: xs) auto

lemma map_blocks_inverse:
  assumes "\<And>b. length b = 8 \<Longrightarrow> length (f b) = 8" and "\<And>b. length b = 8 \<Longrightarrow> g (f b) = b"
  shows "length xs = 8 * n \<Longrightarrow> map_blocks g n (map_blocks f n xs) = xs"
  by (induction n arbitrary: xs) (auto simp: assms)

text \<open>On a whole number of blocks the loop replaces the region by the block-wise image.\<close>

lemma transform_blocks_eq:
  assumes "\<And>b. length b = 8 \<Longrightarrow> length (f b) = 8"
    and "messageLength = readPos + 8 * n" and "off + messageLength \<le> length buf"
  shows "transform_blocks f off readPos messageLength buf =
    Some (write_at (off + readPos) (map_blocks f n (read_at (off + readPos) (8 * n) buf)) buf)"
  using assms(2,3)
proof (induction n arbitrary: readPos buf)
  case 0
  then show ?case
    by (subst transform_blocks.simps) (simp add: write_at_def read_at_def)
next
  case (Suc n)
  let ?p = "off + readPos"
  let ?b = "f (read_at ?p 8 buf)"
  let ?buf = "write_at ?p ?b buf"
  have b: "length ?b = 8" using Suc.prems by (simp add: assms(1) buffer_simps)
  have lb: "length ?buf = length buf" using b Suc.prems by (simp add: buffer_simps)
  have "transform_blocks f off readPos messageLength buf
      = transform_blocks f off (readPos + 8) messageLength ?buf"
    using Suc.prems by (subst transform_blocks.simps) simp
  also have "\<dots> = Some (write_at (?p + 8) (map_blocks f n (read_at (?p + 8) (8 * n) ?buf)) ?buf)"
    using Suc.IH [of "readPos + 8" ?buf] Suc.prems lb by (simp add: add.assoc)
  also have "read_at (?p + 8) (8 * n) ?buf = read_at (?p + 8) (8 * n) buf"
    using b Suc.prems by (simp add: buffer_simps)
  also have "write_at (?p + 8) (map_blocks f n (read_at (?p + 8) (8 * n) buf)) ?buf
      = write_at ?p (?b @ map_blocks f n (read_at (?p + 8) (8 * n) buf)) buf"
    using b Suc.prems by (simp add: write_at_def ac_simps)
  also have "?b @ map_blocks f n (read_at (?p + 8) (8 * n) buf)
      = map_blocks f (Suc n) (read_at ?p (8 * Suc n) buf)"
    by (simp add: read_at_def drop_take add.commute)
  finally show ?case .
qed

locale block_cipher =
  fixes enc dec :: "byte list \<Rightarrow> byte list"
  assumes length_enc: "length b = 8 \<Longrightarrow> length (enc b) = 8"
    and length_dec: "length b = 8 \<Longrightarrow> length (dec b) = 8"
    and dec_enc: "length b = 8 \<Longrightarrow> dec (enc b) = b"
    and enc_dec: "length b = 8 \<Longrightarrow> enc (dec b) = b"
begin

lemma transform_enc:
  assumes "off + 8 * n \<le> length buf"
  shows "transform_blocks enc off 0 (8 * n) buf =
    Some (write_at off (map_blocks enc n (read_at off (8 * n) buf)) buf)"
  using transform_blocks_eq [of enc "8 * n" 0 n off buf] assms length_enc by simp

lemma length_encrypted:
  "length xs = 8 * n \<Longrightarrow> length (map_blocks enc n xs) = 8 * n"
  using length_enc by (rule length_map_blocks)

lemma decrypt_encrypted: "length xs = 8 * n \<Longrightarrow> map_blocks dec n (map_blocks enc n xs) = xs"
  using length_enc dec_enc by (rule map_blocks_inverse)

lemma transform_roundtrip:
  assumes "off + 8 * n \<le> length buf"
  shows "\<exists>buf'. transform_blocks enc off 0 (8 * n) buf = Some buf' \<and>
    transform_blocks dec off 0 (8 * n) buf' = Some buf"
proof -
  let ?x = "read_at off (8 * n) buf"
  let ?buf = "write_at off (map_blocks enc n ?x) buf"
  have len: "length (map_blocks enc n ?x) = 8 * n"
    using assms by (simp add: length_encrypted buffer_simps)
  have "transform_blocks dec off 0 (8 * n) ?buf
      = Some (write_at off (map_blocks dec n (read_at off (8 * n) ?buf)) ?buf)"
    using transform_blocks_eq [of dec "8 * n" 0 n off ?buf] assms length_dec len
    by (simp add: buffer_simps)
  moreover have "read_at off (8 * n) ?buf = map_blocks enc n ?x"
    using assms len by (simp add: buffer_simps)
  ultimately have "transform_blocks dec off 0 (8 * n) ?buf = Some buf"
    using assms len by (simp add: decrypt_encrypted buffer_simps)
  then show ?thesis using transform_enc [OF assms] by blast
qed

end

sublocale block_cipher \<subseteq> inverse: block_cipher dec enc
  by unfold_locales (simp_all add: length_enc length_dec dec_enc enc_dec)

section \<open>XTEA is a block cipher\<close>

lemma decrypt_encrypt_round: "decrypt_round (encrypt_round v c) (prod.swap c) = v"
  by (cases v; cases c) (simp add: Let_def)

lemma encrypt_decrypt_round: "encrypt_round (decrypt_round v c) (prod.swap c) = v"
  by (cases v; cases c) (simp add: Let_def)

text \<open>The decryption table is the encryption table backwards, each pair swapped.\<close>

definition decrypt_pair :: "xtea_key \<Rightarrow> u32 \<Rightarrow> u32 \<times> u32" where
  "decrypt_pair key u =
     (u + key_at key (drop_bit 11 u AND 3), u + delta + key_at key ((u + delta) AND 3))"

lemma decrypt_sums_Suc:
  "decrypt_sums (Suc n) key s = decrypt_pair key s # decrypt_sums n key (s + delta)"
  by (simp add: decrypt_pair_def Let_def)

lemma decrypt_sums_snoc:
  "decrypt_sums (Suc n) key s = decrypt_sums n key s @ [decrypt_pair key (s + of_nat n * delta)]"
proof (induction n arbitrary: s)
  case 0
  then show ?case by (simp only: decrypt_sums_Suc) simp
next
  case (Suc n)
  have "(s + delta) + of_nat n * delta = s + of_nat (Suc n) * delta"
    by (simp add: algebra_simps)
  then show ?case
    using Suc.IH [of "s + delta"] decrypt_sums_Suc [of n key s] decrypt_sums_Suc [of "Suc n" key s]
    by (simp only: append_Cons)
qed

lemma decrypt_sums_rev:
  "decrypt_sums n key (s - of_nat n * delta) = rev (map prod.swap (encrypt_sums n key s))"
proof (induction n arbitrary: s)
  case 0
  then show ?case by simp
next
  case (Suc n)
  have eq: "s - of_nat (Suc n) * delta = (s - delta) - of_nat n * delta"
    by (simp add: algebra_simps)
  have "decrypt_sums (Suc n) key (s - of_nat (Suc n) * delta)
      = decrypt_sums n key ((s - delta) - of_nat n * delta) @ [decrypt_pair key (s - delta)]"
    by (simp only: eq decrypt_sums_snoc diff_add_cancel)
  then show ?case
    by (simp only: Suc.IH) (simp add: Let_def decrypt_pair_def)
qed

lemma control_sums_rev: "control_sums key False = rev (map prod.swap (control_sums key True))"
proof -
  have "0 - of_nat 32 * delta = 0xC6EF3720" by (simp add: delta_def)
  then show ?thesis using decrypt_sums_rev [of 32 key 0] by (simp only: control_sums_def if_True if_False)
qed

lemma foldl_inverse:
  assumes "\<And>v c. g (f v c) (prod.swap c) = v"
  shows "foldl g (foldl f v cs) (rev (map prod.swap cs)) = v"
  by (induction cs arbitrary: v) (simp_all add: assms)

lemma xtea_rounds_inverse:
  "foldl decrypt_round (foldl encrypt_round v (control_sums key True)) (control_sums key False) = v"
  "foldl encrypt_round (foldl decrypt_round v (control_sums key False)) (control_sums key True) = v"
proof -
  show "foldl decrypt_round (foldl encrypt_round v (control_sums key True)) (control_sums key False) = v"
    by (simp only: control_sums_rev) (rule foldl_inverse, rule decrypt_encrypt_round)
  have "control_sums key True = rev (map prod.swap (control_sums key False))"
    by (simp add: control_sums_rev rev_map comp_def)
  then show "foldl encrypt_round (foldl decrypt_round v (control_sums key False)) (control_sums key True) = v"
    by (simp only:) (rule foldl_inverse, rule encrypt_decrypt_round)
qed

lemma two_words:
  assumes "length b = 8"
  shows "bytes_of (word_of_bytes (take 4 b) :: u32) @ bytes_of (word_of_bytes (take 4 (drop 4 b)) :: u32) = b"
  using assms by (simp add: codec_simps)

lemma xtea_block_inverse:
  assumes "length b = 8"
  shows "xtea_block key (\<not> e) (xtea_block key e b) = b"
proof -
  obtain v0 v1 where v: "foldl (if e then encrypt_round else decrypt_round)
      (word_of_bytes (take 4 b), word_of_bytes (take 4 (drop 4 b))) (control_sums key e) = (v0, v1)"
    by fastforce
  have "foldl (if \<not> e then encrypt_round else decrypt_round) (v0, v1) (control_sums key (\<not> e))
      = (word_of_bytes (take 4 b), word_of_bytes (take 4 (drop 4 b)))"
    by (cases e) (simp_all add: v [symmetric] xtea_rounds_inverse)
  moreover have "xtea_block key e b = bytes_of v0 @ bytes_of v1"
    by (simp add: xtea_block_def v)
  ultimately have "xtea_block key (\<not> e) (xtea_block key e b)
      = bytes_of (word_of_bytes (take 4 b) :: u32) @ bytes_of (word_of_bytes (take 4 (drop 4 b)) :: u32)"
    by (simp add: xtea_block_def codec_simps)
  then show ?thesis by (simp only: two_words [OF assms])
qed

lemma length_xtea_block: "length (xtea_block key e b) = 8"
  by (simp add: xtea_block_def split: prod.splits)

interpretation xtea: block_cipher "xtea_block key True" "xtea_block key False" for key
  using xtea_block_inverse [where e = True] xtea_block_inverse [where e = False]
  by unfold_locales (simp_all add: length_xtea_block)

section \<open>Properties\<close>

text \<open>C6: Encrypting whole blocks of a buffer in place and decrypting them with the same key gives the
  buffer back, in either order, and never leaves the buffer.\<close>

theorem XTEA_transform_inverse:
  assumes "off + 8 * n \<le> length buf"
  shows "\<exists>buf'. XTEA_transform key off (8 * n) encrypt buf = Some buf' \<and>
    XTEA_transform key off (8 * n) (\<not> encrypt) buf' = Some buf"
  using xtea.transform_roundtrip [OF assms, of key] xtea.inverse.transform_roundtrip [OF assms, of key]
  by (cases encrypt) (simp_all add: XTEA_transform_def)

theorem XTEA_transform_inverse_witness:
  "\<exists>buf'. XTEA_transform (1, 2, 3, 4) 2 8 True [9, 9, 1, 2, 3, 4, 5, 6, 7, 8] = Some buf' \<and>
    XTEA_transform (1, 2, 3, 4) 2 8 False buf' = Some [9, 9, 1, 2, 3, 4, 5, 6, 7, 8]"
  using XTEA_transform_inverse [of 2 1 "[9, 9, 1, 2, 3, 4, 5, 6, 7, 8]" "(1, 2, 3, 4)" True] by simp

end
