(* ===== verification/Checksum.thy ===== *)
theory Checksum
  imports Network_Message
begin

text \<open>
  \<open>adlerChecksum\<close> of \<^verbatim>\<open>src/utils/tools.cpp\<close>.  The code keeps two unsigned 32-bit sums and reduces
  them modulo 65521 once every 5552 bytes; the lemmas show that the sums never wrap in between, so
  that the result is the Adler-32 of the data, reduced at every byte.
\<close>

section \<open>The code\<close>

definition adler :: u32 where "adler = 65521"

fun adler_block :: "byte list \<Rightarrow> u32 \<times> u32 \<Rightarrow> u32 \<times> u32" where
  "adler_block [] (a, b) = (a, b)"
| "adler_block (d # data) (a, b) = (let a' = a + ucast d; b' = b + a' in adler_block data (a', b'))"

function adler_loop :: "byte list \<Rightarrow> u32 \<times> u32 \<Rightarrow> u32 \<times> u32" where
  "adler_loop data (a, b) =
     (if length data > 0 then
        let tmp = (if length data > 5552 then 5552 else length data);
            (a', b') = adler_block (take tmp data) (a, b)
        in adler_loop (drop tmp data) (a' mod adler, b' mod adler)
      else (a, b))"
  by pat_completeness auto
termination
  by (relation "measure (\<lambda>(data, s). length data)") (auto split: if_splits)

declare adler_loop.simps [simp del]

definition adlerChecksum :: "byte list \<Rightarrow> u32" where
  "adlerChecksum data =
     (if length data > NETWORKMESSAGE_MAXSIZE then 0
      else let (a, b) = adler_loop data (1, 0) in push_bit 16 b OR a)"

section \<open>The reference: Adler-32 over the numbers\<close>

fun adler_ref :: "byte list \<Rightarrow> nat \<times> nat \<Rightarrow> nat \<times> nat" where
  "adler_ref [] (a, b) = (a, b)"
| "adler_ref (d # data) (a, b) =
     (let a' = (a + unat d) mod 65521; b' = (b + a') mod 65521 in adler_ref data (a', b'))"

text \<open>The same sums without any reduction.\<close>

fun adler_sums :: "byte list \<Rightarrow> nat \<times> nat \<Rightarrow> nat \<times> nat" where
  "adler_sums [] (a, b) = (a, b)"
| "adler_sums (d # data) (a, b) = adler_sums data (a + unat d, b + (a + unat d))"

abbreviation mod_pair :: "nat \<times> nat \<Rightarrow> nat \<times> nat" where
  "mod_pair \<equiv> map_prod (\<lambda>x. x mod 65521) (\<lambda>x. x mod 65521)"

lemma adler_sums_append: "adler_sums (xs @ ys) s = adler_sums ys (adler_sums xs s)"
  by (induction xs s rule: adler_sums.induct) simp_all

lemma adler_sums_mod_cong:
  "mod_pair (a, b) = mod_pair (c, d) \<Longrightarrow> mod_pair (adler_sums xs (a, b)) = mod_pair (adler_sums xs (c, d))"
proof (induction xs arbitrary: a b c d)
  case Nil
  then show ?case by simp
next
  case (Cons x xs)
  then have ac: "a mod 65521 = c mod 65521" and bd: "b mod 65521 = d mod 65521" by simp_all
  have "(a + unat x) mod 65521 = (c + unat x) mod 65521"
    using ac by (rule mod_add_cong) (rule refl)
  moreover from bd this have "(b + (a + unat x)) mod 65521 = (d + (c + unat x)) mod 65521"
    by (rule mod_add_cong)
  ultimately show ?case
    by (simp only: adler_sums.simps) (rule Cons.IH, simp only: map_prod_simp)
qed

lemma adler_ref_sums: "a < 65521 \<Longrightarrow> b < 65521 \<Longrightarrow> adler_ref xs (a, b) = mod_pair (adler_sums xs (a, b))"
proof (induction xs arbitrary: a b)
  case Nil
  then show ?case by simp
next
  case (Cons x xs)
  let ?a = "(a + unat x) mod 65521"
  have "adler_ref (x # xs) (a, b) = mod_pair (adler_sums xs (?a, (b + ?a) mod 65521))"
    by (simp add: Cons.IH Let_def)
  also have "\<dots> = mod_pair (adler_sums xs (a + unat x, b + (a + unat x)))"
    by (rule adler_sums_mod_cong) (simp add: mod_simps)
  finally show ?case by simp
qed

section \<open>No overflow inside a block\<close>

lemma adler_sums_bound:
  assumes "adler_sums xs (a, b) = (a', b')"
  shows "a' \<le> a + 255 * length xs"
    and "b' \<le> b + length xs * a + 255 * (length xs * Suc (length xs) div 2)"
proof -
  have "a' \<le> a + 255 * length xs \<and> 2 * b' \<le> 2 * b + 2 * (length xs * a) + 255 * (length xs * Suc (length xs))"
    using assms
  proof (induction xs arbitrary: a b)
    case Nil
    then show ?case by simp
  next
    case (Cons x xs)
    have x: "unat x \<le> 255" using unat_u8_bound [of x] by simp
    have m: "length xs * unat x \<le> 255 * length xs" using x by (simp add: mult.commute)
    from Cons.IH [of "a + unat x" "b + (a + unat x)"] Cons.prems
    have "a' \<le> a + unat x + 255 * length xs"
      and "2 * b' \<le> 2 * (b + (a + unat x)) + 2 * (length xs * (a + unat x)) + 255 * (length xs * Suc (length xs))"
      by simp_all
    moreover have "length xs * (a + unat x) \<le> length xs * a + 255 * length xs"
      using m by (simp add: distrib_left)
    ultimately show ?case using x by simp
  qed
  moreover obtain k where "length xs * Suc (length xs) = 2 * k"
    by (metis dvd_def even_Suc even_mult_iff)
  ultimately show "a' \<le> a + 255 * length xs"
    and "b' \<le> b + length xs * a + 255 * (length xs * Suc (length xs) div 2)"
    by auto
qed

lemma adler_block_sums:
  assumes "adler_sums xs (unat a, unat b) = (a', b')" and "a' < 2 ^ 32" and "b' < 2 ^ 32"
  shows "adler_block xs (a, b) = (of_nat a', of_nat b')"
  using assms
proof (induction xs arbitrary: a b)
  case Nil
  then show ?case by auto
next
  case (Cons x xs)
  have mono: "fst s \<le> fst (adler_sums ys s) \<and> snd s \<le> snd (adler_sums ys s)" for ys s
    by (induction ys s rule: adler_sums.induct) auto
  from Cons.prems have s: "adler_sums xs (unat a + unat x, unat b + (unat a + unat x)) = (a', b')"
    by simp
  from mono [of "(unat a + unat x, unat b + (unat a + unat x))" xs] s
  have "unat a + unat x \<le> a'" "unat b + (unat a + unat x) \<le> b'" by simp_all
  then have "unat (a + ucast x) = unat a + unat x"
    and "unat (b + (a + ucast x)) = unat b + (unat a + unat x)"
    using Cons.prems(2,3)
    by (simp_all add: unat_add_lem [THEN iffD1] unat_ucast_widen)
  with s Cons.prems show ?case by (simp add: Cons.IH Let_def)
qed

text \<open>5552 bytes from reduced sums stay below \<open>2 ^ 32\<close>: \<open>65520 * 5553 + 255 * 5552 * 5553 / 2\<close>.\<close>

lemma block_no_overflow:
  assumes "length xs \<le> 5552" and "a < 65521" and "b < 65521" and "adler_sums xs (a, b) = (a', b')"
  shows "a' < 2 ^ 32" and "b' < 2 ^ 32"
proof -
  have "length xs * Suc (length xs) \<le> 5552 * 5553"
    using assms(1) by (intro mult_le_mono) auto
  then have "length xs * Suc (length xs) div 2 \<le> 5552 * 5553 div 2"
    by (rule div_le_mono)
  moreover have "length xs * a \<le> 5552 * 65520"
    using assms(1,2) by (intro mult_le_mono) auto
  ultimately show "a' < 2 ^ 32" and "b' < 2 ^ 32"
    using adler_sums_bound [OF assms(4)] assms(1-3) by simp_all
qed

lemma adler_loop_sums:
  assumes "unat a < 65521" and "unat b < 65521"
  shows "map_prod unat unat (adler_loop data (a, b)) = mod_pair (adler_sums data (unat a, unat b))"
  using assms
proof (induction data "(a, b)" arbitrary: a b rule: adler_loop.induct)
  case (1 data a b)
  show ?case
  proof (cases "data = []")
    case True
    with 1(2,3) show ?thesis by (simp add: adler_loop.simps)
  next
    case False
    define tmp where "tmp = (if length data > 5552 then 5552 else length data)"
    obtain a' b' where s: "adler_sums (take tmp data) (unat a, unat b) = (a', b')" by fastforce
    have "length (take tmp data) \<le> 5552" by (simp add: tmp_def)
    note bound = block_no_overflow [OF this 1(2,3) s]
    have blk: "adler_block (take tmp data) (a, b) = (of_nat a', of_nat b')"
      by (rule adler_block_sums [OF s bound])
    have u: "unat (of_nat a' mod adler) = a' mod 65521" "unat (of_nat b' mod adler) = b' mod 65521"
      using bound by (simp_all add: adler_def unat_mod unat_of_nat take_bit_nat_eq_self)
    have "map_prod unat unat (adler_loop data (a, b))
        = map_prod unat unat (adler_loop (drop tmp data) (of_nat a' mod adler, of_nat b' mod adler))"
      using False blk by (subst adler_loop.simps) (simp add: tmp_def)
    also have "\<dots> = mod_pair (adler_sums (drop tmp data) (a' mod 65521, b' mod 65521))"
      using 1(1) [of tmp "(of_nat a', of_nat b')" "of_nat a'" "of_nat b'"] False blk u by (simp add: tmp_def)
    also have "\<dots> = mod_pair (adler_sums (drop tmp data) (a', b'))"
      by (rule adler_sums_mod_cong) simp
    also have "\<dots> = mod_pair (adler_sums data (unat a, unat b))"
      by (simp add: s [symmetric] adler_sums_append [symmetric])
    finally show ?thesis .
  qed
qed

lemma adler_ref_reduced: "adler_ref data (1, 0) = (a, b) \<Longrightarrow> a < 65521 \<and> b < 65521"
  using adler_ref_sums [of 1 0 data] by (cases "adler_sums data (1, 0)") auto

lemma adler_loop_ref:
  "adler_loop data (1, 0) = (a, b) \<Longrightarrow> adler_ref data (1, 0) = (unat a, unat b)"
  using adler_loop_sums [of 1 0 data] adler_ref_sums [of 1 0 data] by simp

lemma adlerChecksum_ref:
  assumes "length data \<le> NETWORKMESSAGE_MAXSIZE" and "adler_ref data (1, 0) = (a, b)"
  shows "unat (adlerChecksum data) = 65536 * b + a"
proof -
  obtain a' b' where ab: "adler_loop data (1, 0) = (a', b')" by fastforce
  then have eq: "a = unat a'" "b = unat b'" using adler_loop_ref [OF ab] assms(2) by simp_all
  have lt: "a < 65521" "b < 65521" using adler_ref_reduced [OF assms(2)] by simp_all
  have dis: "push_bit 16 b' OR a' = push_bit 16 b' + a'"
  proof (rule disjunctive_add [symmetric])
    fix n
    have "\<not> bit a' n" if "16 \<le> n"
    proof -
      have "take_bit 16 a' = a'"
        using lt(1) eq(1) by (simp add: word_unat_eq_iff unsigned_take_bit_eq take_bit_nat_eq_self)
      then show ?thesis using that by (metis bit_take_bit_iff not_le)
    qed
    then show "\<not> bit (push_bit 16 b') n \<or> \<not> bit a' n" by (cases "16 \<le> n") (auto simp: bit_simps)
  qed
  have "unat (push_bit 16 b') = 65536 * b"
    using lt eq by (simp add: push_bit_eq_mult unat_word_ariths mult.commute)
  moreover have "unat (push_bit 16 b' + a') = unat (push_bit 16 b') + unat a'"
    using lt eq calculation by (intro unat_add_lem [THEN iffD1]) simp
  ultimately show ?thesis
    using assms(1) ab eq dis by (simp add: adlerChecksum_def)
qed

section \<open>Properties\<close>

text \<open>C7: The checksum with deferred reductions and 32-bit sums is the textbook Adler-32, whose two sums
  are reduced after every byte: no intermediate sum overflows.\<close>

theorem adlerChecksum_is_adler32:
  assumes "length data \<le> NETWORKMESSAGE_MAXSIZE"
  shows "unat (adlerChecksum data) = 65536 * snd (adler_ref data (1, 0)) + fst (adler_ref data (1, 0))"
  using adlerChecksum_ref [OF assms, of "fst (adler_ref data (1, 0))"] by simp

theorem adlerChecksum_is_adler32_witness:
  "unat (adlerChecksum [1, 2, 3]) = 65536 * snd (adler_ref [1, 2, 3] (1, 0)) + fst (adler_ref [1, 2, 3] (1, 0))"
  using adlerChecksum_is_adler32 [of "[1, 2, 3]"] by (simp add: NETWORKMESSAGE_MAXSIZE_def)

end
