(* ===== verification/Protocol.thy ===== *)
theory Protocol
  imports Output_Message Xtea Checksum
begin

text \<open>
  \<^verbatim>\<open>src/server/network/protocol/protocol.hpp\<close> and \<^verbatim>\<open>protocol.cpp\<close>: the state of a protocol
  object and the operations that frame, encrypt, check and buffer messages, with
  \<open>ProtocolGame::writeToOutputBuffer\<close>.  zlib's \<^verbatim>\<open>deflate\<close> is the parameter \<open>zlib\<close> (\<open>None\<close>: the stream
  could not be set up; otherwise a function that returns the compressed bytes, or \<open>None\<close> for an error
  code); the RSA decryption of a 128-byte block is the parameter \<open>rsa\<close>.  Sending on the connection and
  handing a message to the dispatcher are results: the list of messages sent, the message dispatched.

  Results: what \<open>onSendMessage\<close> puts on the wire, byte for byte; that \<open>onRecvMessage\<close> takes it back to
  the payload; that a replayed or altered packet is dropped; that the output buffer never overflows and
  loses or reorders nothing.
\<close>

section \<open>State\<close>

datatype ChecksumMethods_t =
  CHECKSUM_METHOD_NONE | CHECKSUM_METHOD_ADLER32 | CHECKSUM_METHOD_SEQUENCE

record Protocol =
  xteaKey :: xtea_key
  serverSequenceNumber :: u32
  clientSequenceNumber :: u32
  checksumMethod :: ChecksumMethods_t
  encryptionEnabled :: bool
  rawMessages :: bool
  outputBuffer :: "OutputMessage option"

definition new_protocol :: Protocol where
  "new_protocol = \<lparr>xteaKey = (0, 0, 0, 0), serverSequenceNumber = 0, clientSequenceNumber = 0,
     checksumMethod = CHECKSUM_METHOD_NONE, encryptionEnabled = False, rawMessages = False,
     outputBuffer = None\<rparr>"

definition enableXTEAEncryption :: "Protocol \<Rightarrow> Protocol" where
  "enableXTEAEncryption p = p\<lparr>encryptionEnabled := True\<rparr>"

definition setXTEAKey :: "xtea_key \<Rightarrow> Protocol \<Rightarrow> Protocol" where
  "setXTEAKey k p = p\<lparr>xteaKey := k\<rparr>"

definition setChecksumMethod :: "ChecksumMethods_t \<Rightarrow> Protocol \<Rightarrow> Protocol" where
  "setChecksumMethod c p = p\<lparr>checksumMethod := c\<rparr>"

definition setRawMessages :: "bool \<Rightarrow> Protocol \<Rightarrow> Protocol" where
  "setRawMessages b p = p\<lparr>rawMessages := b\<rparr>"

section \<open>Encryption and compression\<close>

type_synonym zlib = "(byte list \<Rightarrow> byte list option) option"

definition XTEA_encrypt :: "Protocol \<Rightarrow> OutputMessage \<Rightarrow> OutputMessage option" where
  "XTEA_encrypt p m =
     (let paddingBytes = unat (msg_length m) mod 8 in
      case (if paddingBytes \<noteq> 0 then addPaddingBytes (8 - paddingBytes) m else Some m) of
        None \<Rightarrow> None
      | Some m1 \<Rightarrow>
          (case XTEA_transform (xteaKey p) (unat (outputBufferStart m1)) (unat (msg_length m1)) True
                  (msg_buffer m1) of
             None \<Rightarrow> None
           | Some buf \<Rightarrow> Some (m1\<lparr>msg_buffer := buf\<rparr>)))"

definition XTEA_decrypt :: "Protocol \<Rightarrow> NetworkMessage \<Rightarrow> (bool \<times> NetworkMessage) option" where
  "XTEA_decrypt p msg =
     (let msgLength = msg_length msg - (if checksumMethod p = CHECKSUM_METHOD_NONE then 2 else 6) in
      if unat msgLength mod 8 \<noteq> 0 then Some (False, msg)
      else
        case XTEA_transform (xteaKey p) (unat (msg_position msg)) (unat msgLength) False (msg_buffer msg) of
          None \<Rightarrow> None
        | Some buf \<Rightarrow>
            let (paddingSize, msg1) = getByte (msg\<lparr>msg_buffer := buf\<rparr>);
                innerLength = msgLength - ucast paddingSize in
            if unat innerLength + unat paddingSize > unat msgLength then Some (False, msg1)
            else Some (True, setLength (msgLength - ucast paddingSize) msg1))"

definition compression :: "zlib \<Rightarrow> Protocol \<Rightarrow> OutputMessage \<Rightarrow> (bool \<times> OutputMessage) option" where
  "compression zlib p m =
     (if checksumMethod p \<noteq> CHECKSUM_METHOD_SEQUENCE then Some (False, m)
      else case zlib of
        None \<Rightarrow> Some (False, m)
      | Some deflate \<Rightarrow>
          let outputMessageSize = unat (msg_length m) in
          if outputMessageSize > NETWORKMESSAGE_MAXSIZE then Some (False, m)
          else if unat (outputBufferStart m) + outputMessageSize > NETWORKMESSAGE_MAXSIZE then None
          else
            case deflate (output_bytes m) of
              None \<Rightarrow> Some (False, m)
            | Some out \<Rightarrow>
                if length out = 0 then Some (False, m)
                else Some (True, addBytes (Some out) (reset m)))"

definition RSA_decrypt :: "(byte list \<Rightarrow> byte list) \<Rightarrow> NetworkMessage \<Rightarrow> bool \<times> NetworkMessage" where
  "RSA_decrypt rsa msg =
     (if int (unat (msg_length msg)) - int (unat (msg_position msg)) < 128 then (False, msg)
      else
        let p = unat (msg_position msg);
            buf = write_at p (rsa (read_at p 128 (msg_buffer msg))) (msg_buffer msg);
            (b, msg1) = getByte (msg\<lparr>msg_buffer := buf\<rparr>)
        in (b = 0, msg1))"

section \<open>Sending\<close>

text \<open>Both sequence counters wrap from \<open>0x7FFFFFFF\<close> to zero after use.\<close>

definition wrap_sequence :: "u32 \<Rightarrow> u32" where
  "wrap_sequence s = (if s \<ge> 0x7FFFFFFF then 0 else s)"

definition onSendMessage :: "zlib \<Rightarrow> Protocol \<Rightarrow> OutputMessage \<Rightarrow> (Protocol \<times> OutputMessage) option" where
  "onSendMessage zlib p m =
     (if rawMessages p then Some (p, m)
      else
        case (if unat (msg_length m) \<ge> 128 then compression zlib p m else Some (False, m)) of
          None \<Rightarrow> None
        | Some (compressed, m1) \<Rightarrow>
            let sendMessageChecksum = (if compressed then push_bit 31 1 else 0 :: u32) in
            if \<not> encryptionEnabled p then Some (p, writeMessageLength m1)
            else
              case writePaddingAmount m1 of
                None \<Rightarrow> None
              | Some m2 \<Rightarrow>
                  (case XTEA_encrypt p m2 of
                     None \<Rightarrow> None
                   | Some m3 \<Rightarrow>
                       (case checksumMethod p of
                          CHECKSUM_METHOD_NONE \<Rightarrow> Some (p, addCryptoHeader False 0 m3)
                        | CHECKSUM_METHOD_ADLER32 \<Rightarrow>
                            Some (p, addCryptoHeader True (adlerChecksum (output_bytes m3)) m3)
                        | CHECKSUM_METHOD_SEQUENCE \<Rightarrow>
                            let s = serverSequenceNumber p + 1 in
                            Some (p\<lparr>serverSequenceNumber := wrap_sequence s\<rparr>,
                                  addCryptoHeader True (sendMessageChecksum OR s) m3))))"

section \<open>Receiving\<close>

text \<open>
  The boolean is the return value; the message returned with \<open>True\<close> is the one dispatched to
  \<open>parsePacket\<close>.
\<close>

definition sendRecvMessageCallback ::
  "Protocol \<Rightarrow> NetworkMessage \<Rightarrow> (bool \<times> NetworkMessage) option" where
  "sendRecvMessageCallback p msg =
     (if encryptionEnabled p then XTEA_decrypt p msg else Some (True, msg))"

definition onRecvMessage ::
  "Protocol \<Rightarrow> NetworkMessage \<Rightarrow> (bool \<times> Protocol \<times> NetworkMessage) option" where
  "onRecvMessage p msg =
     (if checksumMethod p = CHECKSUM_METHOD_NONE then
        map_option (\<lambda>(ok, m). (ok, p, m)) (sendRecvMessageCallback p msg)
      else
        case get msg of
          None \<Rightarrow> None
        | Some (recvChecksum :: u32, msg1) \<Rightarrow>
            if checksumMethod p = CHECKSUM_METHOD_SEQUENCE then
              (if recvChecksum = 0 then Some (False, p, msg1)
               else
                 let checksum = clientSequenceNumber p + 1;
                     p1 = p\<lparr>clientSequenceNumber := wrap_sequence checksum\<rparr> in
                 if recvChecksum \<noteq> checksum then Some (False, p1, msg1)
                 else map_option (\<lambda>(ok, m). (ok, p1, m)) (sendRecvMessageCallback p1 msg1))
            else
              let len = int (unat (msg_length msg1)) - int (unat (msg_position msg1));
                  checksum = (if len > 0
                    then adlerChecksum (read_at (unat (msg_position msg1)) (nat len) (msg_buffer msg1))
                    else 0) in
              if recvChecksum \<noteq> checksum then Some (False, p, msg1)
              else map_option (\<lambda>(ok, m). (ok, p, m)) (sendRecvMessageCallback p msg1))"

section \<open>The output buffer\<close>

text \<open>\<open>alive\<close> tells whether the weak pointer to the connection can be locked.\<close>

definition send :: "bool \<Rightarrow> OutputMessage \<Rightarrow> OutputMessage list" where
  "send alive m = (if alive then [m] else [])"

text \<open>Returns the buffer to write to, and the messages sent to make room.\<close>

definition getOutputBuffer ::
  "bool \<Rightarrow> nat \<Rightarrow> Protocol \<Rightarrow> OutputMessage \<times> Protocol \<times> OutputMessage list" where
  "getOutputBuffer alive sz p =
     (case outputBuffer p of
        None \<Rightarrow> (new_output_message, p\<lparr>outputBuffer := Some new_output_message\<rparr>, [])
      | Some b \<Rightarrow>
          if unat (msg_length b) + sz > MAX_PROTOCOL_BODY_LENGTH then
            (new_output_message, p\<lparr>outputBuffer := Some new_output_message\<rparr>, send alive b)
          else (b, p, []))"

definition writeToOutputBuffer ::
  "bool \<Rightarrow> 'z NetworkMessage_scheme \<Rightarrow> Protocol \<Rightarrow> (Protocol \<times> OutputMessage list) option" where
  "writeToOutputBuffer alive msg p =
     (case getOutputBuffer alive (unat (getLength msg)) p of
        (b, p1, sent) \<Rightarrow>
          (case append_output msg b of
             None \<Rightarrow> None
           | Some b1 \<Rightarrow> Some (p1\<lparr>outputBuffer := Some b1\<rparr>, sent)))"

section \<open>The bytes on the wire\<close>

lemma XTEA_encrypt_framed:
  assumes "framed m start bs" and "length bs = 8 * k"
  shows "\<exists>m'. XTEA_encrypt p m = Some m' \<and> framed m' start (map_blocks (xtea_block (xteaKey p) True) k bs)"
proof -
  let ?e = "map_blocks (xtea_block (xteaKey p) True) k bs"
  have m: "length (msg_buffer m) = 65500" "unat (outputBufferStart m) = start"
    "unat (msg_length m) = 8 * k" "start + 8 * k \<le> 65500" "read_at start (8 * k) (msg_buffer m) = bs"
    using assms by (simp_all add: framed_def msg_wf_def message_consts)
  have "XTEA_transform (xteaKey p) start (8 * k) True (msg_buffer m)
      = Some (write_at start ?e (msg_buffer m))"
    using xtea.transform_enc [of start k "msg_buffer m" "xteaKey p"] m by (simp add: XTEA_transform_def)
  then have "XTEA_encrypt p m = Some (m\<lparr>msg_buffer := write_at start ?e (msg_buffer m)\<rparr>)"
    using m by (simp add: XTEA_encrypt_def)
  moreover have "length ?e = 8 * k" using assms(2) by (rule xtea.length_encrypted)
  ultimately show ?thesis
    using m by (simp add: framed_def msg_wf_def message_consts buffer_simps)
qed

text \<open>The length header, the checksum and the cipher text of the padded payload.\<close>

definition cipher_text :: "xtea_key \<Rightarrow> byte list \<Rightarrow> byte list" where
  "cipher_text key bs = map_blocks (xtea_block key True) (length (padded bs) div 8) (padded bs)"

definition packet :: "xtea_key \<Rightarrow> u32 \<Rightarrow> byte list \<Rightarrow> byte list" where
  "packet key checksum bs =
     bytes_of (of_nat (length (padded bs) div 8) :: u16) @ bytes_of checksum @ cipher_text key bs"

lemma length_cipher_text: "length (cipher_text key bs) = length (padded bs)"
  using padded_dvd [of bs] xtea.length_encrypted [of "padded bs" "length (padded bs) div 8" key]
  by (simp add: cipher_text_def)

lemma length_packet: "length (packet key c bs) = 6 + length (padded bs)"
  by (simp add: packet_def length_cipher_text)

lemma encrypt_padded:
  assumes "out_writer m" and "fits 7 m"
  shows "\<exists>m2 m3. writePaddingAmount m = Some m2 \<and> XTEA_encrypt p m2 = Some m3 \<and>
    framed m3 6 (cipher_text (xteaKey p) (payload m))"
proof -
  obtain m2 where 2: "writePaddingAmount m = Some m2" "framed m2 6 (padded (payload m))"
    using writePaddingAmount_framed [OF assms] by blast
  then show ?thesis
    using XTEA_encrypt_framed [OF 2(2), of "length (padded (payload m)) div 8" p] padded_dvd
    by (auto simp: cipher_text_def)
qed

lemma addCryptoHeader_framed:
  assumes "framed m 6 (cipher_text key bs)"
  shows "framed (addCryptoHeader True c m) 0 (packet key c bs)"
proof -
  have "framed (add_header c m) 2 (bytes_of c @ cipher_text key bs)"
    using framed_add_header [OF assms, of c] by simp
  moreover have "length (bytes_of c @ cipher_text key bs) = 4 + 8 * (length (padded bs) div 8)"
    using padded_dvd [of bs] by (simp add: length_cipher_text)
  ultimately show ?thesis
    using writeMessageLength_framed [of "add_header c m" 2] by (simp add: addCryptoHeader_def packet_def)
qed

definition no_compression :: "zlib \<Rightarrow> Protocol \<Rightarrow> OutputMessage \<Rightarrow> bool" where
  "no_compression zlib p m \<longleftrightarrow>
     unat (msg_length m) < 128 \<or> checksumMethod p \<noteq> CHECKSUM_METHOD_SEQUENCE \<or> zlib = None"

lemma onSend_sequence:
  assumes "out_writer m" and "fits 7 m" and "no_compression zlib p m"
    and "\<not> rawMessages p" and "encryptionEnabled p" and "checksumMethod p = CHECKSUM_METHOD_SEQUENCE"
  shows "\<exists>m'. onSendMessage zlib p m =
      Some (p\<lparr>serverSequenceNumber := wrap_sequence (serverSequenceNumber p + 1)\<rparr>, m') \<and>
    output_bytes m' = packet (xteaKey p) (serverSequenceNumber p + 1) (payload m)"
proof -
  obtain m2 m3 where m: "writePaddingAmount m = Some m2" "XTEA_encrypt p m2 = Some m3"
    "framed m3 6 (cipher_text (xteaKey p) (payload m))"
    using encrypt_padded [OF assms(1,2)] by blast
  have "(if 128 \<le> unat (msg_length m) then compression zlib p m else Some (False, m)) = Some (False, m)"
    using assms(3,6) by (auto simp: no_compression_def compression_def)
  with m assms(4-6) framed_output_bytes [OF addCryptoHeader_framed [OF m(3)]] show ?thesis
    by (simp add: onSendMessage_def Let_def)
qed

lemma onSend_adler:
  assumes "out_writer m" and "fits 7 m"
    and "\<not> rawMessages p" and "encryptionEnabled p" and "checksumMethod p = CHECKSUM_METHOD_ADLER32"
  shows "\<exists>m'. onSendMessage zlib p m = Some (p, m') \<and> output_bytes m' =
    packet (xteaKey p) (adlerChecksum (cipher_text (xteaKey p) (payload m))) (payload m)"
proof -
  obtain m2 m3 where m: "writePaddingAmount m = Some m2" "XTEA_encrypt p m2 = Some m3"
    "framed m3 6 (cipher_text (xteaKey p) (payload m))"
    using encrypt_padded [OF assms(1,2)] by blast
  have "(if 128 \<le> unat (msg_length m) then compression zlib p m else Some (False, m)) = Some (False, m)"
    using assms(5) by (auto simp: compression_def)
  with m assms(3-5) framed_output_bytes [OF addCryptoHeader_framed [OF m(3)]]
    framed_output_bytes [OF m(3)] show ?thesis
    by (simp add: onSendMessage_def Let_def)
qed

section \<open>Taking a packet back\<close>

text \<open>
  A received packet as the connection leaves it: position 2, length two more than the bytes read, and
  the checksum and the cipher text behind the length header.
\<close>

definition received :: "NetworkMessage \<Rightarrow> u32 \<Rightarrow> byte list \<Rightarrow> bool" where
  "received msg c body \<longleftrightarrow> msg_wf msg \<and> msg_position msg = 2 \<and>
     unat (msg_length msg) = 6 + length body \<and> 6 + length body \<le> NETWORKMESSAGE_MAXSIZE \<and>
     read_at 2 4 (msg_buffer msg) = bytes_of c \<and> read_at 6 (length body) (msg_buffer msg) = body"

lemma received_checksum:
  assumes "received msg c body"
  shows "get msg = Some (c, msg\<lparr>msg_position := 6\<rparr>)"
  using assms by (simp add: received_def get_def Let_def canRead_nat [of 4, simplified] message_consts codec_simps)

lemma XTEA_decrypt_received:
  assumes "received msg c (cipher_text (xteaKey p) bs)" and "checksumMethod p \<noteq> CHECKSUM_METHOD_NONE"
  shows "\<exists>msg'. XTEA_decrypt p (msg\<lparr>msg_position := 6\<rparr>) = Some (True, msg') \<and> reader msg' \<and>
    unat (msg_length msg') = length bs + 1 \<and> take (length bs) (remaining msg') = bs"
proof -
  let ?n = "length (padded bs)" and ?k = "length (padded bs) div 8"
  let ?m = "msg\<lparr>msg_position := 6\<rparr>"
  let ?pad = "of_nat (padding_of (length bs)) :: u8"
  have n: "?n = 8 * ?k" using padded_dvd [of bs] by simp
  have np: "?n = 1 + length bs + padding_of (length bs)" by (simp add: padded_def)
  have n8: "Suc (length bs + padding_of (length bs)) mod 8 = 0"
    using padded_dvd [of bs] np by simp
  have m: "length (msg_buffer msg) = 65500" "unat (msg_length msg) = 6 + ?n" "6 + ?n \<le> 65500"
    "read_at 6 ?n (msg_buffer msg) = cipher_text (xteaKey p) bs"
    using assms(1) by (simp_all add: received_def msg_wf_def message_consts length_cipher_text)
  have le: "?n \<le> 65488" using n m(3) by presburger
  have len: "unat (msg_length msg - 6) = ?n"
    using m by (simp add: unat_sub word_le_nat_alt)
  have dec: "map_blocks (xtea_block (xteaKey p) False) ?k (cipher_text (xteaKey p) bs) = padded bs"
    using xtea.decrypt_encrypted [OF n, of "xteaKey p"] by (simp add: cipher_text_def)
  let ?buf = "write_at 6 (padded bs) (msg_buffer msg)"
  have tr: "XTEA_transform (xteaKey p) 6 ?n False (msg_buffer msg) = Some ?buf"
    using xtea.inverse.transform_enc [of 6 ?k "msg_buffer msg" "xteaKey p"] m n dec
    by (simp add: XTEA_transform_def)
  have nth: "?buf ! 6 = ?pad"
  proof -
    have "read_at 6 ?n ?buf = padded bs" using m by (simp add: buffer_simps)
    then have "hd (read_at 6 ?n ?buf) = ?pad" by (simp add: padded_def)
    moreover have "length ?buf = 65500" using m by (simp add: buffer_simps)
    ultimately show ?thesis using np m by (simp add: read_at_def hd_drop_conv_nth hd_take)
  qed
  have pad: "unat ?pad = padding_of (length bs)"
    using padding_of_lt [of "length bs"] by (simp add: unat_of_nat take_bit_nat_eq_self)
  then have ipad: "unat (ucast ?pad :: u16) = padding_of (length bs)"
    by (simp add: unat_ucast_widen)
  have inner: "unat (msg_length msg - 6 - ucast ?pad) = length bs + 1"
    using len ipad np by (simp add: unat_sub word_le_nat_alt)
  let ?r = "msg\<lparr>msg_buffer := ?buf, msg_position := 7, msg_length := msg_length msg - 6 - ucast ?pad\<rparr>"
  have gb: "getByte (?m\<lparr>msg_buffer := ?buf\<rparr>) = (?pad, msg\<lparr>msg_buffer := ?buf, msg_position := 7\<rparr>)"
    using m nth by (simp add: getByte_def Let_def canRead_nat [of 1, simplified] message_consts)
  have "XTEA_decrypt p ?m = Some (True, ?r)"
    using assms(2) len n n8 tr gb inner pad np
    by (simp add: XTEA_decrypt_def Let_def setLength_def)
  moreover have "reader ?r"
    using m inner np le by (simp add: reader_def msg_wf_def message_consts buffer_simps)
  moreover have "take (length bs) (remaining ?r) = bs"
  proof -
    have "remaining ?r = read_at 7 (length bs + 1) ?buf"
      using inner by (simp add: remaining_def)
    then have "take (length bs) (remaining ?r) = take (length bs) (drop 7 ?buf)"
      by (simp add: read_at_def min_def)
    also have "drop 7 ?buf = bs @ replicate (padding_of (length bs)) 0x33 @ drop (6 + ?n) (msg_buffer msg)"
      using m by (simp add: write_at_def padded_def)
    finally show ?thesis by simp
  qed
  ultimately show ?thesis using inner by auto
qed

section \<open>Accepting and dropping packets\<close>

lemma onRecv_sequence_accept:
  assumes "received msg c (cipher_text (xteaKey p) bs)" and "checksumMethod p = CHECKSUM_METHOD_SEQUENCE"
    and "encryptionEnabled p" and "c = clientSequenceNumber p + 1" and "c \<noteq> 0"
  shows "\<exists>msg'. onRecvMessage p msg = Some (True, p\<lparr>clientSequenceNumber := wrap_sequence c\<rparr>, msg') \<and>
    reader msg' \<and> unat (msg_length msg') = length bs + 1 \<and> take (length bs) (remaining msg') = bs"
proof -
  let ?p = "p\<lparr>clientSequenceNumber := wrap_sequence c\<rparr>"
  have "received msg c (cipher_text (xteaKey ?p) bs)" "checksumMethod ?p \<noteq> CHECKSUM_METHOD_NONE"
    using assms(1,2) by simp_all
  from XTEA_decrypt_received [OF this] received_checksum [OF assms(1)] assms(2-5) show ?thesis
    by (auto simp: onRecvMessage_def sendRecvMessageCallback_def Let_def)
qed

lemma onRecv_sequence_drop:
  assumes "received msg c body" and "checksumMethod p = CHECKSUM_METHOD_SEQUENCE"
    and "c \<noteq> clientSequenceNumber p + 1"
  shows "\<exists>p' msg'. onRecvMessage p msg = Some (False, p', msg')"
  using received_checksum [OF assms(1)] assms(2,3) by (simp add: onRecvMessage_def Let_def)

lemma received_length:
  assumes "received msg c body" and "body \<noteq> []"
  shows "int (unat (msg_length msg)) - int (unat (6 :: u16)) = int (length body)"
    and "6 < uint (msg_length msg)" and "read_at 6 (length body) (msg_buffer msg) = body"
proof -
  have "0 < length body" using assms(2) by simp
  moreover have "int (unat (msg_length msg)) = 6 + int (length body)"
    using assms(1) unfolding received_def by linarith
  ultimately have "int (unat (msg_length msg)) > 6" by linarith
  then show "6 < uint (msg_length msg)" by simp
  show "int (unat (msg_length msg)) - int (unat (6 :: u16)) = int (length body)"
    using assms(1) unfolding received_def by simp
  show "read_at 6 (length body) (msg_buffer msg) = body"
    using assms(1) unfolding received_def by simp
qed

lemma onRecv_adler_accept:
  assumes "received msg c (cipher_text (xteaKey p) bs)" and "checksumMethod p = CHECKSUM_METHOD_ADLER32"
    and "encryptionEnabled p" and "c = adlerChecksum (cipher_text (xteaKey p) bs)"
  shows "\<exists>msg'. onRecvMessage p msg = Some (True, p, msg') \<and>
    reader msg' \<and> unat (msg_length msg') = length bs + 1 \<and> take (length bs) (remaining msg') = bs"
proof -
  have d: "checksumMethod p \<noteq> CHECKSUM_METHOD_NONE" using assms(2) by simp
  have "cipher_text (xteaKey p) bs \<noteq> []"
    by (simp add: length_cipher_text padded_def flip: length_greater_0_conv)
  from received_length [OF assms(1) this] show ?thesis
    using XTEA_decrypt_received [OF assms(1) d] received_checksum [OF assms(1)] assms(2-4)
    by (auto simp: onRecvMessage_def sendRecvMessageCallback_def Let_def)
qed

lemma onRecv_adler_drop:
  assumes "received msg c body" and "checksumMethod p = CHECKSUM_METHOD_ADLER32"
    and "body \<noteq> []" and "c \<noteq> adlerChecksum body"
  shows "\<exists>msg'. onRecvMessage p msg = Some (False, p, msg')"
  using received_length [OF assms(1,3)] received_checksum [OF assms(1)] assms(2,4)
  by (simp add: onRecvMessage_def Let_def)

text \<open>The sequence counters stay below \<open>0x7FFFFFFF\<close>, so the next number is never 0 and its top bit is clear.\<close>

definition sequence_ok :: "u32 \<Rightarrow> bool" where
  "sequence_ok s \<longleftrightarrow> unat s < 0x7FFFFFFF"

lemma wrap_sequence_ok: "sequence_ok (wrap_sequence s)"
  by (auto simp: sequence_ok_def wrap_sequence_def word_le_nat_alt)

lemma next_sequence:
  assumes "sequence_ok s"
  shows "unat (s + 1) = unat s + 1" and "s + 1 \<noteq> 0" and "\<not> bit (s + 1) 31"
proof -
  show u: "unat (s + 1) = unat s + 1"
    using unat_add_of_nat [of s 1] assms by (simp add: sequence_ok_def)
  then show "s + 1 \<noteq> 0" by (metis Suc_eq_plus1 nat.distinct(1) unat_0)
  have "unat (s + 1) < 2 ^ 31" using u assms by (simp add: sequence_ok_def)
  then have "take_bit 31 (s + 1) = s + 1"
    by (simp add: word_unat_eq_iff unsigned_take_bit_eq take_bit_nat_eq_self)
  then show "\<not> bit (s + 1) 31" by (metis bit_take_bit_iff less_irrefl)
qed

lemma replay_rejected: "wrap_sequence c + 1 \<noteq> c"
  by (auto simp: wrap_sequence_def word_le_nat_alt)

section \<open>The output buffer keeps the stream\<close>

definition buffer_ok :: "Protocol \<Rightarrow> bool" where
  "buffer_ok p \<longleftrightarrow> (case outputBuffer p of None \<Rightarrow> True | Some b \<Rightarrow> out_writer b)"

definition pending :: "Protocol \<Rightarrow> byte list" where
  "pending p = (case outputBuffer p of None \<Rightarrow> [] | Some b \<Rightarrow> payload b)"

lemma buffer_ok_new [wf_intros]: "buffer_ok new_protocol"
  by (simp add: buffer_ok_def new_protocol_def)

lemma getOutputBuffer_room:
  assumes "buffer_ok p"
    and "getOutputBuffer True sz p = (b, p', sent)" and "sz + 7 < MAX_BODY_LENGTH"
  shows "out_writer b" and "fits sz b" and "outputBuffer p' = Some b"
    and "concat (map payload sent) @ payload b = pending p"
  using assms out_writer_new
  by (auto simp: getOutputBuffer_def buffer_ok_def pending_def send_def fits_def out_writer_def
      writer_def message_consts new_output_message_def new_message_def NetworkMessage.defs
      split: option.splits if_splits)

lemma writeToOutputBuffer_stream:
  assumes "buffer_ok p" and "writer msg"
  shows "\<exists>p' sent. writeToOutputBuffer True msg p = Some (p', sent) \<and> buffer_ok p' \<and>
    concat (map payload sent) @ pending p' = pending p @ payload msg"
proof -
  obtain b p1 sent where g: "getOutputBuffer True (unat (getLength msg)) p = (b, p1, sent)"
    by (metis prod_cases3)
  have "unat (getLength msg) + 7 < MAX_BODY_LENGTH"
    using assms(2) by (simp add: writer_def getLength_def)
  note b = getOutputBuffer_room [OF assms(1) g this]
  have "append_output msg b = Some (put_block (payload msg) b)"
    using append_output_put [OF assms(2)] b(2) by (simp add: getLength_def)
  moreover have "fits (length (payload msg)) b"
    using b(2) length_payload [OF assms(2)] by (simp add: getLength_def)
  ultimately show ?thesis
    using g b out_writer_put_block [OF b(1), of "payload msg"]
    by (simp add: writeToOutputBuffer_def buffer_ok_def pending_def append_assoc [symmetric]
        del: append_assoc)
qed

text \<open>A whole sequence of writes.\<close>

fun write_messages :: "NetworkMessage list \<Rightarrow> Protocol \<Rightarrow> (Protocol \<times> OutputMessage list) option" where
  "write_messages [] p = Some (p, [])"
| "write_messages (m # ms) p =
     (case writeToOutputBuffer True m p of
        None \<Rightarrow> None
      | Some (p1, s1) \<Rightarrow>
          (case write_messages ms p1 of
             None \<Rightarrow> None
           | Some (p2, s2) \<Rightarrow> Some (p2, s1 @ s2)))"

lemma write_messages_stream:
  assumes "buffer_ok p" and "\<forall>m \<in> set ms. writer m"
  shows "\<exists>p' sent. write_messages ms p = Some (p', sent) \<and> buffer_ok p' \<and>
    concat (map payload sent) @ pending p' = pending p @ concat (map payload ms)"
  using assms
proof (induction ms arbitrary: p)
  case Nil
  then show ?case by simp
next
  case (Cons m ms)
  then obtain p1 s1 where 1: "writeToOutputBuffer True m p = Some (p1, s1)" "buffer_ok p1"
      "concat (map payload s1) @ pending p1 = pending p @ payload m"
    using writeToOutputBuffer_stream [of p m] by auto
  then obtain p2 s2 where 2: "write_messages ms p1 = Some (p2, s2)" "buffer_ok p2"
      "concat (map payload s2) @ pending p2 = pending p1 @ concat (map payload ms)"
    using Cons.IH [of p1] Cons.prems by auto
  then have "concat (map payload (s1 @ s2)) @ pending p2
      = concat (map payload s1) @ (pending p1 @ concat (map payload ms))"
    by simp
  also have "\<dots> = (pending p @ payload m) @ concat (map payload ms)"
    using 1(3) by (metis append_assoc)
  finally show ?case using 1 2 by simp
qed

section \<open>Properties\<close>

text \<open>With encryption and sequence numbers, \<open>onSendMessage\<close> puts on the wire the number of blocks, the
  next sequence number and the XTEA cipher text of the padded payload, and advances its counter.\<close>

theorem onSendMessage_wire_format:
  assumes "out_writer m" and "fits 7 m" and "no_compression zlib p m"
    and "\<not> rawMessages p" and "encryptionEnabled p" and "checksumMethod p = CHECKSUM_METHOD_SEQUENCE"
  shows "\<exists>m'. onSendMessage zlib p m =
      Some (p\<lparr>serverSequenceNumber := wrap_sequence (serverSequenceNumber p + 1)\<rparr>, m') \<and>
    output_bytes m' = packet (xteaKey p) (serverSequenceNumber p + 1) (payload m)"
  using assms by (rule onSend_sequence)

definition sample_protocol :: Protocol where
  "sample_protocol = setChecksumMethod CHECKSUM_METHOD_SEQUENCE
     (setXTEAKey (1, 2, 3, 4) (enableXTEAEncryption new_protocol))"

lemmas sample_protocol_simps = sample_protocol_def setChecksumMethod_def setXTEAKey_def
  enableXTEAEncryption_def new_protocol_def

lemma fits_new_output: "n + 7 < MAX_BODY_LENGTH \<Longrightarrow> fits n new_output_message"
  by (simp add: fits_def new_output_message_def new_message_def NetworkMessage.defs message_consts)

theorem onSendMessage_wire_format_witness:
  "\<exists>m'. onSendMessage None sample_protocol new_output_message =
      Some (sample_protocol\<lparr>serverSequenceNumber := wrap_sequence (serverSequenceNumber sample_protocol + 1)\<rparr>, m') \<and>
    output_bytes m' = packet (xteaKey sample_protocol) (serverSequenceNumber sample_protocol + 1)
      (payload new_output_message)"
  by (rule onSendMessage_wire_format)
     (simp_all add: out_writer_new fits_new_output message_consts no_compression_def sample_protocol_simps)

text \<open>C4: The output buffer neither loses, duplicates nor reorders data: after any sequence of messages, the
  messages sent to make room followed by what is still buffered are the payloads written.\<close>

theorem output_buffer_keeps_stream:
  assumes "buffer_ok p" and "\<forall>m \<in> set ms. writer m"
  shows "\<exists>p' sent. write_messages ms p = Some (p', sent) \<and> buffer_ok p' \<and>
    concat (map payload sent) @ pending p' = pending p @ concat (map payload ms)"
  using assms by (rule write_messages_stream)

theorem output_buffer_keeps_stream_witness:
  "\<exists>p' sent. write_messages [new_message, new_message] new_protocol = Some (p', sent) \<and> buffer_ok p' \<and>
    concat (map payload sent) @ pending p' =
      pending new_protocol @ concat (map payload [new_message, new_message])"
  by (rule output_buffer_keeps_stream) (simp_all add: buffer_ok_new writer_new_message)

text \<open>C3: A packet with a sequence number other than the next one is dropped; a packet accepted once is
  never accepted again as the next packet, also where the counter wraps around.\<close>

theorem out_of_sequence_dropped:
  assumes "received msg c body" and "checksumMethod p = CHECKSUM_METHOD_SEQUENCE"
    and "c \<noteq> clientSequenceNumber p + 1 \<or> clientSequenceNumber p = wrap_sequence c"
  shows "\<exists>p' msg'. onRecvMessage p msg = Some (False, p', msg')"
  using onRecv_sequence_drop [OF assms(1,2)] replay_rejected [of c] assms(3) by metis

definition sample_received :: NetworkMessage where
  "sample_received = new_message\<lparr>msg_length := 6, msg_position := 2\<rparr>"

lemma sample_received_0: "received sample_received 0 []"
proof -
  have "read_at 2 4 (replicate 65500 (0 :: byte)) = replicate 4 0"
    by (simp add: read_at_def drop_replicate take_replicate min_def)
  moreover have "bytes_of (0 :: u32) = replicate 4 0" by code_simp
  ultimately show ?thesis
    by (simp add: received_def sample_received_def new_message_def msg_wf_def message_consts
        read_at_def)
qed

theorem out_of_sequence_dropped_witness:
  "\<exists>p' msg'. onRecvMessage sample_protocol sample_received = Some (False, p', msg')"
  by (rule out_of_sequence_dropped [OF sample_received_0]) (simp_all add: sample_protocol_simps)

end
