(* ===== verification/Connection.thy ===== *)
theory Connection
  imports Protocol "HOL-Library.Sublist"
begin

text \<open>
  \<^verbatim>\<open>src/server/network/connection/connection.cpp\<close>: the state of a connection and its handlers.
  Asynchronous operations are results of the handlers (\<open>Effect\<close>): a read that completes with a
  handler, a write, a posted \<open>internalWorker\<close>.  The clock, the configuration and the service port are
  parameters; timers, logging and the exceptions asio itself may throw are left out.  Undefined
  behaviour in \<open>onSendMessage\<close> or \<open>onRecvMessage\<close> is \<open>None\<close>.

  The second half is the sending side as a step relation, one rule per event the event loop can run,
  with the invariant that at most one write is in progress and that messages are encrypted and
  numbered in the order in which they were sent.
\<close>

section \<open>State\<close>

datatype ConnectionState_t =
    CONNECTION_STATE_OPEN | CONNECTION_STATE_IDENTIFYING
  | CONNECTION_STATE_READINGS | CONNECTION_STATE_CLOSED

record Connection =
  connectionState :: ConnectionState_t
  messageQueue :: "OutputMessage list"
  conn_protocol :: "Protocol option"
  receivedFirst :: bool
  socketOpen :: bool
  m_msg :: NetworkMessage
  timeConnected :: int
  packetsSent :: u32
  conn_ip :: u32

datatype Handler = ParseHeader | ParseProxyIdentification | ParsePacket

datatype Effect =
    AsyncRead nat nat Handler
  | AsyncWrite "byte list"
  | PostWorker
  | ReleaseProtocol
  | SendLoginChallenge
  | FirstMessage NetworkMessage
  | Dispatch NetworkMessage

definition INPUTMESSAGE_MAXSIZE :: nat where "INPUTMESSAGE_MAXSIZE = 4096"

definition new_connection :: "int \<Rightarrow> Connection" where
  "new_connection now = \<lparr>connectionState = CONNECTION_STATE_OPEN, messageQueue = [],
     conn_protocol = None, receivedFirst = False, socketOpen = True, m_msg = new_message,
     timeConnected = now, packetsSent = 0, conn_ip = 1\<rparr>"

section \<open>Closing and accepting\<close>

definition closeSocket :: "Connection \<Rightarrow> Connection" where
  "closeSocket c = (if \<not> socketOpen c then c else c\<lparr>socketOpen := False\<rparr>)"

definition close :: "bool \<Rightarrow> Connection \<Rightarrow> Connection \<times> Effect list" where
  "close force c =
     (let c1 = c\<lparr>conn_ip := 0\<rparr> in
      if connectionState c1 = CONNECTION_STATE_CLOSED then (c1, [])
      else
        let c2 = c1\<lparr>connectionState := CONNECTION_STATE_CLOSED\<rparr>;
            effects = (if conn_protocol c2 \<noteq> None then [ReleaseProtocol] else [])
        in (if messageQueue c2 = [] \<or> force then closeSocket c2 else c2, effects))"

definition acceptInternal :: "bool \<Rightarrow> Connection \<Rightarrow> Connection \<times> Effect list" where
  "acceptInternal toggleParseHeader c =
     (c, [AsyncRead 0 HEADER_LENGTH (if toggleParseHeader then ParseHeader else ParseProxyIdentification)])"

definition accept :: "Protocol \<Rightarrow> Connection \<Rightarrow> Connection \<times> Effect list" where
  "accept p c =
     (let c1 = c\<lparr>connectionState := CONNECTION_STATE_IDENTIFYING, conn_protocol := Some p\<rparr>;
          (c2, effects) = acceptInternal False c1
      in (c2, SendLoginChallenge # effects))"

section \<open>Reading\<close>

text \<open>The packet rate test, the size of the body and the request for it.\<close>

definition parseHeader ::
  "bool \<Rightarrow> int \<Rightarrow> bool \<Rightarrow> u32 \<Rightarrow> Connection \<Rightarrow> Connection \<times> Effect list" where
  "parseHeader err now recentMapLoad maxPacketsPerSecond c =
     (if err then close True c
      else if connectionState c = CONNECTION_STATE_CLOSED then (c, [])
      else
        let timePassed = max 1 (of_int (now - timeConnected c + 1) :: u32);
            maxPps = (if recentMapLoad then maxPacketsPerSecond * 10 else maxPacketsPerSecond);
            c1 = c\<lparr>packetsSent := packetsSent c + 1\<rparr> in
        if packetsSent c1 div timePassed > maxPps then close False c1
        else
          let c2 = (if timePassed > 2 then c1\<lparr>timeConnected := now, packetsSent := 0\<rparr> else c1);
              header = getLengthHeader (m_msg c2);
              sz = (if conn_protocol c2 \<noteq> None then header * 8 + 4 else header) in
          if sz = 0 \<or> unat sz > INPUTMESSAGE_MAXSIZE then close True c2
          else
            let (offset, msg) = getBodyBuffer (setLength (sz + of_nat HEADER_LENGTH) (m_msg c2)) in
            (c2\<lparr>m_msg := msg\<rparr>, [AsyncRead offset (unat sz) ParsePacket]))"

text \<open>
  \<^verbatim>\<open>strncasecmp(a, b, n) == 0\<close> on zero-terminated byte strings; the end of a list is its
  terminator.
\<close>

definition byte_tolower :: "byte \<Rightarrow> byte" where
  "byte_tolower b = (if 65 \<le> b \<and> b \<le> 90 then b + 32 else b)"

fun strncasecmp_eq :: "nat \<Rightarrow> byte list \<Rightarrow> byte list \<Rightarrow> bool" where
  "strncasecmp_eq 0 a b = True"
| "strncasecmp_eq (Suc n) a b =
     (let x = (case a of [] \<Rightarrow> 0 | x # _ \<Rightarrow> x); y = (case b of [] \<Rightarrow> 0 | y # _ \<Rightarrow> y) in
      byte_tolower x = byte_tolower y \<and> (x = 0 \<or> strncasecmp_eq n (tl a) (tl b)))"

definition parseProxyIdentification ::
  "bool \<Rightarrow> byte list \<Rightarrow> int \<Rightarrow> bool \<Rightarrow> u32 \<Rightarrow> Connection \<Rightarrow> Connection \<times> Effect list" where
  "parseProxyIdentification err configName now recentMapLoad maxPps c =
     (if err \<or> connectionState c = CONNECTION_STATE_CLOSED then close True c
      else
        let serverName = configName @ [10];
            charData = msg_buffer (m_msg c);
            remainder = (length serverName + (2 ^ 64 - 2)) mod 2 ^ 64 in
        (case connectionState c of
           CONNECTION_STATE_IDENTIFYING \<Rightarrow>
             if charData ! 1 = 0 \<or> \<not> strncasecmp_eq 2 charData serverName then
               parseHeader err now recentMapLoad maxPps (c\<lparr>connectionState := CONNECTION_STATE_OPEN\<rparr>)
             else if remainder > 0 then
               (c\<lparr>connectionState := CONNECTION_STATE_READINGS\<rparr>,
                [AsyncRead 0 remainder ParseProxyIdentification])
             else acceptInternal True (c\<lparr>connectionState := CONNECTION_STATE_OPEN\<rparr>)
         | CONNECTION_STATE_READINGS \<Rightarrow>
             if strncasecmp_eq remainder charData (drop 2 serverName) then
               acceptInternal True (c\<lparr>connectionState := CONNECTION_STATE_OPEN\<rparr>)
             else close True c
         | _ \<Rightarrow> acceptInternal True c))"

text \<open>
  \<open>make_protocol\<close> is the service port's factory: from the result of the checksum test and the message
  it makes a protocol, or none.  Handing the first message to the protocol is an effect.
\<close>

definition parsePacket ::
  "(bool \<Rightarrow> NetworkMessage \<Rightarrow> (Protocol \<times> NetworkMessage) option) \<Rightarrow> bool \<Rightarrow> Connection \<Rightarrow>
   (Connection \<times> Effect list) option" where
  "parsePacket make_protocol err c =
     (if err \<or> connectionState c = CONNECTION_STATE_CLOSED then Some (close True c)
      else if \<not> receivedFirst c then
        let c1 = c\<lparr>receivedFirst := True\<rparr>; msg = m_msg c in
        (case conn_protocol c of
           None \<Rightarrow>
             let pos = unat (getBufferPosition msg);
                 len = int (unat (getLength msg)) - int pos - int CHECKSUM_LENGTH in
             if len > 0 \<and> pos + CHECKSUM_LENGTH + nat len > NETWORKMESSAGE_MAXSIZE then None
             else
               let checksum = (if len > 0
                     then adlerChecksum (read_at (pos + CHECKSUM_LENGTH) (nat len) (msg_buffer msg))
                     else 0) in
               (case get msg of
                  None \<Rightarrow> None
                | Some (recvChecksum :: u32, msg1) \<Rightarrow>
                    let msg2 = (if recvChecksum \<noteq> checksum then skipBytes (- 4) msg1 else msg1) in
                    (case make_protocol (recvChecksum = checksum) msg2 of
                       None \<Rightarrow> Some (close True (c1\<lparr>m_msg := msg2\<rparr>))
                     | Some (p, msg3) \<Rightarrow>
                         Some (c1\<lparr>conn_protocol := Some p, m_msg := msg3\<rparr>,
                               [FirstMessage msg3, AsyncRead 0 HEADER_LENGTH ParseHeader])))
         | Some p \<Rightarrow>
             (case get msg of
                None \<Rightarrow> None
              | Some (unused :: u32, msg1) \<Rightarrow>
                  let msg2 = skipBytes 2 msg1 in
                  Some (c1\<lparr>m_msg := msg2\<rparr>, [FirstMessage msg2, AsyncRead 0 HEADER_LENGTH ParseHeader])))
      else
        (case conn_protocol c of
           None \<Rightarrow> None
         | Some p \<Rightarrow>
             (case onRecvMessage p (m_msg c) of
                None \<Rightarrow> None
              | Some (skipReadingNextPacket, p1, msg1) \<Rightarrow>
                  Some (c\<lparr>conn_protocol := Some p1, m_msg := msg1\<rparr>,
                        if skipReadingNextPacket then [Dispatch msg1]
                        else [AsyncRead 0 HEADER_LENGTH ParseHeader]))))"

definition resumeWork :: "Connection \<Rightarrow> Connection \<times> Effect list" where
  "resumeWork c = (c, [AsyncRead 0 HEADER_LENGTH ParseHeader])"

section \<open>Writing\<close>

definition conn_send :: "OutputMessage \<Rightarrow> Connection \<Rightarrow> Connection \<times> Effect list" where
  "conn_send m c =
     (if connectionState c = CONNECTION_STATE_CLOSED then (c, [])
      else
        let noPendingWrite = (messageQueue c = []);
            c1 = c\<lparr>messageQueue := messageQueue c @ [m]\<rparr> in
        if noPendingWrite then (if socketOpen c1 then (c1, [PostWorker]) else close True c1)
        else (c1, []))"

text \<open>
  The front of the queue is passed to \<open>onSendMessage\<close>, which changes it in place, and is written.
  The code calls a null protocol unchecked: \<open>None\<close>.
\<close>

definition send_front :: "zlib \<Rightarrow> Connection \<Rightarrow> (Connection \<times> Effect list) option" where
  "send_front zlib c =
     (case (conn_protocol c, messageQueue c) of
        (Some p, m # ms) \<Rightarrow>
          (case onSendMessage zlib p m of
             None \<Rightarrow> None
           | Some (p1, m1) \<Rightarrow>
               Some (c\<lparr>conn_protocol := Some p1, messageQueue := m1 # ms\<rparr>, [AsyncWrite (output_bytes m1)]))
      | _ \<Rightarrow> None)"

definition internalWorker :: "zlib \<Rightarrow> Connection \<Rightarrow> (Connection \<times> Effect list) option" where
  "internalWorker zlib c =
     (if messageQueue c = [] then
        Some (if connectionState c = CONNECTION_STATE_CLOSED then closeSocket c else c, [])
      else send_front zlib c)"

definition onWriteOperation :: "zlib \<Rightarrow> bool \<Rightarrow> Connection \<Rightarrow> (Connection \<times> Effect list) option" where
  "onWriteOperation zlib err c =
     (if err then Some (close True (c\<lparr>messageQueue := []\<rparr>))
      else
        case messageQueue c of
          [] \<Rightarrow> None
        | _ # rest \<Rightarrow>
            let c1 = c\<lparr>messageQueue := rest\<rparr> in
            if rest \<noteq> [] then send_front zlib c1
            else Some (if connectionState c1 = CONNECTION_STATE_CLOSED then closeSocket c1 else c1, []))"

text \<open>A timer that was not cancelled closes the connection, if it still exists.\<close>

definition handleTimeout :: "bool \<Rightarrow> Connection \<Rightarrow> Connection \<times> Effect list" where
  "handleTimeout aborted c = (if aborted then (c, []) else close True c)"

section \<open>From the socket to the protocol\<close>

lemma getLengthHeader_word:
  assumes "msg_wf m"
  shows "getLengthHeader m = word_of_bytes (read_at 0 2 (msg_buffer m))"
proof -
  let ?a = "msg_buffer m ! 0" and ?b = "msg_buffer m ! 1"
  have "length (msg_buffer m) = 65500" using assms by (simp add: msg_wf_def message_consts)
  then have r: "read_at 0 2 (msg_buffer m) = [?a, ?b]"
    by (simp add: read_at_def numeral_2_eq_2 take_Suc_conv_app_nth)
  have "(ucast ?a :: u16) OR push_bit 8 (ucast ?b) = ucast ?a + push_bit 8 (ucast ?b)"
    by (rule disjunctive_add [symmetric]) (auto simp: bit_simps dest: bit_imp_le_length)
  also have "\<dots> = word_of_bytes [?a, ?b]"
    by (simp add: word_of_bytes_def push_bit_eq_mult mult.commute)
  finally show ?thesis by (simp add: getLengthHeader_def r)
qed

text \<open>A read stores the bytes received at its offset and runs its handler.\<close>

definition store_read :: "nat \<Rightarrow> byte list \<Rightarrow> Connection \<Rightarrow> Connection" where
  "store_read offset bytes c =
     c\<lparr>m_msg := (m_msg c)\<lparr>msg_buffer := write_at offset bytes (msg_buffer (m_msg c))\<rparr>\<rparr>"

definition receive_packet ::
  "(bool \<Rightarrow> NetworkMessage \<Rightarrow> (Protocol \<times> NetworkMessage) option) \<Rightarrow> int \<Rightarrow> u32 \<Rightarrow> byte list \<Rightarrow>
   Connection \<Rightarrow> (Connection \<times> Effect list) option" where
  "receive_packet make_protocol now maxPps wire c =
     (case parseHeader False now False maxPps (store_read 0 (take 2 wire) c) of
        (c1, [AsyncRead offset n ParsePacket]) \<Rightarrow>
          parsePacket make_protocol False (store_read offset (take n (drop 2 wire)) c1)
      | _ \<Rightarrow> None)"

definition established :: "u32 \<Rightarrow> Connection \<Rightarrow> bool" where
  "established maxPps c \<longleftrightarrow> connectionState c = CONNECTION_STATE_OPEN \<and> receivedFirst c \<and>
     msg_wf (m_msg c) \<and> unat (packetsSent c) + 1 \<le> unat maxPps"

lemma rate_ok:
  assumes "unat (s :: u32) + 1 \<le> unat maxPps"
  shows "(s + 1) div t \<le> maxPps"
proof -
  have "unat (s + 1) = unat s + 1"
    using unat_add_of_nat [of s 1] assms unat_u32_bound [of maxPps] by simp
  then have "unat ((s + 1) div t) \<le> unat maxPps"
    using assms by (simp add: unat_div) (meson div_le_dividend le_trans)
  then show ?thesis by (simp add: word_le_nat_alt)
qed

lemma parseHeader_packet:
  assumes "established maxPps c" and "conn_protocol c = Some p" and "8 * k + 4 \<le> INPUTMESSAGE_MAXSIZE"
    and "read_at 0 2 (msg_buffer (m_msg c)) = bytes_of (of_nat k :: u16)"
  shows "\<exists>c'. parseHeader False now False maxPps c = (c', [AsyncRead 2 (8 * k + 4) ParsePacket]) \<and>
    m_msg c' = (m_msg c)\<lparr>msg_length := of_nat (8 * k + 6), msg_position := 2\<rparr> \<and>
    conn_protocol c' = Some p \<and> receivedFirst c' \<and> connectionState c' = CONNECTION_STATE_OPEN"
proof -
  have k: "8 * k + 4 < 65536" using assms(3) by (simp add: INPUTMESSAGE_MAXSIZE_def)
  have "getLengthHeader (m_msg c) = of_nat k"
    using getLengthHeader_word [of "m_msg c"] assms(1,4) by (simp add: established_def codec_simps)
  then have h: "getLengthHeader (m_msg c) * 8 + 4 = (of_nat (8 * k + 4) :: u16)"
    by (simp add: mult.commute)
  have h2: "6 + getLengthHeader (m_msg c) * 8 = (of_nat (8 * k + 6) :: u16)"
    using \<open>getLengthHeader (m_msg c) = of_nat k\<close> by (simp add: mult.commute)
  have u: "unat (of_nat (8 * k + 4) :: u16) = 8 * k + 4"
    using k by (simp add: unat_of_nat take_bit_nat_eq_self del: of_nat_add)
  then have nz: "(of_nat (8 * k + 4) :: u16) \<noteq> 0" by (metis add_is_0 unat_0 zero_neq_numeral)
  have "(of_nat (8 * k + 4) :: u16) + of_nat HEADER_LENGTH = of_nat (8 * k + 6)"
    by (simp add: HEADER_LENGTH_def)
  moreover have "\<not> (packetsSent c + 1) div t > maxPps" for t
    using rate_ok [of "packetsSent c" maxPps t] assms(1) by (simp add: established_def not_less)
  ultimately show ?thesis
    using assms(1-3) h h2 u nz
    by (auto simp: parseHeader_def Let_def established_def getBodyBuffer_def setLength_def
        HEADER_LENGTH_def simp del: of_nat_add of_nat_mult)
qed

lemma receive_packet_body:
  assumes "established maxPps c" and "conn_protocol c = Some p"
    and "length (padded bs) + 4 \<le> INPUTMESSAGE_MAXSIZE"
  shows "\<exists>c'. receive_packet mk now maxPps (packet key sq bs) c = parsePacket mk False c' \<and>
    received (m_msg c') sq (cipher_text key bs) \<and> conn_protocol c' = Some p \<and>
    receivedFirst c' \<and> connectionState c' = CONNECTION_STATE_OPEN"
proof -
  let ?k = "length (padded bs) div 8" and ?body = "bytes_of sq @ cipher_text key bs"
  let ?c = "store_read 0 (take 2 (packet key sq bs)) c"
  have n: "length (padded bs) = 8 * ?k" using padded_dvd [of bs] by simp
  have wf: "length (msg_buffer (m_msg c)) = 65500"
    using assms(1) by (simp add: established_def msg_wf_def message_consts)
  have tk: "take 2 (packet key sq bs) = bytes_of (of_nat ?k :: u16)" "drop 2 (packet key sq bs) = ?body"
    by (simp_all add: packet_def)
  have "established maxPps ?c" "conn_protocol ?c = Some p"
    using assms(1,2) wf tk by (simp_all add: established_def store_read_def msg_wf_def buffer_simps message_consts)
  moreover have "read_at 0 2 (msg_buffer (m_msg ?c)) = bytes_of (of_nat ?k :: u16)"
    using wf tk by (simp add: store_read_def buffer_simps)
  moreover have "8 * ?k + 4 \<le> INPUTMESSAGE_MAXSIZE" using assms(3) n by simp
  ultimately obtain c1 where c1: "parseHeader False now False maxPps ?c = (c1, [AsyncRead 2 (8 * ?k + 4) ParsePacket])"
    "m_msg c1 = (m_msg ?c)\<lparr>msg_length := of_nat (8 * ?k + 6), msg_position := 2\<rparr>"
    "conn_protocol c1 = Some p" "receivedFirst c1" "connectionState c1 = CONNECTION_STATE_OPEN"
    using parseHeader_packet by blast
  let ?c2 = "store_read 2 ?body c1"
  have lb: "length ?body = 8 * ?k + 4" using n by (simp add: length_cipher_text)
  have le: "8 * ?k + 6 \<le> 4098" using assms(3) n by (simp add: INPUTMESSAGE_MAXSIZE_def)
  have wf1: "length (msg_buffer (m_msg c1)) = 65500"
    using c1(2) wf tk by (simp add: store_read_def buffer_simps)
  have b: "read_at 2 (4 + 8 * ?k) (msg_buffer (m_msg ?c2)) = ?body"
    using wf1 lb le by (simp add: store_read_def buffer_simps)
  have len2: "length (msg_buffer (m_msg ?c2)) = 65500"
    using wf1 lb le by (simp add: store_read_def buffer_simps)
  have "read_at 2 (4 + 8 * ?k) (msg_buffer (m_msg ?c2))
      = read_at 2 4 (msg_buffer (m_msg ?c2)) @ read_at 6 (8 * ?k) (msg_buffer (m_msg ?c2))"
    using read_at_append [of 2 4 "8 * ?k" "msg_buffer (m_msg ?c2)"] len2 le by simp
  moreover have "length (read_at 2 4 (msg_buffer (m_msg ?c2))) = 4"
    using len2 by (simp add: length_read_at)
  ultimately have "read_at 2 4 (msg_buffer (m_msg ?c2)) = bytes_of sq"
    and "read_at 6 (8 * ?k) (msg_buffer (m_msg ?c2)) = cipher_text key bs"
    using b by simp_all
  moreover have "unat (of_nat (8 * ?k + 6) :: u16) = 8 * ?k + 6"
    using le by (simp add: unat_of_nat take_bit_nat_eq_self del: of_nat_add of_nat_mult)
  moreover note len2
  moreover have "msg_length (m_msg ?c2) = of_nat (8 * ?k + 6)" "msg_position (m_msg ?c2) = 2"
    using c1(2) by (simp_all add: store_read_def)
  ultimately have "received (m_msg ?c2) sq (cipher_text key bs)"
    using le n by (simp add: received_def msg_wf_def message_consts length_cipher_text)
  moreover have "receive_packet mk now maxPps (packet key sq bs) c = parsePacket mk False ?c2"
    using c1(1) tk lb by (simp add: receive_packet_def)
  ultimately show ?thesis using c1 by (intro exI [of _ ?c2]) (simp add: store_read_def)
qed

text \<open>
  End to end: the packet a protocol writes is read by a connection whose protocol shares its key and
  its sequence number, which dispatches a message that begins with the payload.
\<close>

definition in_step :: "Protocol \<Rightarrow> Protocol \<Rightarrow> bool" where
  "in_step snd_p rcv_p \<longleftrightarrow> xteaKey rcv_p = xteaKey snd_p \<and>
     clientSequenceNumber rcv_p = serverSequenceNumber snd_p \<and>
     sequence_ok (serverSequenceNumber snd_p) \<and>
     encryptionEnabled snd_p \<and> encryptionEnabled rcv_p \<and> \<not> rawMessages snd_p \<and>
     checksumMethod snd_p = CHECKSUM_METHOD_SEQUENCE \<and> checksumMethod rcv_p = CHECKSUM_METHOD_SEQUENCE"

lemma send_then_receive:
  assumes "in_step p q" and "out_writer m" and "length (payload m) + 12 \<le> INPUTMESSAGE_MAXSIZE"
    and "no_compression zlib p m" and "established maxPps c" and "conn_protocol c = Some q"
  shows "\<exists>p' m' c' q' msg. onSendMessage zlib p m = Some (p', m') \<and>
    receive_packet mk now maxPps (output_bytes m') c = Some (c', [Dispatch msg]) \<and>
    take (length (payload m)) (remaining msg) = payload m \<and> reader msg \<and>
    conn_protocol c' = Some q' \<and> in_step p' q'"
proof -
  let ?s = "serverSequenceNumber p + 1"
  have lp: "length (padded (payload m)) + 4 \<le> INPUTMESSAGE_MAXSIZE"
    using assms(3) padding_of_lt [of "length (payload m)"] by (simp add: padded_def)
  have "fits 7 m"
    using assms(2,3) by (simp add: out_writer_def writer_def length_payload fits_def message_consts
        INPUTMESSAGE_MAXSIZE_def)
  then obtain m' where s: "onSendMessage zlib p m = Some (p\<lparr>serverSequenceNumber := wrap_sequence ?s\<rparr>, m')"
      "output_bytes m' = packet (xteaKey p) ?s (payload m)"
    using onSend_sequence [of m zlib p] assms(1,2,4) by (auto simp: in_step_def)
  obtain c1 where r: "receive_packet mk now maxPps (output_bytes m') c = parsePacket mk False c1"
      "received (m_msg c1) ?s (cipher_text (xteaKey q) (payload m))" "conn_protocol c1 = Some q"
      "receivedFirst c1" "connectionState c1 = CONNECTION_STATE_OPEN"
    using receive_packet_body [OF assms(5,6) lp, of mk now "xteaKey q" ?s] s(2) assms(1)
    by (auto simp: in_step_def)
  obtain msg where "onRecvMessage q (m_msg c1)
      = Some (True, q\<lparr>clientSequenceNumber := wrap_sequence ?s\<rparr>, msg)"
      "reader msg" "take (length (payload m)) (remaining msg) = payload m"
    using onRecv_sequence_accept [OF r(2)] assms(1) next_sequence [of "serverSequenceNumber p"]
    by (auto simp: in_step_def)
  with s r assms(1) show ?thesis
    by (auto simp: parsePacket_def in_step_def wrap_sequence_ok)
qed

section \<open>The sending side as a step relation\<close>

text \<open>
  \<open>posted\<close> counts the \<open>internalWorker\<close> tasks in the event loop, \<open>writing\<close> is the write in progress.
  \<open>accepted\<close> and \<open>handled\<close> record the messages that entered the queue and those passed to
  \<open>onSendMessage\<close>, \<open>wire\<close> the writes that completed.
\<close>

record Sending =
  s_conn :: Connection
  posted :: nat
  writing :: "byte list option"
  accepted :: "OutputMessage list"
  handled :: "OutputMessage list"
  wire :: "byte list list"

definition init_sending :: "Connection \<Rightarrow> Sending" where
  "init_sending c = \<lparr>s_conn = c, posted = 0, writing = None, accepted = [], handled = [], wire = []\<rparr>"

definition write_of :: "Effect list \<Rightarrow> byte list option" where
  "write_of es = (case es of [AsyncWrite bs] \<Rightarrow> Some bs | _ \<Rightarrow> None)"

definition is_closed :: "Connection \<Rightarrow> bool" where
  "is_closed c \<longleftrightarrow> connectionState c = CONNECTION_STATE_CLOSED"

definition workers :: "Effect list \<Rightarrow> nat" where
  "workers es = length (filter (\<lambda>e. e = PostWorker) es)"

inductive send_step :: "zlib \<Rightarrow> Sending \<Rightarrow> Sending \<Rightarrow> bool" for zlib where
  step_send: "conn_send m (s_conn s) = (c', es) \<Longrightarrow>
    send_step zlib s (s\<lparr>s_conn := c', posted := posted s + workers es,
      accepted := accepted s @ (if is_closed (s_conn s) then [] else [m])\<rparr>)"
| step_worker: "posted s > 0 \<Longrightarrow> internalWorker zlib (s_conn s) = Some (c', es) \<Longrightarrow>
    send_step zlib s (s\<lparr>s_conn := c', posted := posted s - 1, writing := write_of es,
      handled := handled s @ take 1 (messageQueue (s_conn s))\<rparr>)"
| step_written: "writing s = Some bs \<Longrightarrow> onWriteOperation zlib False (s_conn s) = Some (c', es) \<Longrightarrow>
    send_step zlib s (s\<lparr>s_conn := c', writing := write_of es, wire := wire s @ [bs],
      handled := handled s @ take 1 (tl (messageQueue (s_conn s)))\<rparr>)"
| step_failed: "writing s = Some bs \<Longrightarrow> onWriteOperation zlib True (s_conn s) = Some (c', es) \<Longrightarrow>
    send_step zlib s (s\<lparr>s_conn := c', writing := None\<rparr>)"
| step_close: "close force (s_conn s) = (c', es) \<Longrightarrow> send_step zlib s (s\<lparr>s_conn := c'\<rparr>)"

inductive sending_reachable :: "zlib \<Rightarrow> Connection \<Rightarrow> Sending \<Rightarrow> bool" for zlib c where
  start: "messageQueue c = [] \<Longrightarrow> sending_reachable zlib c (init_sending c)"
| step: "sending_reachable zlib c s \<Longrightarrow> send_step zlib s t \<Longrightarrow> sending_reachable zlib c t"

inductive_cases send_stepE: "send_step zlib s t"

definition busy :: "Sending \<Rightarrow> nat" where
  "busy s = posted s + (if writing s = None then 0 else 1)"

definition unhandled :: "Sending \<Rightarrow> OutputMessage list" where
  "unhandled s = (if writing s = None then messageQueue (s_conn s) else tl (messageQueue (s_conn s)))"

definition sending_inv :: "Sending \<Rightarrow> bool" where
  "sending_inv s \<longleftrightarrow> busy s \<le> 1 \<and>
     (busy s > 0 \<longrightarrow> messageQueue (s_conn s) \<noteq> []) \<and>
     (\<not> is_closed (s_conn s) \<longrightarrow> messageQueue (s_conn s) \<noteq> [] \<longrightarrow> busy s = 1) \<and>
     (\<not> is_closed (s_conn s) \<or> busy s > 0 \<longrightarrow> accepted s = handled s @ unhandled s) \<and>
     prefix (handled s) (accepted s)"

lemmas sending_defs = sending_inv_def busy_def unhandled_def is_closed_def write_of_def workers_def

lemma send_front_effects:
  "send_front zlib c = Some (c', es) \<Longrightarrow> \<exists>m1 bs. es = [AsyncWrite bs] \<and>
     messageQueue c \<noteq> [] \<and> messageQueue c' = m1 # tl (messageQueue c) \<and>
     connectionState c' = connectionState c"
  by (auto simp: send_front_def split: option.splits list.splits prod.splits)

lemma close_frame:
  "close force c = (c', es) \<Longrightarrow> messageQueue c' = messageQueue c \<and>
     connectionState c' = CONNECTION_STATE_CLOSED \<and> workers es = 0"
  by (auto simp: close_def closeSocket_def Let_def workers_def split: if_splits)

lemma closeSocket_frame [simp]:
  "messageQueue (closeSocket c) = messageQueue c" "connectionState (closeSocket c) = connectionState c"
  by (simp_all add: closeSocket_def)

lemma conn_send_inv:
  assumes "sending_inv s" and "conn_send m (s_conn s) = (c', es)"
  shows "sending_inv (s\<lparr>s_conn := c', posted := posted s + workers es,
    accepted := accepted s @ (if is_closed (s_conn s) then [] else [m])\<rparr>)"
proof (cases "is_closed (s_conn s)")
  case True
  with assms show ?thesis by (auto simp: conn_send_def sending_defs)
next
  case False
  show ?thesis
  proof (cases "messageQueue (s_conn s) = [] \<and> \<not> socketOpen (s_conn s)")
    case True
    with False assms(2) have "close True ((s_conn s)\<lparr>messageQueue := [m]\<rparr>) = (c', es)"
      by (simp add: conn_send_def is_closed_def Let_def)
    from close_frame [OF this] True False assms(1) show ?thesis
      by (auto simp: sending_defs prefix_def split: if_splits)
  next
    case opened: False
    with False assms show ?thesis
      by (auto simp: conn_send_def Let_def sending_defs split: if_splits)
  qed
qed

lemma worker_inv:
  assumes "sending_inv s" and "posted s > 0" and "internalWorker zlib (s_conn s) = Some (c', es)"
  shows "sending_inv (s\<lparr>s_conn := c', posted := posted s - 1, writing := write_of es,
    handled := handled s @ take 1 (messageQueue (s_conn s))\<rparr>)"
proof -
  let ?q = "messageQueue (s_conn s)"
  have s: "posted s = 1" "writing s = None" "?q \<noteq> []" "accepted s = handled s @ ?q"
    using assms(1,2) by (auto simp: sending_defs split: if_splits)
  then have "send_front zlib (s_conn s) = Some (c', es)"
    using assms(3) by (simp add: internalWorker_def)
  from send_front_effects [OF this] obtain m1 bs where
    "es = [AsyncWrite bs]" "messageQueue c' = m1 # tl ?q" "connectionState c' = connectionState (s_conn s)"
    by blast
  with s show ?thesis by (cases ?q) (auto simp: sending_defs)
qed

lemma written_inv:
  assumes "sending_inv s" and "writing s = Some bs"
    and "onWriteOperation zlib False (s_conn s) = Some (c', es)"
  shows "sending_inv (s\<lparr>s_conn := c', writing := write_of es, wire := wire s @ [bs],
    handled := handled s @ take 1 (tl (messageQueue (s_conn s)))\<rparr>)"
proof -
  have s: "posted s = 0" "messageQueue (s_conn s) \<noteq> []"
    "accepted s = handled s @ tl (messageQueue (s_conn s))"
    using assms(1,2) by (auto simp: sending_defs split: if_splits)
  then obtain m rest where q: "messageQueue (s_conn s) = m # rest" by (cases "messageQueue (s_conn s)") auto
  let ?c = "(s_conn s)\<lparr>messageQueue := rest\<rparr>"
  show ?thesis
  proof (cases "rest = []")
    case True
    with assms(3) q have "es = []" "messageQueue c' = []"
      by (auto simp: onWriteOperation_def Let_def split: if_splits)
    with s q True show ?thesis by (auto simp: sending_defs)
  next
    case False
    with assms(3) q have "send_front zlib ?c = Some (c', es)"
      by (simp add: onWriteOperation_def Let_def)
    from send_front_effects [OF this] obtain m1 bs' where
      "es = [AsyncWrite bs']" "messageQueue c' = m1 # tl rest"
      by auto
    with s q False show ?thesis by (cases rest) (auto simp: sending_defs)
  qed
qed

lemma send_step_inv: "send_step zlib s t \<Longrightarrow> sending_inv s \<Longrightarrow> sending_inv t"
proof (induction rule: send_step.induct)
  case (step_send m s c' es)
  show ?case by (rule conn_send_inv [OF step_send(2,1)])
next
  case (step_worker s c' es)
  show ?case by (rule worker_inv [OF step_worker(3,1,2)])
next
  case (step_written s bs c' es)
  show ?case by (rule written_inv [OF step_written(3,1,2)])
next
  case (step_failed s bs c' es)
  then have "close True ((s_conn s)\<lparr>messageQueue := []\<rparr>) = (c', es)"
    by (simp add: onWriteOperation_def)
  from close_frame [OF this] step_failed show ?case
    by (auto simp: sending_defs split: if_splits)
next
  case (step_close force s c' es)
  from close_frame [OF step_close(1)] step_close(2) show ?case
    by (auto simp: sending_defs split: if_splits)
qed

lemma sending_reachable_inv: "sending_reachable zlib c s \<Longrightarrow> sending_inv s"
proof (induction rule: sending_reachable.induct)
  case start
  then show ?case by (simp add: sending_defs init_sending_def)
next
  case (step s t)
  then show ?case by (blast intro: send_step_inv)
qed

text \<open>A closed connection takes no message any more, whatever happens to it.\<close>

lemma send_front_state: "send_front zlib c = Some (c', es) \<Longrightarrow> connectionState c' = connectionState c"
  using send_front_effects by blast

lemma internalWorker_state:
  "internalWorker zlib c = Some (c', es) \<Longrightarrow> connectionState c' = connectionState c"
  by (auto simp: internalWorker_def dest: send_front_state split: if_splits)

lemma onWriteOperation_closed:
  "onWriteOperation zlib err c = Some (c', es) \<Longrightarrow> connectionState c = CONNECTION_STATE_CLOSED \<Longrightarrow>
   connectionState c' = CONNECTION_STATE_CLOSED"
  by (cases "messageQueue c")
     (auto simp: onWriteOperation_def Let_def dest: send_front_state close_frame split: if_splits)

lemma closed_stays_closed:
  "send_step zlib s t \<Longrightarrow> is_closed (s_conn s) \<Longrightarrow> is_closed (s_conn t) \<and> accepted t = accepted s"
proof (induction rule: send_step.induct)
  case (step_send m s c' es)
  then show ?case by (simp add: conn_send_def is_closed_def)
next
  case (step_worker s c' es)
  with internalWorker_state [OF step_worker(2)] show ?case by (simp add: is_closed_def)
next
  case (step_written s bs c' es)
  with onWriteOperation_closed [OF step_written(2)] show ?case by (simp add: is_closed_def)
next
  case (step_failed s bs c' es)
  with onWriteOperation_closed [OF step_failed(2)] show ?case by (simp add: is_closed_def)
next
  case (step_close force s c' es)
  with close_frame [OF step_close(1)] show ?case by (simp add: is_closed_def)
qed

section \<open>Properties\<close>

text \<open>C1: End to end: a message sent by a protocol is framed, padded, encrypted and numbered, and a
  connection whose protocol shares the key and the counter reads the two-part packet, accepts it and
  dispatches a message that begins with the payload; both sides stay in step for the next one.\<close>

theorem sent_message_is_received:
  assumes "in_step p q" and "out_writer m" and "length (payload m) + 12 \<le> INPUTMESSAGE_MAXSIZE"
    and "no_compression zlib p m" and "established maxPps c" and "conn_protocol c = Some q"
  shows "\<exists>p' m' c' q' msg. onSendMessage zlib p m = Some (p', m') \<and>
    receive_packet mk now maxPps (output_bytes m') c = Some (c', [Dispatch msg]) \<and>
    take (length (payload m)) (remaining msg) = payload m \<and> reader msg \<and>
    conn_protocol c' = Some q' \<and> in_step p' q'"
  using assms by (rule send_then_receive)

definition sample_connection :: Connection where
  "sample_connection = (new_connection 0)\<lparr>conn_protocol := Some sample_protocol, receivedFirst := True\<rparr>"

theorem sent_message_is_received_witness:
  "\<exists>p' m' c' q' msg. onSendMessage None sample_protocol new_output_message = Some (p', m') \<and>
    receive_packet (\<lambda>_ _. None) 0 25 (output_bytes m') sample_connection = Some (c', [Dispatch msg]) \<and>
    take (length (payload new_output_message)) (remaining msg) = payload new_output_message \<and> reader msg \<and>
    conn_protocol c' = Some q' \<and> in_step p' q'"
proof (rule sent_message_is_received)
  show "in_step sample_protocol sample_protocol"
    by (simp add: in_step_def sample_protocol_simps sequence_ok_def)
  show "out_writer new_output_message" by (rule out_writer_new)
  show "length (payload new_output_message) + 12 \<le> INPUTMESSAGE_MAXSIZE"
    by (simp add: out_writer_new INPUTMESSAGE_MAXSIZE_def)
  show "no_compression None sample_protocol new_output_message" by (simp add: no_compression_def)
  show "established 25 sample_connection"
    by (simp add: established_def sample_connection_def new_connection_def new_message_def msg_wf_def)
  show "conn_protocol sample_connection = Some sample_protocol" by (simp add: sample_connection_def)
qed

text \<open>C2: On every run of the event loop a connection has at most one worker or write under way, messages
  are handed to \<open>onSendMessage\<close> in the order they were accepted, and an open connection with queued
  messages always has one under way, so no message is left behind.\<close>

theorem sending_is_fifo_and_exclusive:
  assumes "sending_reachable zlib c s"
  shows "busy s \<le> 1 \<and> prefix (handled s) (accepted s) \<and>
    (if is_closed (s_conn s) then True
     else accepted s = handled s @ unhandled s \<and> (messageQueue (s_conn s) = [] \<or> busy s = 1))"
  using sending_reachable_inv [OF assms] by (auto simp: sending_inv_def)

theorem sending_is_fifo_and_exclusive_witness:
  "busy (init_sending (new_connection 0)) \<le> 1 \<and>
    prefix (handled (init_sending (new_connection 0))) (accepted (init_sending (new_connection 0))) \<and>
    (if is_closed (s_conn (init_sending (new_connection 0))) then True
     else accepted (init_sending (new_connection 0)) =
            handled (init_sending (new_connection 0)) @ unhandled (init_sending (new_connection 0)) \<and>
          (messageQueue (s_conn (init_sending (new_connection 0))) = [] \<or>
           busy (init_sending (new_connection 0)) = 1))"
  by (rule sending_is_fifo_and_exclusive [of None], rule sending_reachable.start)
     (simp add: new_connection_def)

text \<open>A closed connection stays closed and accepts no message, whatever event runs next.\<close>

theorem closed_connection_is_final:
  assumes "send_step zlib s t" and "is_closed (s_conn s)"
  shows "is_closed (s_conn t) \<and> accepted t = accepted s"
  using assms by (rule closed_stays_closed)

theorem closed_connection_is_final_witness:
  "\<exists>t :: Sending. is_closed (s_conn t) \<and> accepted t = []"
proof -
  let ?s = "init_sending ((new_connection 0)\<lparr>connectionState := CONNECTION_STATE_CLOSED\<rparr>)"
  obtain c' es where "close False (s_conn ?s) = (c', es)" by fastforce
  then have "send_step None ?s (?s\<lparr>s_conn := c'\<rparr>)" by (rule step_close)
  then have "is_closed (s_conn (?s\<lparr>s_conn := c'\<rparr>)) \<and> accepted (?s\<lparr>s_conn := c'\<rparr>) = accepted ?s"
    by (rule closed_connection_is_final) (simp add: is_closed_def init_sending_def)
  moreover have "accepted ?s = []" by (simp add: init_sending_def)
  ultimately show ?thesis by (auto intro!: exI [of _ "?s\<lparr>s_conn := c'\<rparr>"])
qed

end
