(* ===== verification/Vector_Set.thy ===== *)
theory Vector_Set
  imports Prelude
begin

text \<open>
  \<^verbatim>\<open>src/utils/vectorset.hpp\<close>: a set kept as a vector that is sorted and made unique only when it is
  next read.  Every operation that reads is a function returning the updated container, since
  \<open>update\<close> runs inside it.  The element type is any linear order, as \<^verbatim>\<open>std::less\<close> provides; the library
  algorithms (\<^verbatim>\<open>sort\<close>, \<^verbatim>\<open>unique\<close>, \<^verbatim>\<open>lower_bound\<close>, \<^verbatim>\<open>binary_search\<close>) are written out.  The abstraction is
  the set of the elements; \<open>lazy_set\<close> states what its clients rely on.  Move semantics and capacity
  are not observable and left out.
\<close>

section \<open>State and operations\<close>

record 'a vector_set =
  vs_container :: "'a list"
  vs_needUpdate :: bool

definition empty_set :: "'a vector_set" where
  "empty_set = \<lparr>vs_container = [], vs_needUpdate = False\<rparr>"

definition vs_update :: "('a::linorder) vector_set \<Rightarrow> 'a vector_set" where
  "vs_update s =
     (if \<not> vs_needUpdate s then s
      else s\<lparr>vs_needUpdate := False, vs_container := remdups_adj (sort (vs_container s))\<rparr>)"

text \<open>\<^verbatim>\<open>std::ranges::lower_bound\<close>: the index of the first element that is not less than \<open>v\<close>.\<close>

definition lower_bound :: "'a::linorder \<Rightarrow> 'a list \<Rightarrow> nat" where
  "lower_bound v xs = length (takeWhile (\<lambda>x. x < v) xs)"

definition vs_contains :: "'a::linorder \<Rightarrow> 'a vector_set \<Rightarrow> bool \<times> 'a vector_set" where
  "vs_contains v s =
     (let s1 = vs_update s; xs = vs_container s1; i = lower_bound v xs
      in (i < length xs \<and> \<not> v < xs ! i, s1))"

definition vs_erase :: "'a::linorder \<Rightarrow> 'a vector_set \<Rightarrow> bool \<times> 'a vector_set" where
  "vs_erase v s =
     (let s1 = vs_update s; xs = vs_container s1; i = lower_bound v xs in
      if i = length xs then (False, s1)
      else (True, s1\<lparr>vs_container := take i xs @ drop (i + 1) xs\<rparr>))"

definition vs_erase_if :: "('a::linorder \<Rightarrow> bool) \<Rightarrow> 'a vector_set \<Rightarrow> bool \<times> 'a vector_set" where
  "vs_erase_if f s =
     (let s1 = vs_update s; kept = filter (\<lambda>x. \<not> f x) (vs_container s1)
      in (length (vs_container s1) - length kept > 0, s1\<lparr>vs_container := kept\<rparr>))"

definition vs_insert :: "'a \<Rightarrow> 'a vector_set \<Rightarrow> 'a vector_set" where
  "vs_insert v s = s\<lparr>vs_needUpdate := True, vs_container := vs_container s @ [v]\<rparr>"

text \<open>\<open>insertAll\<close> of another set: the other set is updated by \<open>begin()\<close> before its range is copied.\<close>

definition vs_insertAll :: "'a::linorder vector_set \<Rightarrow> 'a vector_set \<Rightarrow> 'a vector_set" where
  "vs_insertAll other s =
     s\<lparr>vs_needUpdate := True, vs_container := vs_container s @ vs_container (vs_update other)\<rparr>"

definition vs_insertAll_list :: "'a list \<Rightarrow> 'a vector_set \<Rightarrow> 'a vector_set" where
  "vs_insertAll_list xs s = s\<lparr>vs_needUpdate := True, vs_container := vs_container s @ xs\<rparr>"

text \<open>Insertion at an iterator; an iterator past the end is undefined.\<close>

definition vs_insert_at :: "nat \<Rightarrow> 'a list \<Rightarrow> 'a vector_set \<Rightarrow> 'a vector_set option" where
  "vs_insert_at i vs s =
     (if i \<le> length (vs_container s) then
        Some (s\<lparr>vs_needUpdate := True,
          vs_container := take i (vs_container s) @ vs @ drop i (vs_container s)\<rparr>)
      else None)"

definition vs_empty :: "'a vector_set \<Rightarrow> bool" where
  "vs_empty s \<longleftrightarrow> vs_container s = []"

definition vs_size :: "'a::linorder vector_set \<Rightarrow> nat \<times> 'a vector_set" where
  "vs_size s = (let s1 = vs_update s in (length (vs_container s1), s1))"

definition vs_clear :: "'a vector_set \<Rightarrow> 'a vector_set" where
  "vs_clear s = s\<lparr>vs_container := []\<rparr>"

definition vs_data :: "'a::linorder vector_set \<Rightarrow> 'a list \<times> 'a vector_set" where
  "vs_data s = (let s1 = vs_update s in (vs_container s1, s1))"

definition vs_index :: "nat \<Rightarrow> 'a::linorder vector_set \<Rightarrow> ('a \<times> 'a vector_set) option" where
  "vs_index i s =
     (let s1 = vs_update s in
      if i < length (vs_container s1) then Some (vs_container s1 ! i, s1) else None)"

section \<open>Invariant and abstraction\<close>

definition vs_wf :: "'a::linorder vector_set \<Rightarrow> bool" where
  "vs_wf s \<longleftrightarrow> vs_needUpdate s \<or> sorted_wrt (<) (vs_container s)"

definition vs_set :: "'a vector_set \<Rightarrow> 'a set" where
  "vs_set s = set (vs_container s)"

lemma remdups_adj_sorted: "sorted xs \<Longrightarrow> sorted_wrt (<) (remdups_adj xs)"
  by (induction xs rule: remdups_adj.induct) (auto simp: less_le)

lemma vs_update_wf:
  "vs_wf s \<Longrightarrow> sorted_wrt (<) (vs_container (vs_update s))"
  "\<not> vs_needUpdate (vs_update s)"
  by (auto simp: vs_wf_def vs_update_def remdups_adj_sorted)

lemma vs_update_set [simp]: "vs_set (vs_update s) = vs_set s" "set (vs_container (vs_update s)) = vs_set s"
  by (auto simp: vs_set_def vs_update_def)

lemma vs_update_keeps: "vs_wf s \<Longrightarrow> vs_wf (vs_update s)"
  by (simp add: vs_wf_def vs_update_wf)

text \<open>On a strictly sorted vector \<open>lower_bound\<close> splits off exactly the smaller elements.\<close>

lemma lower_bound_le: "lower_bound v xs \<le> length xs"
  by (simp add: lower_bound_def length_takeWhile_le)

lemma lower_bound_split:
  assumes "sorted_wrt (<) xs"
  shows "take (lower_bound v xs) xs = filter (\<lambda>x. x < v) xs"
    and "drop (lower_bound v xs) xs = filter (\<lambda>x. v \<le> x) xs"
proof -
  have "take (lower_bound v xs) xs = filter (\<lambda>x. x < v) xs \<and>
      drop (lower_bound v xs) xs = filter (\<lambda>x. v \<le> x) xs"
    using assms
  proof (induction xs)
    case (Cons x xs)
    show ?case
    proof (cases "x < v")
      case True
      with Cons show ?thesis by (auto simp: lower_bound_def not_le)
    next
      case False
      with Cons.prems have "\<forall>y \<in> set xs. \<not> y < v" by auto
      with False show ?thesis
        by (simp add: lower_bound_def not_less filter_empty_conv)
    qed
  qed (simp add: lower_bound_def)
  then show "take (lower_bound v xs) xs = filter (\<lambda>x. x < v) xs"
    "drop (lower_bound v xs) xs = filter (\<lambda>x. v \<le> x) xs" by simp_all
qed

lemma binary_search_mem:
  assumes "sorted_wrt (<) xs"
  shows "lower_bound v xs < length xs \<and> \<not> v < xs ! lower_bound v xs \<longleftrightarrow> v \<in> set xs"
proof (cases "drop (lower_bound v xs) xs")
  case Nil
  with lower_bound_split(2) [OF assms, of v] have "filter (\<lambda>x. v \<le> x) xs = []" by simp
  with Nil show ?thesis by (auto simp: filter_empty_conv)
next
  case (Cons y ys)
  then have y: "lower_bound v xs < length xs" "xs ! lower_bound v xs = y"
    by (metis drop_all not_le list.distinct(1), metis nth_via_drop)
  have f: "filter (\<lambda>x. v \<le> x) xs = y # ys"
    using lower_bound_split(2) [OF assms, of v] Cons by simp
  then have "v \<le> y" by (metis filter_eq_ConsD)
  moreover have "\<forall>z \<in> set ys. y < z"
    using sorted_wrt_drop [OF assms, of "lower_bound v xs"] Cons by simp
  moreover have "v \<in> set xs \<longleftrightarrow> v \<in> set (filter (\<lambda>x. v \<le> x) xs)" by simp
  ultimately show ?thesis using y f by auto
qed

section \<open>The operations refine the operations of a set\<close>

lemma vs_contains_set:
  assumes "vs_wf s" and "vs_contains v s = (b, s')"
  shows "b = (v \<in> vs_set s)" and "vs_wf s'" and "vs_set s' = vs_set s"
  using assms binary_search_mem [OF vs_update_wf(1) [OF assms(1)], of v]
  by (auto simp: vs_contains_def Let_def vs_update_keeps)

lemma vs_insert_set: "vs_wf (vs_insert v s)" "vs_set (vs_insert v s) = insert v (vs_set s)"
  by (auto simp: vs_wf_def vs_set_def vs_insert_def)

lemma vs_insertAll_set:
  "vs_wf (vs_insertAll t s)" "vs_set (vs_insertAll t s) = vs_set s \<union> vs_set t"
  "vs_wf (vs_insertAll_list xs s)" "vs_set (vs_insertAll_list xs s) = vs_set s \<union> set xs"
  using vs_update_set(2) [of t]
  by (auto simp: vs_wf_def vs_insertAll_def vs_insertAll_list_def vs_set_def)

lemma vs_insert_at_set:
  assumes "vs_insert_at i vs s = Some s'"
  shows "vs_wf s'" and "vs_set s' = vs_set s \<union> set vs"
proof -
  let ?c = "vs_container s"
  have "set ?c = set (take i ?c) \<union> set (drop i ?c)"
    by (metis append_take_drop_id set_append)
  then have "set (take i ?c @ vs @ drop i ?c) = set ?c \<union> set vs" by (simp only: set_append) blast
  moreover have "s' = s\<lparr>vs_needUpdate := True, vs_container := take i ?c @ vs @ drop i ?c\<rparr>"
    using assms by (simp add: vs_insert_at_def split: if_splits)
  ultimately show "vs_wf s'" "vs_set s' = vs_set s \<union> set vs"
    by (simp_all add: vs_wf_def vs_set_def del: set_append)
qed

lemma vs_erase_if_set:
  assumes "vs_wf s" and "vs_erase_if f s = (b, s')"
  shows "b = (\<exists>x \<in> vs_set s. f x)" and "vs_wf s'" and "vs_set s' = {x \<in> vs_set s. \<not> f x}"
proof -
  let ?xs = "vs_container (vs_update s)"
  have "sorted_wrt (<) ?xs" using vs_update_wf(1) [OF assms(1)] .
  then show "vs_wf s'"
    using assms(2) by (auto simp: vs_erase_if_def Let_def vs_wf_def sorted_wrt_filter)
  show "vs_set s' = {x \<in> vs_set s. \<not> f x}"
    using assms(2) vs_update_set(2) [of s] by (auto simp: vs_erase_if_def Let_def vs_set_def)
  show "b = (\<exists>x \<in> vs_set s. f x)"
    using assms(2) filter_shrinks [of "\<lambda>x. \<not> f x" ?xs] by (auto simp: vs_erase_if_def Let_def)
qed

lemma vs_size_set:
  assumes "vs_wf s" and "vs_size s = (n, s')"
  shows "n = card (vs_set s)" and "vs_wf s'" and "vs_set s' = vs_set s"
  using assms vs_update_wf(1) [OF assms(1)] vs_update_keeps [OF assms(1)]
    distinct_card [of "vs_container (vs_update s)"]
  by (auto simp: vs_size_def Let_def strict_sorted_iff)

lemma vs_data_set:
  assumes "vs_wf s" and "vs_data s = (xs, s')"
  shows "xs = sorted_list_of_set (vs_set s)" and "vs_wf s'" and "vs_set s' = vs_set s"
proof -
  have "sorted_wrt (<) xs" "set xs = vs_set s"
    using assms vs_update_wf(1) by (auto simp: vs_data_def Let_def)
  then show "xs = sorted_list_of_set (vs_set s)"
    by (metis sorted_list_of_set.idem_if_sorted_distinct strict_sorted_iff)
qed (use assms vs_update_keeps in \<open>auto simp: vs_data_def Let_def\<close>)

lemma vs_empty_set: "vs_empty s \<longleftrightarrow> vs_set s = {}"
  by (simp add: vs_empty_def vs_set_def)

lemma vs_clear_set: "vs_wf s \<Longrightarrow> vs_wf (vs_clear s)" "vs_set (vs_clear s) = {}"
  by (auto simp: vs_wf_def vs_clear_def vs_set_def)

text \<open>
  \<open>erase\<close> removes the element at \<open>lower_bound\<close> without testing that it equals the key: a key that is
  not in the set takes the least larger element with it.
\<close>

lemma vs_erase_set:
  assumes "vs_wf s" and "vs_erase v s = (b, s')"
  shows "b = (\<exists>x \<in> vs_set s. v \<le> x)" and "vs_wf s'"
    and "vs_set s' = vs_set s - (if b then {Min {x \<in> vs_set s. v \<le> x}} else {})"
proof -
  let ?xs = "vs_container (vs_update s)" and ?i = "lower_bound v (vs_container (vs_update s))"
  have srt: "sorted_wrt (<) ?xs" using vs_update_wf(1) [OF assms(1)] .
  note split = lower_bound_split [OF srt, of v]
  have set: "set ?xs = vs_set s" by simp
  have all: "b = (\<exists>x \<in> vs_set s. v \<le> x) \<and> vs_wf s' \<and>
      vs_set s' = vs_set s - (if b then {Min {x \<in> vs_set s. v \<le> x}} else {})"
  proof (cases "drop ?i ?xs")
    case Nil
    then have "?i = length ?xs" using lower_bound_le [of v ?xs] by simp
    moreover have "filter (\<lambda>x. v \<le> x) ?xs = []" using split(2) Nil by simp
    ultimately show ?thesis
      using assms(2) vs_update_keeps [OF assms(1)] set
      by (auto simp: vs_erase_def Let_def filter_empty_conv)
  next
    case (Cons y ys)
    then have "?i \<noteq> length ?xs" by auto
    moreover have d: "drop (?i + 1) ?xs = ys" using Cons by (metis add.commute drop_drop drop_0 drop_Suc_Cons plus_1_eq_Suc)
    ultimately have b: "b" "s' = (vs_update s)\<lparr>vs_container := take ?i ?xs @ ys\<rparr>"
      using assms(2) by (auto simp: vs_erase_def Let_def)
    have xs: "?xs = take ?i ?xs @ y # ys" using Cons by (metis append_take_drop_id)
    have s2: "sorted_wrt (<) (take ?i ?xs @ y # ys)" using srt xs by simp
    have f: "filter (\<lambda>x. v \<le> x) ?xs = y # ys" using split(2) Cons by simp
    have "{x \<in> vs_set s. v \<le> x} = set (y # ys)"
      using f set by (metis Collect_cong set_filter)
    moreover have "Min (set (y # ys)) = y"
      using s2 by (intro Min_eqI) (auto simp: sorted_wrt_append intro: less_imp_le)
    ultimately have m: "Min {x \<in> vs_set s. v \<le> x} = y" "\<exists>x \<in> vs_set s. v \<le> x" by auto
    have "set (take ?i ?xs @ ys) = set ?xs - {y}"
      using s2 by (subst (2) xs) (auto simp: sorted_wrt_append)
    then have "vs_set s' = vs_set s - {y}" using b(2) set by (simp add: vs_set_def)
    moreover have "vs_wf s'"
      using s2 b(2) by (auto simp: vs_wf_def sorted_wrt_append)
    ultimately show ?thesis using b(1) m by simp
  qed
  then show "b = (\<exists>x \<in> vs_set s. v \<le> x)" "vs_wf s'"
    "vs_set s' = vs_set s - (if b then {Min {x \<in> vs_set s. v \<le> x}} else {})" by blast+
qed

section \<open>The contract of a set, over runs\<close>

text \<open>What a client may ask of a set, and a run of such requests with the answers.\<close>

datatype 'a set_request = Insert 'a | Contains 'a | EraseIf "'a \<Rightarrow> bool"

fun run_requests ::
  "('a \<Rightarrow> 's \<Rightarrow> 's) \<Rightarrow> ('a \<Rightarrow> 's \<Rightarrow> bool \<times> 's) \<Rightarrow> (('a \<Rightarrow> bool) \<Rightarrow> 's \<Rightarrow> bool \<times> 's) \<Rightarrow>
   'a set_request list \<Rightarrow> 's \<Rightarrow> bool list \<times> 's" where
  "run_requests ins has del [] s = ([], s)"
| "run_requests ins has del (Insert v # rs) s = run_requests ins has del rs (ins v s)"
| "run_requests ins has del (Contains v # rs) s =
     (case has v s of (b, s1) \<Rightarrow> (case run_requests ins has del rs s1 of (bs, s2) \<Rightarrow> (b # bs, s2)))"
| "run_requests ins has del (EraseIf f # rs) s =
     (case del f s of (b, s1) \<Rightarrow> (case run_requests ins has del rs s1 of (bs, s2) \<Rightarrow> (b # bs, s2)))"

abbreviation run_on_set :: "'a set_request list \<Rightarrow> 'a set \<Rightarrow> bool list \<times> 'a set" where
  "run_on_set \<equiv> run_requests insert (\<lambda>v A. (v \<in> A, A)) (\<lambda>f A. (\<exists>x \<in> A. f x, {x \<in> A. \<not> f x}))"

locale lazy_set =
  fixes inv :: "'s \<Rightarrow> bool" and abs :: "'s \<Rightarrow> 'a set"
    and ins :: "'a \<Rightarrow> 's \<Rightarrow> 's" and has :: "'a \<Rightarrow> 's \<Rightarrow> bool \<times> 's"
    and del :: "('a \<Rightarrow> bool) \<Rightarrow> 's \<Rightarrow> bool \<times> 's"
  assumes ins_ok: "inv s \<Longrightarrow> inv (ins v s) \<and> abs (ins v s) = insert v (abs s)"
    and has_ok: "inv s \<Longrightarrow> has v s = (b, s') \<Longrightarrow> b = (v \<in> abs s) \<and> inv s' \<and> abs s' = abs s"
    and del_ok: "inv s \<Longrightarrow> del f s = (b, s') \<Longrightarrow>
      b = (\<exists>x \<in> abs s. f x) \<and> inv s' \<and> abs s' = {x \<in> abs s. \<not> f x}"
begin

lemma run_refines:
  "inv s \<Longrightarrow> run_requests ins has del rs s = (bs, s') \<Longrightarrow>
   run_on_set rs (abs s) = (bs, abs s') \<and> inv s'"
proof (induction rs arbitrary: s bs s')
  case (Cons r rs)
  show ?case
  proof (cases r)
    case (Insert v)
    with Cons.IH [of "ins v s" bs s'] ins_ok [OF Cons.prems(1), of v] Cons.prems(2) show ?thesis by simp
  next
    case (Contains v)
    with Cons.prems obtain b s1 bs1 where h: "has v s = (b, s1)" "run_requests ins has del rs s1 = (bs1, s')"
      "bs = b # bs1" by (auto split: prod.splits)
    from has_ok [OF Cons.prems(1) h(1)] Cons.IH [OF _ h(2)] h Contains show ?thesis by simp
  next
    case (EraseIf f)
    with Cons.prems obtain b s1 bs1 where h: "del f s = (b, s1)" "run_requests ins has del rs s1 = (bs1, s')"
      "bs = b # bs1" by (auto split: prod.splits)
    from del_ok [OF Cons.prems(1) h(1)] Cons.IH [OF _ h(2)] h EraseIf show ?thesis by simp
  qed
qed simp

end

interpretation vs: lazy_set vs_wf vs_set vs_insert vs_contains vs_erase_if
  by unfold_locales (auto dest: vs_contains_set vs_erase_if_set simp: vs_insert_set)

section \<open>Properties\<close>

text \<open>C9: Sorting and removing duplicates only when the container is next read is not observable: every
  sequence of insertions, membership tests and conditional removals on a fresh container gives the
  answers a mathematical set gives, and leaves exactly its elements.\<close>

theorem vector_set_is_a_set:
  "(case run_requests vs_insert vs_contains vs_erase_if rs empty_set of (bs, s) \<Rightarrow> (bs, vs_set s))
     = run_on_set rs {}"
proof -
  obtain bs s where r: "run_requests vs_insert vs_contains vs_erase_if rs empty_set = (bs, s)"
    by fastforce
  have e: "vs_wf (empty_set :: 'a vector_set)" "vs_set (empty_set :: 'a vector_set) = {}"
    by (simp_all add: vs_wf_def vs_set_def empty_set_def)
  from vs.run_refines [OF e(1) r] r e(2) show ?thesis by simp
qed

text \<open>The defect of \<open>erase\<close>: it reports success and removes the least element that is not smaller
  than its argument, whether or not that element is the argument.\<close>

theorem erase_removes_lower_bound:
  assumes "vs_wf s"
  shows "fst (vs_erase v s) = (\<exists>x \<in> vs_set s. v \<le> x) \<and> vs_wf (snd (vs_erase v s)) \<and>
    vs_set (snd (vs_erase v s)) =
      (if \<exists>x \<in> vs_set s. v \<le> x then vs_set s - {Min {x \<in> vs_set s. v \<le> x}} else vs_set s)"
  using vs_erase_set [OF assms prod.collapse [symmetric], of v] by simp

theorem erase_removes_lower_bound_witness:
  "fst (vs_erase 3 (vs_insert 5 (vs_insert (1 :: nat) empty_set))) \<and>
   vs_set (snd (vs_erase 3 (vs_insert 5 (vs_insert (1 :: nat) empty_set)))) = {1}"
proof -
  let ?s = "vs_insert 5 (vs_insert (1 :: nat) empty_set)"
  have *: "vs_set ?s = {5, 1}" by (simp add: vs_insert_set) (simp add: vs_set_def empty_set_def)
  moreover have "{x. (x = 5 \<or> x = 1) \<and> 3 \<le> x} = {5 :: nat}" by auto
  ultimately show ?thesis
    using erase_removes_lower_bound [of ?s 3] by (simp add: vs_insert_set)
qed

end
