(* ===== verification/Array_List.thy ===== *)
theory Array_List
  imports Prelude
begin

text \<open>
  \<^verbatim>\<open>src/utils/arraylist.hpp\<close>: a sequence kept as two vectors, the front one in reverse, that are
  joined when the sequence is next read.  References returned by \<open>front\<close>, \<open>back\<close> and \<open>operator[]\<close>
  are the values read; a call that is undefined in C++ (on an empty vector, past the end, a reversed
  range) is \<open>None\<close>.  The abstraction is the list from front to back; \<open>deque\<close> is the contract.
\<close>

section \<open>State and operations\<close>

record 'a arraylist =
  backContainer :: "'a list"
  frontContainer :: "'a list"
  al_needUpdate :: bool

definition new_arraylist :: "'a list \<Rightarrow> 'a arraylist" where
  "new_arraylist xs = \<lparr>backContainer = xs, frontContainer = [], al_needUpdate = False\<rparr>"

definition al_assign :: "'a list \<Rightarrow> 'a arraylist \<Rightarrow> 'a arraylist" where
  "al_assign xs l = l\<lparr>backContainer := xs\<rparr>"

definition al_update :: "'a arraylist \<Rightarrow> 'a arraylist" where
  "al_update l =
     (if \<not> al_needUpdate l then l
      else let front = rev (frontContainer l) @ backContainer l
           in l\<lparr>al_needUpdate := False, backContainer := front, frontContainer := []\<rparr>)"

definition al_contains :: "'a \<Rightarrow> 'a arraylist \<Rightarrow> bool \<times> 'a arraylist" where
  "al_contains v l = (let l1 = al_update l in (v \<in> set (backContainer l1), l1))"

definition al_erase :: "'a \<Rightarrow> 'a arraylist \<Rightarrow> bool \<times> 'a arraylist" where
  "al_erase v l =
     (let l1 = al_update l in
      if v \<notin> set (backContainer l1) then (False, l1)
      else (True, l1\<lparr>backContainer := remove1 v (backContainer l1)\<rparr>))"

definition al_empty :: "'a arraylist \<Rightarrow> bool" where
  "al_empty l \<longleftrightarrow> backContainer l = [] \<and> frontContainer l = []"

definition al_size :: "'a arraylist \<Rightarrow> nat" where
  "al_size l = length (backContainer l) + length (frontContainer l)"

definition al_erase_range :: "nat \<Rightarrow> nat \<Rightarrow> 'a arraylist \<Rightarrow> (bool \<times> 'a arraylist) option" where
  "al_erase_range b e l =
     (let l1 = al_update l; xs = backContainer l1 in
      if b > al_size l1 \<or> e > al_size l1 then Some (False, l1)
      else if b \<le> e \<and> e \<le> length xs then Some (True, l1\<lparr>backContainer := take b xs @ drop e xs\<rparr>)
      else None)"

definition al_erase_if :: "('a \<Rightarrow> bool) \<Rightarrow> 'a arraylist \<Rightarrow> bool \<times> 'a arraylist" where
  "al_erase_if f l =
     (let l1 = al_update l; kept = filter (\<lambda>x. \<not> f x) (backContainer l1)
      in (length (backContainer l1) - length kept > 0, l1\<lparr>backContainer := kept\<rparr>))"

definition al_front :: "'a arraylist \<Rightarrow> ('a \<times> 'a arraylist) option" where
  "al_front l =
     (let l1 = al_update l in
      case backContainer l1 of [] \<Rightarrow> None | x # xs \<Rightarrow> Some (x, l1))"

definition al_pop_back :: "'a arraylist \<Rightarrow> 'a arraylist option" where
  "al_pop_back l =
     (let l1 = al_update l in
      if backContainer l1 = [] then None
      else Some (l1\<lparr>backContainer := butlast (backContainer l1)\<rparr>))"

definition al_back :: "'a arraylist \<Rightarrow> ('a \<times> 'a arraylist) option" where
  "al_back l =
     (let l1 = al_update l in
      if backContainer l1 = [] then None else Some (last (backContainer l1), l1))"

definition al_push_front :: "'a \<Rightarrow> 'a arraylist \<Rightarrow> 'a arraylist" where
  "al_push_front v l = l\<lparr>al_needUpdate := True, frontContainer := frontContainer l @ [v]\<rparr>"

definition al_push_back :: "'a \<Rightarrow> 'a arraylist \<Rightarrow> 'a arraylist" where
  "al_push_back v l = l\<lparr>backContainer := backContainer l @ [v]\<rparr>"

definition al_clear :: "'a arraylist \<Rightarrow> 'a arraylist" where
  "al_clear l = l\<lparr>frontContainer := [], backContainer := []\<rparr>"

definition al_data :: "'a arraylist \<Rightarrow> 'a list \<times> 'a arraylist" where
  "al_data l = (let l1 = al_update l in (backContainer l1, l1))"

definition al_index :: "nat \<Rightarrow> 'a arraylist \<Rightarrow> ('a \<times> 'a arraylist) option" where
  "al_index i l =
     (let l1 = al_update l in
      if i < length (backContainer l1) then Some (backContainer l1 ! i, l1) else None)"

section \<open>Invariant and abstraction\<close>

definition al_wf :: "'a arraylist \<Rightarrow> bool" where
  "al_wf l \<longleftrightarrow> al_needUpdate l \<or> frontContainer l = []"

definition al_list :: "'a arraylist \<Rightarrow> 'a list" where
  "al_list l = rev (frontContainer l) @ backContainer l"

lemmas al_defs = al_wf_def al_list_def

lemma al_update_list:
  "al_list (al_update l) = al_list l"
  "al_wf l \<Longrightarrow> backContainer (al_update l) = al_list l \<and> frontContainer (al_update l) = [] \<and> al_wf (al_update l)"
  by (auto simp: al_update_def al_defs Let_def)

lemma al_push_list:
  "al_wf l \<Longrightarrow> al_wf (al_push_front v l)" "al_list (al_push_front v l) = v # al_list l"
  "al_wf l \<Longrightarrow> al_wf (al_push_back v l)" "al_list (al_push_back v l) = al_list l @ [v]"
  by (simp_all add: al_push_front_def al_push_back_def al_defs)

lemma al_empty_size: "al_empty l \<longleftrightarrow> al_list l = []" "al_size l = length (al_list l)"
  by (auto simp: al_empty_def al_size_def al_defs)

lemma al_set_back:
  "frontContainer l = [] \<Longrightarrow> al_list (l\<lparr>backContainer := xs\<rparr>) = xs \<and> al_wf (l\<lparr>backContainer := xs\<rparr>)"
  by (simp add: al_defs)

lemmas al_read_defs = al_contains_def al_erase_def al_erase_range_def al_erase_if_def al_front_def
  al_pop_back_def al_back_def al_data_def al_index_def Let_def

lemma al_contains_list:
  "al_wf l \<Longrightarrow> \<exists>l'. al_contains v l = (v \<in> set (al_list l), l') \<and> al_wf l' \<and> al_list l' = al_list l"
  using al_update_list [of l] by (simp add: al_read_defs)

lemma al_erase_list:
  "al_wf l \<Longrightarrow> \<exists>l'. al_erase v l = (v \<in> set (al_list l), l') \<and> al_wf l' \<and> al_list l' = remove1 v (al_list l)"
  using al_update_list [of l] al_set_back [of "al_update l"] by (auto simp: al_read_defs remove1_idem)

lemma al_erase_if_list:
  "al_wf l \<Longrightarrow> \<exists>l'. al_erase_if f l = (\<exists>x \<in> set (al_list l). f x, l') \<and> al_wf l' \<and>
     al_list l' = filter (\<lambda>x. \<not> f x) (al_list l)"
  using al_update_list [of l] al_set_back [of "al_update l"] filter_shrinks [of "\<lambda>x. \<not> f x" "al_list l"]
  by (simp add: al_read_defs)

lemma al_erase_range_list:
  "al_wf l \<Longrightarrow> b \<le> e \<Longrightarrow> e \<le> length (al_list l) \<Longrightarrow>
   \<exists>l'. al_erase_range b e l = Some (True, l') \<and> al_wf l' \<and> al_list l' = take b (al_list l) @ drop e (al_list l)"
  "al_wf l \<Longrightarrow> b > length (al_list l) \<or> e > length (al_list l) \<Longrightarrow>
   \<exists>l'. al_erase_range b e l = Some (False, l') \<and> al_wf l' \<and> al_list l' = al_list l"
  using al_update_list [of l] al_set_back [of "al_update l"] al_empty_size(2) [of "al_update l"]
  by (auto simp: al_read_defs)

lemma al_ends_list:
  "al_wf l \<Longrightarrow> al_list l \<noteq> [] \<Longrightarrow> \<exists>l'. al_front l = Some (hd (al_list l), l') \<and> al_wf l' \<and> al_list l' = al_list l"
  "al_wf l \<Longrightarrow> al_list l \<noteq> [] \<Longrightarrow> \<exists>l'. al_back l = Some (last (al_list l), l') \<and> al_wf l' \<and> al_list l' = al_list l"
  "al_wf l \<Longrightarrow> al_list l \<noteq> [] \<Longrightarrow> \<exists>l'. al_pop_back l = Some l' \<and> al_wf l' \<and> al_list l' = butlast (al_list l)"
  using al_update_list [of l] al_set_back [of "al_update l"]
  by (auto simp: al_read_defs split: list.splits)

lemma al_index_list:
  "al_wf l \<Longrightarrow> i < length (al_list l) \<Longrightarrow>
   \<exists>l'. al_index i l = Some (al_list l ! i, l') \<and> al_wf l' \<and> al_list l' = al_list l"
  "al_wf l \<Longrightarrow> \<exists>l'. al_data l = (al_list l, l') \<and> al_wf l' \<and> al_list l' = al_list l"
  using al_update_list [of l] by (auto simp: al_read_defs)

section \<open>The contract of a deque, over runs\<close>

datatype 'a deque_request = PushFront 'a | PushBack 'a | PopBack | Front | Back | At nat

fun deque_step ::
  "('a \<Rightarrow> 's \<Rightarrow> 's) \<Rightarrow> ('a \<Rightarrow> 's \<Rightarrow> 's) \<Rightarrow> ('s \<Rightarrow> 's option) \<Rightarrow> ('s \<Rightarrow> ('a \<times> 's) option) \<Rightarrow>
   ('s \<Rightarrow> ('a \<times> 's) option) \<Rightarrow> (nat \<Rightarrow> 's \<Rightarrow> ('a \<times> 's) option) \<Rightarrow>
   'a deque_request \<Rightarrow> 's \<Rightarrow> ('a list \<times> 's) option" where
  "deque_step pf pb pop fr bk idx (PushFront v) s = Some ([], pf v s)"
| "deque_step pf pb pop fr bk idx (PushBack v) s = Some ([], pb v s)"
| "deque_step pf pb pop fr bk idx PopBack s = map_option (Pair []) (pop s)"
| "deque_step pf pb pop fr bk idx Front s = map_option (apfst (\<lambda>x. [x])) (fr s)"
| "deque_step pf pb pop fr bk idx Back s = map_option (apfst (\<lambda>x. [x])) (bk s)"
| "deque_step pf pb pop fr bk idx (At i) s = map_option (apfst (\<lambda>x. [x])) (idx i s)"

fun run_steps :: "('r \<Rightarrow> 's \<Rightarrow> ('a list \<times> 's) option) \<Rightarrow> 'r list \<Rightarrow> 's \<Rightarrow> ('a list \<times> 's) option" where
  "run_steps step [] s = Some ([], s)"
| "run_steps step (r # rs) s =
     (case step r s of
        None \<Rightarrow> None
      | Some (xs, s1) \<Rightarrow> map_option (apfst ((@) xs)) (run_steps step rs s1))"

text \<open>The same requests on a list; reading an empty list or past its end is an error.\<close>

abbreviation list_step :: "'a deque_request \<Rightarrow> 'a list \<Rightarrow> ('a list \<times> 'a list) option" where
  "list_step \<equiv> deque_step (#) (\<lambda>v xs. xs @ [v])
     (\<lambda>xs. if xs = [] then None else Some (butlast xs))
     (\<lambda>xs. if xs = [] then None else Some (hd xs, xs))
     (\<lambda>xs. if xs = [] then None else Some (last xs, xs))
     (\<lambda>i xs. if i < length xs then Some (xs ! i, xs) else None)"

locale deque =
  fixes inv :: "'s \<Rightarrow> bool" and abs :: "'s \<Rightarrow> 'a list"
    and pf pb :: "'a \<Rightarrow> 's \<Rightarrow> 's" and pop :: "'s \<Rightarrow> 's option"
    and fr bk :: "'s \<Rightarrow> ('a \<times> 's) option" and idx :: "nat \<Rightarrow> 's \<Rightarrow> ('a \<times> 's) option"
  assumes step_ok: "inv s \<Longrightarrow> rel_option (\<lambda>(xs, s') (ys, l). xs = ys \<and> inv s' \<and> abs s' = l)
    (deque_step pf pb pop fr bk idx r s) (list_step r (abs s))"
begin

lemma run_refines:
  "inv s \<Longrightarrow> rel_option (\<lambda>(xs, s') (ys, l). xs = ys \<and> inv s' \<and> abs s' = l)
    (run_steps (deque_step pf pb pop fr bk idx) rs s) (run_steps list_step rs (abs s))"
proof (induction rs arbitrary: s)
  case (Cons r rs)
  show ?case
  proof (cases "deque_step pf pb pop fr bk idx r s")
    case None
    with step_ok [OF Cons.prems, of r] show ?thesis by simp
  next
    case (Some p)
    then obtain xs s1 where 1: "deque_step pf pb pop fr bk idx r s = Some (xs, s1)" by (cases p) auto
    with step_ok [OF Cons.prems, of r] have 2: "list_step r (abs s) = Some (xs, abs s1)" "inv s1"
      by (auto simp: option_rel_Some1)
    have "rel_option (\<lambda>(xs, s') (ys, l). xs = ys \<and> inv s' \<and> abs s' = l)
      (map_option (apfst ((@) xs)) (run_steps (deque_step pf pb pop fr bk idx) rs s1))
      (map_option (apfst ((@) xs)) (run_steps list_step rs (abs s1)))"
      using Cons.IH [OF 2(2)]
      by (simp add: option.rel_map) (erule option.rel_mono_strong, auto simp: apfst_def)
    then show ?thesis by (simp only: run_steps.simps 1 2(1) option.case prod.case)
  qed
qed simp

lemma run_answers:
  assumes "inv s"
  shows "map_option (apsnd abs) (run_steps (deque_step pf pb pop fr bk idx) rs s) = run_steps list_step rs (abs s)"
  using run_refines [OF assms, of rs]
  by (cases "run_steps (deque_step pf pb pop fr bk idx) rs s") (auto simp: option_rel_Some1)

end

lemma al_undefined:
  "al_wf l \<Longrightarrow> al_list l = [] \<Longrightarrow> al_front l = None \<and> al_back l = None \<and> al_pop_back l = None"
  "al_wf l \<Longrightarrow> \<not> i < length (al_list l) \<Longrightarrow> al_index i l = None"
  using al_update_list [of l] by (simp_all add: al_read_defs)

interpretation al: deque al_wf al_list al_push_front al_push_back al_pop_back al_front al_back al_index
proof
  fix l :: "'a arraylist" and r
  assume wf: "al_wf l"
  show "rel_option (\<lambda>(xs, s') (ys, l). xs = ys \<and> al_wf s' \<and> al_list s' = l)
    (deque_step al_push_front al_push_back al_pop_back al_front al_back al_index r l) (list_step r (al_list l))"
  proof (cases r)
    case PopBack
    then show ?thesis
      using al_ends_list(3) [OF wf] al_undefined(1) [OF wf] by (cases "al_list l = []") auto
  next
    case Front
    then show ?thesis
      using al_ends_list(1) [OF wf] al_undefined(1) [OF wf] by (cases "al_list l = []") auto
  next
    case Back
    then show ?thesis
      using al_ends_list(2) [OF wf] al_undefined(1) [OF wf] by (cases "al_list l = []") auto
  next
    case (At i)
    then show ?thesis
      using al_index_list(1) [OF wf, of i] al_undefined(2) [OF wf, of i]
      by (cases "i < length (al_list l)") auto
  qed (simp_all add: al_push_list wf)
qed

section \<open>Properties\<close>

text \<open>The two-vector sequence is a deque: every sequence of pushes at either end, pops and reads gives
  the answers a plain list gives, is undefined exactly where the list has no such element, and leaves
  the same list.\<close>

theorem arraylist_is_a_deque:
  "map_option (apsnd al_list)
     (run_steps (deque_step al_push_front al_push_back al_pop_back al_front al_back al_index) rs (new_arraylist xs))
   = run_steps list_step rs xs"
  using al.run_answers [of "new_arraylist xs" rs] by (simp add: al_defs new_arraylist_def)

text \<open>Searching, erasing a value, erasing by a predicate and erasing an ordered index range act on the
  sequence as on a list, and keep the invariant.\<close>

theorem arraylist_erasures:
  assumes "al_wf l"
  shows "(\<exists>l'. al_contains v l = (v \<in> set (al_list l), l') \<and> al_wf l' \<and> al_list l' = al_list l) \<and>
    (\<exists>l'. al_erase v l = (v \<in> set (al_list l), l') \<and> al_wf l' \<and> al_list l' = remove1 v (al_list l)) \<and>
    (\<exists>l'. al_erase_if f l = (\<exists>x \<in> set (al_list l). f x, l') \<and> al_wf l' \<and>
       al_list l' = filter (\<lambda>x. \<not> f x) (al_list l)) \<and>
    (if b \<le> e \<and> e \<le> length (al_list l)
     then \<exists>l'. al_erase_range b e l = Some (True, l') \<and> al_wf l' \<and>
       al_list l' = take b (al_list l) @ drop e (al_list l)
     else if b > length (al_list l) \<or> e > length (al_list l)
     then \<exists>l'. al_erase_range b e l = Some (False, l') \<and> al_wf l' \<and> al_list l' = al_list l
     else al_erase_range b e l = None)"
proof (intro conjI)
  have "al_erase_range b e l = None" if "e < b" "b \<le> length (al_list l)"
    using that assms al_update_list [of l] al_empty_size(2) [of "al_update l"] by (simp add: al_read_defs)
  then show "if b \<le> e \<and> e \<le> length (al_list l)
     then \<exists>l'. al_erase_range b e l = Some (True, l') \<and> al_wf l' \<and>
       al_list l' = take b (al_list l) @ drop e (al_list l)
     else if b > length (al_list l) \<or> e > length (al_list l)
     then \<exists>l'. al_erase_range b e l = Some (False, l') \<and> al_wf l' \<and> al_list l' = al_list l
     else al_erase_range b e l = None"
    using al_erase_range_list [OF assms, of b e] by auto
qed (rule al_contains_list [OF assms] al_erase_list [OF assms] al_erase_if_list [OF assms])+

theorem arraylist_erasures_witness:
  "\<exists>l'. al_erase 3 (al_push_front 3 (new_arraylist [1 :: nat, 2])) = (True, l') \<and> al_list l' = [1, 2]"
proof -
  let ?l = "al_push_front 3 (new_arraylist [1 :: nat, 2])"
  have "al_wf ?l" "al_list ?l = [3, 1, 2]" by (simp_all add: al_defs al_push_front_def new_arraylist_def)
  then show ?thesis using arraylist_erasures [of ?l 3 "\<lambda>_. False" 0 0] by auto
qed

end
