(* ===== verification/Wildcard_Tree.thy ===== *)
theory Wildcard_Tree
  imports Prelude "HOL-Library.AList" "HOL-Library.Sublist"
begin

text \<open>
  \<^verbatim>\<open>src/utils/wildcardtree.cpp\<close>: the tree of the lower-case names of the players online, from which the
  game completes a name typed with a wildcard.  A node owns its children (each child has one parent), so
  a tree of values stands for the shared pointers; \<^verbatim>\<open>std::map\<close> is an association list with distinct
  keys, whose order the code never observes.  The pointer walks become recursion along the string, and
  the stack with which \<open>remove\<close> prunes becomes the way back from the recursion.  The lemmas show that the
  tree is the set of the names inserted and not removed, and that \<open>findOne\<close> decides whether there is
  none, exactly one or more than one name that completes the query.
\<close>

section \<open>Nodes and operations\<close>

datatype WildcardTreeNode = Node (breakpoint: bool) (children: "(char \<times> WildcardTreeNode) list")

datatype ReturnValue =
    RETURNVALUE_NOERROR | RETURNVALUE_PLAYERWITHTHISNAMEISNOTONLINE | RETURNVALUE_NAMEISTOOAMBIGUOUS

definition getChild :: "char \<Rightarrow> WildcardTreeNode \<Rightarrow> WildcardTreeNode option" where
  "getChild ch t = map_of (children t) ch"

definition put_child :: "char \<Rightarrow> WildcardTreeNode \<Rightarrow> WildcardTreeNode \<Rightarrow> WildcardTreeNode" where
  "put_child ch c t = Node (breakpoint t) (AList.update ch c (children t))"

text \<open>The child that \<open>addChild\<close> returns, already linked into its parent.\<close>

definition addChild :: "char \<Rightarrow> bool \<Rightarrow> WildcardTreeNode \<Rightarrow> WildcardTreeNode \<times> WildcardTreeNode" where
  "addChild ch breakp t =
     (let child = (case getChild ch t of
          Some c \<Rightarrow> if breakp \<and> \<not> breakpoint c then Node True (children c) else c
        | None \<Rightarrow> Node breakp [])
      in (child, put_child ch child t))"

fun insert_at :: "char \<Rightarrow> string \<Rightarrow> WildcardTreeNode \<Rightarrow> WildcardTreeNode" where
  "insert_at ch [] t = snd (addChild ch True t)"
| "insert_at ch (d # str) t =
     (case addChild ch False t of (child, t1) \<Rightarrow> put_child ch (insert_at d str child) t1)"

text \<open>On the empty string the loop bound \<^verbatim>\<open>str.length() - 1\<close> wraps and reads past the string.\<close>

definition wt_insert :: "string \<Rightarrow> WildcardTreeNode \<Rightarrow> WildcardTreeNode option" where
  "wt_insert str t = (case str of [] \<Rightarrow> None | ch # str' \<Rightarrow> Some (insert_at ch str' t))"

text \<open>\<open>None\<close> is the early return of a string that leaves the tree.\<close>

fun remove_at :: "string \<Rightarrow> WildcardTreeNode \<Rightarrow> WildcardTreeNode option" where
  "remove_at [] t = Some (Node False (children t))"
| "remove_at (ch # str) t =
     (case getChild ch t of
        None \<Rightarrow> None
      | Some c \<Rightarrow>
          (case remove_at str c of
             None \<Rightarrow> None
           | Some c1 \<Rightarrow>
               if children c1 = [] \<and> \<not> breakpoint c1
               then Some (Node (breakpoint t) (AList.delete ch (children t)))
               else Some (put_child ch c1 t)))"

definition wt_remove :: "string \<Rightarrow> WildcardTreeNode \<Rightarrow> WildcardTreeNode" where
  "wt_remove str t = (case remove_at str t of None \<Rightarrow> t | Some t1 \<Rightarrow> t1)"

fun walk :: "string \<Rightarrow> WildcardTreeNode \<Rightarrow> WildcardTreeNode option" where
  "walk [] t = Some t"
| "walk (ch # str) t = (case getChild ch t of None \<Rightarrow> None | Some c \<Rightarrow> walk str c)"

fun complete :: "WildcardTreeNode \<Rightarrow> string \<Rightarrow> ReturnValue \<times> string" where
  "complete (Node b cs) result =
     (case cs of
        [] \<Rightarrow> (RETURNVALUE_NOERROR, result)
      | [(ch, c)] \<Rightarrow>
          if b then (RETURNVALUE_NAMEISTOOAMBIGUOUS, result) else complete c (result @ [ch])
      | _ # _ # _ \<Rightarrow> (RETURNVALUE_NAMEISTOOAMBIGUOUS, result))"

text \<open>The second parameter and the second result are the output parameter \<open>result\<close>.\<close>

definition findOne :: "string \<Rightarrow> string \<Rightarrow> WildcardTreeNode \<Rightarrow> ReturnValue \<times> string" where
  "findOne query result t =
     (case walk query t of
        None \<Rightarrow> (RETURNVALUE_PLAYERWITHTHISNAMEISNOTONLINE, result)
      | Some u \<Rightarrow> complete u query)"

section \<open>The set of names and the invariant\<close>

definition has_name :: "string \<Rightarrow> WildcardTreeNode \<Rightarrow> bool" where
  "has_name s t = (case walk s t of None \<Rightarrow> False | Some u \<Rightarrow> breakpoint u)"

definition names :: "WildcardTreeNode \<Rightarrow> string set" where
  "names t = {s. has_name s t}"

definition live :: "WildcardTreeNode \<Rightarrow> bool" where
  "live t \<longleftrightarrow> breakpoint t \<or> children t \<noteq> []"

fun wt_wf :: "WildcardTreeNode \<Rightarrow> bool" where
  "wt_wf (Node b cs) \<longleftrightarrow> distinct (map fst cs) \<and> (\<forall>p \<in> set cs. wt_wf (snd p) \<and> live (snd p))"

lemma has_name_simps [simp]:
  "has_name [] t = breakpoint t"
  "has_name (ch # s) t = (case getChild ch t of None \<Rightarrow> False | Some c \<Rightarrow> has_name s c)"
  by (auto simp: has_name_def split: option.splits)

lemma getChild_put [simp]:
  "getChild d (put_child ch c t) = (if d = ch then Some c else getChild d t)"
  by (simp add: getChild_def put_child_def update_conv')

lemma getChild_delete:
  "getChild d (Node b (AList.delete ch cs)) = (if d = ch then None else getChild d (Node b cs))"
  by (simp add: getChild_def delete_conv')

lemma getChild_Node [simp]: "getChild d (Node b (children t)) = getChild d t"
  by (simp add: getChild_def)

lemma put_child_simps [simp]: "breakpoint (put_child ch c t) = breakpoint t" "children (put_child ch c t) \<noteq> []"
proof -
  have "map_of (AList.update ch c (children t)) ch = Some c" by (simp add: update_conv')
  then show "children (put_child ch c t) \<noteq> []" by (auto simp: put_child_def)
qed (simp add: put_child_def)

lemma live_put_child [simp]: "live (put_child ch c t)"
  by (simp add: live_def)

lemma wt_wf_child: "wt_wf t \<Longrightarrow> getChild ch t = Some c \<Longrightarrow> wt_wf c \<and> live c"
  by (cases t) (force simp: getChild_def dest: map_of_SomeD)

lemma set_update_subset: "set (AList.update k v al) \<subseteq> insert (k, v) (set al)"
  by (induction al) auto

lemma wt_wf_put: "wt_wf t \<Longrightarrow> wt_wf c \<Longrightarrow> live c \<Longrightarrow> wt_wf (put_child ch c t)"
  using set_update_subset [of ch c "children t"]
  by (cases t) (auto simp: put_child_def distinct_update)

lemma set_delete_subset: "set (AList.delete k al) \<subseteq> set al"
  by (induction al) auto

lemma wt_wf_delete: "wt_wf t \<Longrightarrow> wt_wf (Node b (AList.delete ch (children t)))"
  using set_delete_subset [of ch "children t"]
  by (cases t) (auto simp: distinct_delete)

text \<open>A live node has a name, and a node with two ways on has two.\<close>

lemma getChild_mem: "wt_wf t \<Longrightarrow> (ch, c) \<in> set (children t) \<Longrightarrow> getChild ch t = Some c"
  by (cases t) (simp add: getChild_def)

lemma live_has_name: "wt_wf t \<Longrightarrow> live t \<Longrightarrow> \<exists>s. has_name s t"
proof (induction t rule: wt_wf.induct)
  case (1 b cs)
  show ?case
  proof (cases b)
    case True
    then have "has_name [] (Node b cs)" by simp
    then show ?thesis by blast
  next
    case False
    then obtain ch c cs' where cs: "cs = (ch, c) # cs'" using 1(3) by (cases cs) (auto simp: live_def)
    then have "wt_wf c" "live c" "getChild ch (Node b cs) = Some c" using 1(2) by (auto simp: getChild_def)
    then obtain s where "has_name s c" using 1(1) [of "(ch, c)"] cs by auto
    with \<open>getChild ch (Node b cs) = Some c\<close> have "has_name (ch # s) (Node b cs)" by simp
    then show ?thesis by blast
  qed
qed

section \<open>Insertion and removal\<close>

lemma has_name_fresh: "has_name s (Node b []) \<longleftrightarrow> b \<and> s = []"
  by (cases s) (simp_all add: getChild_def)

lemma has_name_marked: "has_name s (Node True (children c)) \<longleftrightarrow> s = [] \<or> has_name s c"
  by (cases s) simp_all

lemma wt_wf_marked: "wt_wf c \<Longrightarrow> wt_wf (Node b (children c))"
  by (cases c) simp

lemma addChild_child:
  assumes "wt_wf t" and "addChild ch b t = (c, t1)"
  shows "t1 = put_child ch c t" and "wt_wf c" and "b \<Longrightarrow> breakpoint c"
    and "has_name s c \<longleftrightarrow> (b \<and> s = []) \<or> has_name (ch # s) t"
proof -
  have "t1 = put_child ch c t \<and> wt_wf c \<and> (b \<longrightarrow> breakpoint c) \<and>
    (has_name s c \<longleftrightarrow> (b \<and> s = []) \<or> has_name (ch # s) t)"
  proof (cases "getChild ch t")
    case None
    with assms show ?thesis by (auto simp: addChild_def Let_def has_name_fresh)
  next
    case (Some c0)
    with wt_wf_child [OF assms(1) Some] assms(2) show ?thesis
      by (auto simp: addChild_def Let_def has_name_marked wt_wf_marked simp del: wt_wf.simps split: if_splits)
  qed
  then show "t1 = put_child ch c t" "wt_wf c" "b \<Longrightarrow> breakpoint c"
    "has_name s c \<longleftrightarrow> (b \<and> s = []) \<or> has_name (ch # s) t" by blast+
qed

lemma put_put: "put_child ch d (put_child ch c t) = put_child ch d t"
  by (simp add: put_child_def)

lemma insert_at_wf: "wt_wf t \<Longrightarrow> wt_wf (insert_at ch s t) \<and> children (insert_at ch s t) \<noteq> []"
proof (induction s arbitrary: ch t)
  case Nil
  obtain c t1 where a: "addChild ch True t = (c, t1)" by fastforce
  from addChild_child [OF Nil a] show ?case
    using Nil by (simp add: a wt_wf_put live_def)
next
  case (Cons d s)
  obtain c t1 where a: "addChild ch False t = (c, t1)" by fastforce
  note c = addChild_child [OF Cons.prems a]
  from Cons.IH [OF c(2), of d] have "wt_wf (insert_at d s c)" "live (insert_at d s c)"
    by (auto simp: live_def)
  then show ?case using Cons.prems c(1) by (simp add: a put_put wt_wf_put)
qed

lemma insert_at_breakpoint: "breakpoint (insert_at ch s t) = breakpoint t"
  by (cases s) (auto simp: addChild_def Let_def split: prod.splits)

lemma insert_at_names:
  "wt_wf t \<Longrightarrow> has_name r (insert_at ch s t) \<longleftrightarrow> r = ch # s \<or> has_name r t"
proof (induction s arbitrary: ch t r)
  case Nil
  obtain c t1 where a: "addChild ch True t = (c, t1)" by fastforce
  show ?case
    using addChild_child(1-3) [OF Nil a] addChild_child(4) [OF Nil a, of "tl r"] a by (cases r) auto
next
  case (Cons d s)
  obtain c t1 where a: "addChild ch False t = (c, t1)" by fastforce
  show ?case
    using addChild_child(1-3) [OF Cons.prems a] addChild_child(4) [OF Cons.prems a, of "tl r"] Cons.IH [of c "tl r" d] a
    by (cases r) auto
qed

lemma remove_at_wf:
  "wt_wf t \<Longrightarrow> remove_at s t = Some t1 \<Longrightarrow> wt_wf t1"
proof (induction s arbitrary: t t1)
  case Nil
  then show ?case by (auto simp: wt_wf_marked simp del: wt_wf.simps)
next
  case (Cons ch s)
  then obtain c c1 where c: "getChild ch t = Some c" "remove_at s c = Some c1"
    by (auto split: option.splits)
  then have "wt_wf c1" using Cons.IH wt_wf_child [OF Cons.prems(1)] by blast
  then show ?case
    using Cons.prems c wt_wf_put [of t c1 ch] wt_wf_delete [OF Cons.prems(1)]
    by (auto simp: live_def split: if_splits)
qed

lemma remove_at_names:
  "wt_wf t \<Longrightarrow> remove_at s t = Some t1 \<Longrightarrow> has_name r t1 \<longleftrightarrow> r \<noteq> s \<and> has_name r t"
proof (induction s arbitrary: t t1 r)
  case Nil
  then show ?case by (cases r) auto
next
  case (Cons ch s)
  then obtain c c1 where c: "getChild ch t = Some c" "remove_at s c = Some c1"
    by (auto split: option.splits)
  then have ih: "has_name q c1 \<longleftrightarrow> q \<noteq> s \<and> has_name q c" for q
    using Cons.IH wt_wf_child [OF Cons.prems(1)] by blast
  show ?case
  proof (cases "children c1 = [] \<and> \<not> breakpoint c1")
    case True
    then have "c1 = Node False []" by (cases c1) simp
    then have none: "has_name q c \<Longrightarrow> q = s" for q using ih [of q] by (auto simp: has_name_fresh)
    have "t1 = Node (breakpoint t) (AList.delete ch (children t))" using Cons.prems(2) c True by simp
    then show ?thesis
      using none c by (cases r) (auto simp: getChild_delete split: option.splits)
  next
    case False
    then have "t1 = put_child ch c1 t" using Cons.prems(2) c by auto
    then show ?thesis using ih c by (cases r) auto
  qed
qed

lemma remove_at_none: "remove_at s t = None \<Longrightarrow> \<not> has_name s t"
  by (induction s arbitrary: t) (auto split: option.splits if_splits)

lemma wt_insert_names:
  "wt_wf t \<Longrightarrow> s \<noteq> [] \<Longrightarrow> \<exists>t1. wt_insert s t = Some t1 \<and> wt_wf t1 \<and> names t1 = insert s (names t)"
  by (cases s) (auto simp: wt_insert_def names_def insert_at_names insert_at_wf)

lemma wt_remove_names: "wt_wf t \<Longrightarrow> wt_wf (wt_remove s t) \<and> names (wt_remove s t) = names t - {s}"
  using remove_at_wf [of t s] remove_at_names [of t s] remove_at_none [of s t]
  by (auto simp: wt_remove_def names_def split: option.splits)

section \<open>Completion\<close>

definition completions :: "string \<Rightarrow> WildcardTreeNode \<Rightarrow> string set" where
  "completions q t = {n \<in> names t. prefix q n}"

lemma has_name_append:
  "has_name (q @ s) t = (case walk q t of None \<Rightarrow> False | Some u \<Rightarrow> has_name s u)"
  by (induction q arbitrary: t) (auto split: option.splits)

lemma completions_walk:
  "completions q t = (case walk q t of None \<Rightarrow> {} | Some u \<Rightarrow> (@) q ` names u)"
  by (auto simp: completions_def names_def prefix_def has_name_append image_def split: option.splits)

lemma walk_wf: "wt_wf t \<Longrightarrow> walk q t = Some u \<Longrightarrow> wt_wf u \<and> (q \<noteq> [] \<longrightarrow> live u)"
proof (induction q arbitrary: t)
  case (Cons ch q)
  then obtain c where c: "getChild ch t = Some c" "walk q c = Some u" by (auto split: option.splits)
  with wt_wf_child [OF Cons.prems(1)] have "wt_wf c" "live c" by blast+
  with Cons.IH [OF _ c(2)] c(2) show ?case by (cases q) auto
qed simp

text \<open>\<open>complete\<close> on a live node: the only name below it, or the verdict that there are several.\<close>

lemma names_step: "names (Node b cs) = (if b then {[]} else {}) \<union> {ch # s | ch s. \<exists>c. map_of cs ch = Some c \<and> s \<in> names c}"
proof -
  have "has_name r (Node b cs) \<longleftrightarrow> r \<in> (if b then {[]} else {}) \<union> {ch # s | ch s. \<exists>c. map_of cs ch = Some c \<and> s \<in> names c}" for r
    by (cases r) (auto simp: names_def getChild_def split: option.splits)
  then show ?thesis by (auto simp: names_def)
qed

definition verdict :: "string set \<Rightarrow> string \<Rightarrow> ReturnValue \<times> string \<Rightarrow> bool" where
  "verdict ns acc r \<longleftrightarrow>
     (\<exists>n. ns = {n} \<and> r = (RETURNVALUE_NOERROR, acc @ n)) \<or>
     ((\<exists>m \<in> ns. \<exists>n \<in> ns. m \<noteq> n) \<and> fst r = RETURNVALUE_NAMEISTOOAMBIGUOUS)"

lemma complete_verdict: "wt_wf t \<Longrightarrow> live t \<Longrightarrow> verdict (names t) acc (complete t acc)"
proof (induction t acc rule: complete.induct)
  case (1 b cs acc)
  have child: "\<exists>s. s \<in> names c" "wt_wf c" "live c" "map_of cs ch = Some c" if "(ch, c) \<in> set cs" for ch c
    using that 1(2) live_has_name [of c] by (auto simp: names_def)
  consider "cs = []" | ch c where "cs = [(ch, c)]" | ch c d e cs' where "cs = (ch, c) # (d, e) # cs'"
    by (metis list.exhaust surj_pair)
  then show ?case
  proof cases
    case 1
    with \<open>live (Node b cs)\<close> show ?thesis by (auto simp: verdict_def live_def names_step)
  next
    case 2
    have ns: "names (Node b cs) = (if b then {[]} else {}) \<union> (#) ch ` names c"
      using 2 by (auto simp: names_step)
    show ?thesis
    proof (cases b)
      case True
      then show ?thesis using ns 2 child(1) [of ch c] by (auto simp: verdict_def)
    next
      case False
      then have "verdict (names c) (acc @ [ch]) (complete c (acc @ [ch]))"
        using 1(1) 2 child(2,3) [of ch c] by simp
      then show ?thesis using ns 2 False by (auto simp: verdict_def)
    qed
  next
    case 3
    then have "ch \<noteq> d" using 1(2) by auto
    obtain s s' where "s \<in> names c" "s' \<in> names e" using child(1) 3 by (metis list.set_intros)
    then have "ch # s \<in> names (Node b cs)" "d # s' \<in> names (Node b cs)"
      using 3 \<open>ch \<noteq> d\<close> by (auto simp: names_step)
    moreover have "ch # s \<noteq> d # s'" using \<open>ch \<noteq> d\<close> by simp
    moreover have "fst (complete (Node b cs) acc) = RETURNVALUE_NAMEISTOOAMBIGUOUS" using 3 by simp
    ultimately show ?thesis unfolding verdict_def by blast
  qed
qed

definition two_of :: "string set \<Rightarrow> bool" where
  "two_of A \<longleftrightarrow> (\<exists>m \<in> A. \<exists>n \<in> A. m \<noteq> n)"

lemma findOne_completions:
  assumes "wt_wf t" and "q \<noteq> []"
  shows "(completions q t = {} \<and> findOne q r t = (RETURNVALUE_PLAYERWITHTHISNAMEISNOTONLINE, r)) \<or>
    (\<exists>n. completions q t = {n} \<and> findOne q r t = (RETURNVALUE_NOERROR, n)) \<or>
    (two_of (completions q t) \<and> fst (findOne q r t) = RETURNVALUE_NAMEISTOOAMBIGUOUS)"
proof (cases "walk q t")
  case None
  then show ?thesis by (simp add: completions_walk findOne_def)
next
  case (Some u)
  then have "verdict (names u) q (complete u q)"
    using walk_wf [OF assms(1) Some] assms(2) complete_verdict by blast
  moreover have "completions q t = (@) q ` names u" "findOne q r t = complete u q"
    using Some by (simp_all add: completions_walk findOne_def)
  ultimately show ?thesis by (auto simp: verdict_def two_of_def)
qed

text \<open>Players entering and leaving, in any order.\<close>

datatype presence = Online string | Offline string

fun presence_step :: "presence \<Rightarrow> WildcardTreeNode \<Rightarrow> WildcardTreeNode option" where
  "presence_step (Online n) t = wt_insert n t"
| "presence_step (Offline n) t = Some (wt_remove n t)"

fun run_presence :: "presence list \<Rightarrow> WildcardTreeNode \<Rightarrow> WildcardTreeNode option" where
  "run_presence [] t = Some t"
| "run_presence (p # ps) t = (case presence_step p t of None \<Rightarrow> None | Some t1 \<Rightarrow> run_presence ps t1)"

fun online_after :: "presence list \<Rightarrow> string set \<Rightarrow> string set" where
  "online_after [] A = A"
| "online_after (Online n # ps) A = online_after ps (insert n A)"
| "online_after (Offline n # ps) A = online_after ps (A - {n})"

lemma run_presence_names:
  "wt_wf t \<Longrightarrow> Online [] \<notin> set ps \<Longrightarrow>
   \<exists>t1. run_presence ps t = Some t1 \<and> wt_wf t1 \<and> names t1 = online_after ps (names t)"
proof (induction ps arbitrary: t)
  case (Cons p ps)
  show ?case
  proof (cases p)
    case (Online n)
    with Cons.prems obtain t1 where "wt_insert n t = Some t1" "wt_wf t1" "names t1 = insert n (names t)"
      using wt_insert_names [of t n] by auto
    with Cons.IH [of t1] Cons.prems Online show ?thesis by simp
  next
    case (Offline n)
    with Cons.IH [of "wt_remove n t"] Cons.prems wt_remove_names [of t n] show ?thesis by simp
  qed
qed simp

section \<open>Properties\<close>

text \<open>C8: \<open>findOne\<close> is exact: after any sequence of players entering and leaving, a non-empty query gives
  the one online name that begins with it when there is exactly one, reports that the name is ambiguous
  when there are several, and that nobody is online when there is none.\<close>

theorem findOne_exact:
  assumes "Online [] \<notin> set ps" and "q \<noteq> []"
  shows "\<exists>t. run_presence ps (Node False []) = Some t \<and>
    (let found = {n \<in> online_after ps {}. prefix q n} in
     (found = {} \<and> findOne q r t = (RETURNVALUE_PLAYERWITHTHISNAMEISNOTONLINE, r)) \<or>
     (\<exists>n. found = {n} \<and> findOne q r t = (RETURNVALUE_NOERROR, n)) \<or>
     (two_of found \<and> fst (findOne q r t) = RETURNVALUE_NAMEISTOOAMBIGUOUS))"
proof -
  have "names (Node False []) = {}" by (auto simp: names_def has_name_fresh)
  then obtain t where t: "run_presence ps (Node False []) = Some t" "wt_wf t" "names t = online_after ps {}"
    using run_presence_names [of "Node False []" ps] assms(1) by auto
  then have "completions q t = {n \<in> online_after ps {}. prefix q n}" by (simp add: completions_def)
  with findOne_completions [OF t(2) assms(2), of r] t(1) show ?thesis by (simp add: Let_def)
qed

theorem findOne_exact_witness:
  "\<exists>t. run_presence [Online ''bob'', Online ''bea'', Offline ''bob''] (Node False []) = Some t \<and>
    findOne ''b'' [] t = (RETURNVALUE_NOERROR, ''bea'')"
proof -
  have "{n \<in> online_after [Online ''bob'', Online ''bea'', Offline ''bob''] {}. prefix ''b'' n} = {''bea''}"
    by auto
  then show ?thesis
    using findOne_exact [of "[Online ''bob'', Online ''bea'', Offline ''bob'']" "''b''" "[]"]
    by (auto simp: Let_def two_of_def simp del: run_presence.simps)
qed

end
