(* ===== verification/Party.thy ===== *)
theory Party
  imports Geometry
begin

text \<open>
  Parties: \<^verbatim>\<open>src/creatures/players/grouping/party.cpp\<close>, the handlers of \<^verbatim>\<open>src/game/game.cpp\<close> that call it
  (\<open>playerInviteToParty\<close> to \<open>playerLeaveParty\<close>) and the party fields of \<^verbatim>\<open>player.cpp\<close>.  A party and its
  players point at each other, so the state is one world: party objects and player objects by identity.
  A disbanded party is one whose leader is reset.  Lua events and callbacks, the clock, and the range of
  levels (single-precision arithmetic on a configured factor) are the parameter \<open>Env\<close>; messages and
  icons sent to clients are left out, since they change no state here.
\<close>

section \<open>State\<close>

type_synonym player = u32
type_synonym party_id = nat

datatype SharedExpStatus_t =
    SHAREDEXP_OK | SHAREDEXP_TOOFARAWAY | SHAREDEXP_LEVELDIFFTOOLARGE
  | SHAREDEXP_MEMBERINACTIVE | SHAREDEXP_EMPTYPARTY

record Party =
  m_leader :: "player option"
  memberList :: "player list"
  inviteList :: "player list"
  sharedExpActive :: bool
  sharedExpEnabled :: bool
  ticksMap :: "player \<rightharpoonup> int"

record PlayerState =
  pl_party :: "party_id option"
  invitePartyList :: "party_id list"
  pl_level :: u32
  pl_position :: Position
  notGainInFight :: bool
  pl_vocation :: "u8 option"

record PartyWorld =
  parties :: "party_id \<Rightarrow> Party"
  nextParty :: party_id
  players :: "player \<Rightarrow> PlayerState"

record Env =
  now :: int
  shareActivity :: int
  autoShareExperience :: bool
  minLevelFor :: "u32 \<Rightarrow> u32"
  maxLevelFor :: "u32 \<Rightarrow> u32"
  eventOnDisband :: "party_id \<Rightarrow> bool"
  callbackOnDisband :: "party_id \<Rightarrow> bool"
  eventOnLeave :: "party_id \<Rightarrow> player \<Rightarrow> bool"
  callbackOnLeave :: "party_id \<Rightarrow> player \<Rightarrow> bool"
  eventOnJoin :: "party_id \<Rightarrow> player \<Rightarrow> bool"
  callbackOnJoin :: "party_id \<Rightarrow> player \<Rightarrow> bool"

definition new_party :: Party where
  "new_party = \<lparr>m_leader = None, memberList = [], inviteList = [], sharedExpActive = False,
     sharedExpEnabled = False, ticksMap = Map.empty\<rparr>"

definition upd_party :: "party_id \<Rightarrow> (Party \<Rightarrow> Party) \<Rightarrow> PartyWorld \<Rightarrow> PartyWorld" where
  "upd_party p f w = w\<lparr>parties := (parties w)(p := f (parties w p))\<rparr>"

definition upd_player :: "player \<Rightarrow> (PlayerState \<Rightarrow> PlayerState) \<Rightarrow> PartyWorld \<Rightarrow> PartyWorld" where
  "upd_player x f w = w\<lparr>players := (players w)(x := f (players w x))\<rparr>"

definition setParty :: "party_id option \<Rightarrow> player \<Rightarrow> PartyWorld \<Rightarrow> PartyWorld" where
  "setParty po x w = upd_player x (\<lambda>s. s\<lparr>pl_party := po\<rparr>) w"

definition addPartyInvitation :: "party_id \<Rightarrow> player \<Rightarrow> PartyWorld \<Rightarrow> bool \<times> PartyWorld" where
  "addPartyInvitation p x w =
     (if p \<in> set (invitePartyList (players w x)) then (False, w)
      else (True, upd_player x (\<lambda>s. s\<lparr>invitePartyList := invitePartyList s @ [p]\<rparr>) w))"

definition removePartyInvitation :: "party_id \<Rightarrow> player \<Rightarrow> PartyWorld \<Rightarrow> PartyWorld" where
  "removePartyInvitation p x w = upd_player x (\<lambda>s. s\<lparr>invitePartyList := filter (\<lambda>q. q \<noteq> p) (invitePartyList s)\<rparr>) w"

definition getLeader :: "party_id \<Rightarrow> PartyWorld \<Rightarrow> player option" where
  "getLeader p w = m_leader (parties w p)"

definition getMembers :: "party_id \<Rightarrow> PartyWorld \<Rightarrow> player list" where
  "getMembers p w = memberList (parties w p)"

definition getInvitees :: "party_id \<Rightarrow> PartyWorld \<Rightarrow> player list" where
  "getInvitees p w = inviteList (parties w p)"

definition getPlayers :: "party_id \<Rightarrow> PartyWorld \<Rightarrow> player option list" where
  "getPlayers p w = map Some (getMembers p w) @ [getLeader p w]"

definition party_empty :: "party_id \<Rightarrow> PartyWorld \<Rightarrow> bool" where
  "party_empty p w \<longleftrightarrow> getMembers p w = [] \<and> getInvitees p w = []"

definition isPlayerInvited :: "party_id \<Rightarrow> player \<Rightarrow> PartyWorld \<Rightarrow> bool" where
  "isPlayerInvited p x w \<longleftrightarrow> x \<in> set (getInvitees p w)"

definition isInviting :: "player \<Rightarrow> player \<Rightarrow> PartyWorld \<Rightarrow> bool" where
  "isInviting x y w =
     (case pl_party (players w x) of
        None \<Rightarrow> False
      | Some p \<Rightarrow> getLeader p w = Some x \<and> isPlayerInvited p y w)"

definition isPartner :: "player \<Rightarrow> player \<Rightarrow> PartyWorld \<Rightarrow> bool" where
  "isPartner x y w \<longleftrightarrow> pl_party (players w x) \<noteq> None \<and> x \<noteq> y \<and> pl_party (players w x) = pl_party (players w y)"

fun count_vocations :: "u8 option list \<Rightarrow> u8 list \<Rightarrow> u8 list" where
  "count_vocations [] seen = seen"
| "count_vocations (v # vs) seen =
     (if length seen \<ge> 4 then seen
      else case v of None \<Rightarrow> count_vocations vs seen | Some b \<Rightarrow> count_vocations vs (List.insert b seen))"

definition getUniqueVocationsCount :: "party_id \<Rightarrow> PartyWorld \<Rightarrow> nat" where
  "getUniqueVocationsCount p w =
     (let first = (case getLeader p w of None \<Rightarrow> []
          | Some l \<Rightarrow> (case pl_vocation (players w l) of None \<Rightarrow> [] | Some b \<Rightarrow> [b]))
      in length (count_vocations (map (\<lambda>m. pl_vocation (players w m)) (getMembers p w)) first))"

section \<open>Shared experience\<close>

definition getHighestLevel :: "party_id \<Rightarrow> PartyWorld \<Rightarrow> u32" where
  "getHighestLevel p w =
     (case getLeader p w of
        None \<Rightarrow> 0
      | Some l \<Rightarrow>
          foldl (\<lambda>h m. if pl_level (players w m) > h then pl_level (players w m) else h)
            (pl_level (players w l)) (getMembers p w))"

definition getLowestLevel :: "party_id \<Rightarrow> PartyWorld \<Rightarrow> u32" where
  "getLowestLevel p w =
     (case getLeader p w of
        None \<Rightarrow> 0
      | Some l \<Rightarrow>
          foldl (\<lambda>h m. if pl_level (players w m) < h then pl_level (players w m) else h)
            (pl_level (players w l)) (getMembers p w))"

definition getMinLevel :: "Env \<Rightarrow> party_id \<Rightarrow> PartyWorld \<Rightarrow> u32" where
  "getMinLevel e p w = minLevelFor e (getHighestLevel p w)"

definition getMaxLevel :: "Env \<Rightarrow> party_id \<Rightarrow> PartyWorld \<Rightarrow> u32" where
  "getMaxLevel e p w = maxLevelFor e (getLowestLevel p w)"

text \<open>The difference is unsigned, and the configured number is converted to unsigned for the comparison.\<close>

definition isPlayerActive :: "Env \<Rightarrow> party_id \<Rightarrow> player \<Rightarrow> PartyWorld \<Rightarrow> bool" where
  "isPlayerActive e p x w =
     (case ticksMap (parties w p) x of
        None \<Rightarrow> False
      | Some t \<Rightarrow> (now e - t) mod 2 ^ 64 \<le> shareActivity e mod 2 ^ 64)"

definition getMemberSharedExperienceStatus :: "Env \<Rightarrow> party_id \<Rightarrow> player \<Rightarrow> PartyWorld \<Rightarrow> SharedExpStatus_t" where
  "getMemberSharedExperienceStatus e p x w =
     (case getLeader p w of
        None \<Rightarrow> SHAREDEXP_EMPTYPARTY
      | Some l \<Rightarrow>
          if getMembers p w = [] then SHAREDEXP_EMPTYPARTY
          else if pl_level (players w x) < getMinLevel e p w then SHAREDEXP_LEVELDIFFTOOLARGE
          else if \<not> areInRange3 30 30 1 (pl_position (players w l)) (pl_position (players w x))
          then SHAREDEXP_TOOFARAWAY
          else if \<not> notGainInFight (players w x) \<and> \<not> isPlayerActive e p x w then SHAREDEXP_MEMBERINACTIVE
          else SHAREDEXP_OK)"

definition canUseSharedExperience :: "Env \<Rightarrow> party_id \<Rightarrow> player \<Rightarrow> PartyWorld \<Rightarrow> bool" where
  "canUseSharedExperience e p x w \<longleftrightarrow> getMemberSharedExperienceStatus e p x w = SHAREDEXP_OK"

fun first_bad :: "SharedExpStatus_t list \<Rightarrow> SharedExpStatus_t" where
  "first_bad [] = SHAREDEXP_OK"
| "first_bad (s # ss) = (if s \<noteq> SHAREDEXP_OK then s else first_bad ss)"

definition getSharedExperienceStatus :: "Env \<Rightarrow> party_id \<Rightarrow> PartyWorld \<Rightarrow> SharedExpStatus_t" where
  "getSharedExperienceStatus e p w =
     (case getLeader p w of
        None \<Rightarrow> SHAREDEXP_EMPTYPARTY
      | Some l \<Rightarrow> first_bad (map (\<lambda>x. getMemberSharedExperienceStatus e p x w) (l # getMembers p w)))"

definition updateSharedExperience :: "Env \<Rightarrow> party_id \<Rightarrow> PartyWorld \<Rightarrow> PartyWorld" where
  "updateSharedExperience e p w =
     (if sharedExpActive (parties w p) then
        let result = (getSharedExperienceStatus e p w = SHAREDEXP_OK) in
        if result \<noteq> sharedExpEnabled (parties w p)
        then upd_party p (\<lambda>s. s\<lparr>sharedExpEnabled := result\<rparr>) w else w
      else w)"

definition setSharedExperience :: "Env \<Rightarrow> party_id \<Rightarrow> player \<Rightarrow> bool \<Rightarrow> PartyWorld \<Rightarrow> bool \<times> PartyWorld" where
  "setSharedExperience e p x active w =
     (if getLeader p w \<noteq> Some x then (False, w)
      else if sharedExpActive (parties w p) = active then (True, w)
      else
        let w1 = upd_party p (\<lambda>s. s\<lparr>sharedExpActive := active\<rparr>) w in
        if active then
          (True, upd_party p (\<lambda>s. s\<lparr>sharedExpEnabled := (getSharedExperienceStatus e p w1 = SHAREDEXP_OK)\<rparr>) w1)
        else (True, w1))"

definition updatePlayerTicks :: "Env \<Rightarrow> party_id \<Rightarrow> player \<Rightarrow> u32 \<Rightarrow> PartyWorld \<Rightarrow> PartyWorld" where
  "updatePlayerTicks e p x points w =
     (if points \<noteq> 0 \<and> \<not> notGainInFight (players w x)
      then updateSharedExperience e p (upd_party p (\<lambda>s. s\<lparr>ticksMap := (ticksMap s)(x \<mapsto> now e)\<rparr>) w)
      else w)"

definition clearPlayerPoints :: "Env \<Rightarrow> party_id \<Rightarrow> player \<Rightarrow> PartyWorld \<Rightarrow> PartyWorld" where
  "clearPlayerPoints e p x w =
     (if ticksMap (parties w p) x \<noteq> None
      then updateSharedExperience e p (upd_party p (\<lambda>s. s\<lparr>ticksMap := (ticksMap s)(x := None)\<rparr>) w)
      else w)"

section \<open>Operations of a party\<close>

definition party_create :: "Env \<Rightarrow> player \<Rightarrow> PartyWorld \<Rightarrow> party_id \<times> PartyWorld" where
  "party_create e l w =
     (let p = nextParty w;
          w1 = w\<lparr>parties := (parties w)(p := new_party\<lparr>m_leader := Some l\<rparr>), nextParty := p + 1\<rparr>;
          w2 = setParty (Some p) l w1
      in (p, if autoShareExperience e then snd (setSharedExperience e p l True w2) else w2))"

definition disband :: "Env \<Rightarrow> party_id \<Rightarrow> PartyWorld \<Rightarrow> PartyWorld" where
  "disband e p w =
     (if \<not> eventOnDisband e p then w
      else if \<not> callbackOnDisband e p then w
      else case getLeader p w of
        None \<Rightarrow> w
      | Some currentLeader \<Rightarrow>
          let w1 = upd_party p (\<lambda>s. s\<lparr>m_leader := None\<rparr>) w;
              w2 = setParty None currentLeader w1;
              w3 = foldl (\<lambda>w x. removePartyInvitation p x w) w2 (getInvitees p w2);
              w4 = upd_party p (\<lambda>s. s\<lparr>inviteList := []\<rparr>) w3;
              w5 = foldl (\<lambda>w x. setParty None x w) w4 (getMembers p w4)
          in upd_party p (\<lambda>s. s\<lparr>memberList := []\<rparr>) w5)"

definition passPartyLeadership :: "Env \<Rightarrow> party_id \<Rightarrow> player \<Rightarrow> PartyWorld \<Rightarrow> bool \<times> PartyWorld" where
  "passPartyLeadership e p x w =
     (case getLeader p w of
        None \<Rightarrow> (False, w)
      | Some leader \<Rightarrow>
          if leader = x \<or> pl_party (players w x) \<noteq> Some p then (False, w)
          else
            let w1 = upd_party p (\<lambda>s. s\<lparr>memberList := remove1 x (memberList s)\<rparr>) w;
                w2 = upd_party p (\<lambda>s. s\<lparr>m_leader := Some x\<rparr>) w1;
                w3 = upd_party p (\<lambda>s. s\<lparr>memberList := leader # memberList s\<rparr>) w2
            in (True, updateSharedExperience e p w3))"

text \<open>
  The list holds no null pointers, so the loop that skips them takes the first member.
\<close>

definition leaveParty :: "Env \<Rightarrow> party_id \<Rightarrow> player \<Rightarrow> bool \<Rightarrow> PartyWorld \<Rightarrow> bool \<times> PartyWorld" where
  "leaveParty e p x forceRemove w =
     (case getLeader p w of
        None \<Rightarrow> (False, w)
      | Some leader \<Rightarrow>
          if pl_party (players w x) \<noteq> Some p \<and> leader \<noteq> x then (False, w)
          else if \<not> forceRemove \<and> \<not> eventOnLeave e p x then (False, w)
          else if \<not> callbackOnLeave e p x then (False, w)
          else
            let (missingLeader, w1) =
                  (if leader = x then
                     (case getMembers p w of
                        [] \<Rightarrow> (True, w)
                      | newLeader # rest \<Rightarrow>
                          if rest = [] \<and> getInvitees p w = [] then (True, w)
                          else (False, snd (passPartyLeadership e p newLeader w)))
                   else (False, w));
                w2 = upd_party p (\<lambda>s. s\<lparr>memberList := remove1 x (memberList s)\<rparr>) w1;
                w3 = setParty None x w2;
                w4 = updateSharedExperience e p w3;
                w5 = clearPlayerPoints e p x w4
            in (True, if missingLeader \<or> party_empty p w5 then disband e p w5 else w5))"

definition joinParty :: "Env \<Rightarrow> party_id \<Rightarrow> player \<Rightarrow> PartyWorld \<Rightarrow> bool \<times> PartyWorld" where
  "joinParty e p x w =
     (case getLeader p w of
        None \<Rightarrow> (False, w)
      | Some leader \<Rightarrow>
          if \<not> eventOnJoin e p x then (False, w)
          else if \<not> callbackOnJoin e p x then (False, w)
          else if x \<notin> set (getInvitees p w) then (False, w)
          else
            let w1 = upd_party p (\<lambda>s. s\<lparr>inviteList := remove1 x (inviteList s)\<rparr>) w;
                w2 = setParty (Some p) x w1;
                w3 = upd_party p (\<lambda>s. s\<lparr>memberList := memberList s @ [x]\<rparr>) w2;
                w4 = removePartyInvitation p x w3
            in (True, updateSharedExperience e p w4))"

definition removeInvite :: "Env \<Rightarrow> party_id \<Rightarrow> player \<Rightarrow> bool \<Rightarrow> PartyWorld \<Rightarrow> bool \<times> PartyWorld" where
  "removeInvite e p x removeFromPlayer w =
     (case getLeader p w of
        None \<Rightarrow> (False, w)
      | Some leader \<Rightarrow>
          if x \<notin> set (getInvitees p w) then (False, w)
          else
            let w1 = upd_party p (\<lambda>s. s\<lparr>inviteList := remove1 x (inviteList s)\<rparr>) w;
                w2 = (if removeFromPlayer then removePartyInvitation p x w1 else w1)
            in (True, if party_empty p w2 then disband e p w2 else w2))"

definition revokeInvitation :: "Env \<Rightarrow> party_id \<Rightarrow> player \<Rightarrow> PartyWorld \<Rightarrow> PartyWorld" where
  "revokeInvitation e p x w =
     (case getLeader p w of None \<Rightarrow> w | Some leader \<Rightarrow> snd (removeInvite e p x True w))"

definition invitePlayer :: "party_id \<Rightarrow> player \<Rightarrow> PartyWorld \<Rightarrow> bool \<times> PartyWorld" where
  "invitePlayer p x w =
     (case getLeader p w of
        None \<Rightarrow> (False, w)
      | Some leader \<Rightarrow>
          if isPlayerInvited p x w then (False, w)
          else
            let w1 = upd_party p (\<lambda>s. s\<lparr>inviteList := inviteList s @ [x]\<rparr>) w
            in (True, snd (addPartyInvitation p x w1)))"

section \<open>The game's handlers\<close>

definition playerInviteToParty :: "Env \<Rightarrow> player \<Rightarrow> player \<Rightarrow> PartyWorld \<Rightarrow> PartyWorld" where
  "playerInviteToParty e x y w =
     (if x = y then w
      else if isInviting y x w then w
      else if pl_party (players w y) \<noteq> None then w
      else case pl_party (players w x) of
          None \<Rightarrow> (case party_create e x w of (p, w1) \<Rightarrow> snd (invitePlayer p y w1))
        | Some p \<Rightarrow> if getLeader p w \<noteq> Some x then w else snd (invitePlayer p y w))"

definition playerJoinParty :: "Env \<Rightarrow> player \<Rightarrow> player \<Rightarrow> PartyWorld \<Rightarrow> PartyWorld" where
  "playerJoinParty e x l w =
     (if \<not> isInviting l x w then w
      else case pl_party (players w l) of
          None \<Rightarrow> w
        | Some p \<Rightarrow>
            if getLeader p w \<noteq> Some l then w
            else if pl_party (players w x) \<noteq> None then w
            else snd (joinParty e p x w))"

definition playerRevokePartyInvitation :: "Env \<Rightarrow> player \<Rightarrow> player \<Rightarrow> PartyWorld \<Rightarrow> PartyWorld" where
  "playerRevokePartyInvitation e x y w =
     (case pl_party (players w x) of
        None \<Rightarrow> w
      | Some p \<Rightarrow>
          if getLeader p w \<noteq> Some x then w
          else if \<not> isInviting x y w then w
          else revokeInvitation e p y w)"

definition playerPassPartyLeadership :: "Env \<Rightarrow> player \<Rightarrow> player \<Rightarrow> PartyWorld \<Rightarrow> PartyWorld" where
  "playerPassPartyLeadership e x y w =
     (case pl_party (players w x) of
        None \<Rightarrow> w
      | Some p \<Rightarrow>
          if getLeader p w \<noteq> Some x then w
          else if \<not> isPartner x y w then w
          else snd (passPartyLeadership e p y w))"

text \<open>\<open>blocked\<close>: the player is in a fight outside a protection zone.\<close>

definition playerLeaveParty :: "Env \<Rightarrow> bool \<Rightarrow> player \<Rightarrow> PartyWorld \<Rightarrow> PartyWorld" where
  "playerLeaveParty e blocked x w =
     (case pl_party (players w x) of
        None \<Rightarrow> w
      | Some p \<Rightarrow> if blocked then w else snd (leaveParty e p x False w))"

definition playerEnableSharedPartyExperience :: "Env \<Rightarrow> bool \<Rightarrow> player \<Rightarrow> bool \<Rightarrow> PartyWorld \<Rightarrow> PartyWorld" where
  "playerEnableSharedPartyExperience e blocked x active w =
     (case pl_party (players w x) of
        None \<Rightarrow> w
      | Some p \<Rightarrow> if blocked then w else snd (setSharedExperience e p x active w))"

definition clearPartyInvitations :: "Env \<Rightarrow> player \<Rightarrow> PartyWorld \<Rightarrow> PartyWorld" where
  "clearPartyInvitations e x w =
     upd_player x (\<lambda>s. s\<lparr>invitePartyList := []\<rparr>)
       (foldl (\<lambda>w p. snd (removeInvite e p x False w)) w (invitePartyList (players w x)))"

text \<open>The party part of \<open>Player::onRemoveCreature\<close> on logout.\<close>

definition party_logout :: "Env \<Rightarrow> player \<Rightarrow> PartyWorld \<Rightarrow> PartyWorld" where
  "party_logout e x w =
     clearPartyInvitations e x
       (case pl_party (players w x) of None \<Rightarrow> w | Some p \<Rightarrow> snd (leaveParty e p x True w))"

section \<open>What the operations change\<close>

lemmas party_get_defs = getLeader_def getMembers_def getInvitees_def

lemma upd_party_get [simp]:
  "getLeader q (upd_party p f w) = (if q = p then m_leader (f (parties w p)) else getLeader q w)"
  "getMembers q (upd_party p f w) = (if q = p then memberList (f (parties w p)) else getMembers q w)"
  "getInvitees q (upd_party p f w) = (if q = p then inviteList (f (parties w p)) else getInvitees q w)"
  "players (upd_party p f w) = players w" "nextParty (upd_party p f w) = nextParty w"
  by (simp_all add: upd_party_def party_get_defs)

lemma parties_upd [simp]: "parties (upd_party p f w) q = (if q = p then f (parties w p) else parties w q)"
  by (simp add: upd_party_def)

lemma upd_upd: "upd_party p g (upd_party p f w) = upd_party p (\<lambda>s. g (f s)) w"
  by (simp add: upd_party_def)

lemma upd_player_get [simp]:
  "getLeader q (upd_player x f w) = getLeader q w" "getMembers q (upd_player x f w) = getMembers q w"
  "getInvitees q (upd_player x f w) = getInvitees q w" "nextParty (upd_player x f w) = nextParty w"
  "parties (upd_player x f w) = parties w"
  "players (upd_player x f w) y = (if y = x then f (players w x) else players w y)"
  by (simp_all add: upd_player_def party_get_defs)

lemma setParty_get [simp]:
  "getLeader q (setParty po x w) = getLeader q w" "getMembers q (setParty po x w) = getMembers q w"
  "getInvitees q (setParty po x w) = getInvitees q w" "nextParty (setParty po x w) = nextParty w"
  "parties (setParty po x w) = parties w"
  "pl_party (players (setParty po x w) y) = (if y = x then po else pl_party (players w y))"
  "invitePartyList (players (setParty po x w) y) = invitePartyList (players w y)"
  by (simp_all add: setParty_def)

lemma removePartyInvitation_get [simp]:
  "getLeader q (removePartyInvitation p x w) = getLeader q w"
  "getMembers q (removePartyInvitation p x w) = getMembers q w"
  "getInvitees q (removePartyInvitation p x w) = getInvitees q w"
  "nextParty (removePartyInvitation p x w) = nextParty w"
  "parties (removePartyInvitation p x w) = parties w"
  "pl_party (players (removePartyInvitation p x w) y) = pl_party (players w y)"
  "set (invitePartyList (players (removePartyInvitation p x w) y)) =
     set (invitePartyList (players w y)) - (if y = x then {p} else {})"
  by (auto simp: removePartyInvitation_def)

text \<open>Two worlds with the same membership: who leads, who is in, who is invited, and the players' side.\<close>

definition same_members :: "PartyWorld \<Rightarrow> PartyWorld \<Rightarrow> bool" where
  "same_members w v \<longleftrightarrow>
     (\<forall>p. getLeader p v = getLeader p w \<and> getMembers p v = getMembers p w \<and> getInvitees p v = getInvitees p w) \<and>
     (\<forall>x. pl_party (players v x) = pl_party (players w x) \<and>
       set (invitePartyList (players v x)) = set (invitePartyList (players w x))) \<and>
     nextParty v = nextParty w"

lemma same_members_refl [simp]: "same_members w w"
  by (simp add: same_members_def)

lemma same_members_trans: "same_members u v \<Longrightarrow> same_members v w \<Longrightarrow> same_members u w"
  by (simp add: same_members_def)

lemma same_members_upd:
  "(\<And>s. m_leader (f s) = m_leader s \<and> memberList (f s) = memberList s \<and> inviteList (f s) = inviteList s) \<Longrightarrow>
   same_members w (upd_party p f w)"
  by (simp add: same_members_def party_get_defs upd_party_def)

lemma updateSharedExperience_same: "same_members w (updateSharedExperience e p w)"
  by (simp add: updateSharedExperience_def Let_def same_members_upd)

lemma setSharedExperience_same: "same_members w (snd (setSharedExperience e p x b w))"
  by (simp add: setSharedExperience_def Let_def upd_upd same_members_upd)

lemma updatePlayerTicks_same: "same_members w (updatePlayerTicks e p x n w)"
  by (auto simp: updatePlayerTicks_def
      intro!: same_members_trans [OF same_members_upd updateSharedExperience_same])

lemma clearPlayerPoints_same: "same_members w (clearPlayerPoints e p x w)"
  by (auto simp: clearPlayerPoints_def
      intro!: same_members_trans [OF same_members_upd updateSharedExperience_same])

lemma foldl_removeInvitation:
  "getLeader q (foldl (\<lambda>w x. removePartyInvitation p x w) w xs) = getLeader q w"
  "getMembers q (foldl (\<lambda>w x. removePartyInvitation p x w) w xs) = getMembers q w"
  "getInvitees q (foldl (\<lambda>w x. removePartyInvitation p x w) w xs) = getInvitees q w"
  "nextParty (foldl (\<lambda>w x. removePartyInvitation p x w) w xs) = nextParty w"
  "parties (foldl (\<lambda>w x. removePartyInvitation p x w) w xs) = parties w"
  "pl_party (players (foldl (\<lambda>w x. removePartyInvitation p x w) w xs) y) = pl_party (players w y)"
  "set (invitePartyList (players (foldl (\<lambda>w x. removePartyInvitation p x w) w xs) y)) =
     set (invitePartyList (players w y)) - (if y \<in> set xs then {p} else {})"
  by (induction xs arbitrary: w) auto

lemma foldl_setParty:
  "getLeader q (foldl (\<lambda>w x. setParty po x w) w xs) = getLeader q w"
  "getMembers q (foldl (\<lambda>w x. setParty po x w) w xs) = getMembers q w"
  "getInvitees q (foldl (\<lambda>w x. setParty po x w) w xs) = getInvitees q w"
  "nextParty (foldl (\<lambda>w x. setParty po x w) w xs) = nextParty w"
  "parties (foldl (\<lambda>w x. setParty po x w) w xs) = parties w"
  "pl_party (players (foldl (\<lambda>w x. setParty po x w) w xs) y) = (if y \<in> set xs then po else pl_party (players w y))"
  "invitePartyList (players (foldl (\<lambda>w x. setParty po x w) w xs) y) = invitePartyList (players w y)"
  by (induction xs arbitrary: w) auto

lemma party_fold [simp]:
  "m_leader (parties w p) = getLeader p w" "memberList (parties w p) = getMembers p w"
  "inviteList (parties w p) = getInvitees p w"
  by (simp_all add: party_get_defs)

definition disband_allowed :: "Env \<Rightarrow> bool" where
  "disband_allowed e \<longleftrightarrow> (\<forall>p. eventOnDisband e p \<and> callbackOnDisband e p)"

lemma disband_get:
  assumes "disband_allowed e" and "getLeader p w = Some l"
  shows "getLeader q (disband e p w) = (if q = p then None else getLeader q w)"
    and "getMembers q (disband e p w) = (if q = p then [] else getMembers q w)"
    and "getInvitees q (disband e p w) = (if q = p then [] else getInvitees q w)"
    and "nextParty (disband e p w) = nextParty w"
    and "pl_party (players (disband e p w) y) =
      (if y = l \<or> y \<in> set (getMembers p w) then None else pl_party (players w y))"
    and "set (invitePartyList (players (disband e p w) y)) =
      set (invitePartyList (players w y)) - (if y \<in> set (getInvitees p w) then {p} else {})"
  using assms
  by (auto simp: disband_def Let_def disband_allowed_def foldl_removeInvitation foldl_setParty)

section \<open>The membership invariant\<close>

text \<open>
  A player's party and a party's leader and members agree, a player's invitations and a party's invitees
  agree, nobody is listed twice, invited into their own party or both leader and member, a party without
  a leader is empty, and a party with a leader has a member or an invitee.
\<close>

definition agree :: "PartyWorld \<Rightarrow> bool" where
  "agree w \<longleftrightarrow> (\<forall>p x. pl_party (players w x) = Some p \<longleftrightarrow> getLeader p w = Some x \<or> x \<in> set (getMembers p w))"

definition invites_agree :: "PartyWorld \<Rightarrow> bool" where
  "invites_agree w \<longleftrightarrow> (\<forall>p x. p \<in> set (invitePartyList (players w x)) \<longleftrightarrow> x \<in> set (getInvitees p w))"

definition lists_ok :: "PartyWorld \<Rightarrow> bool" where
  "lists_ok w \<longleftrightarrow> (\<forall>p. distinct (getMembers p w) \<and> distinct (getInvitees p w) \<and>
     (\<forall>x. getLeader p w = Some x \<longrightarrow> x \<notin> set (getMembers p w)) \<and>
     (\<forall>x \<in> set (getInvitees p w). pl_party (players w x) \<noteq> Some p))"

definition alive_ok :: "PartyWorld \<Rightarrow> bool" where
  "alive_ok w \<longleftrightarrow> (\<forall>p. (getLeader p w = None \<longleftrightarrow> getMembers p w = [] \<and> getInvitees p w = []) \<and>
     (nextParty w \<le> p \<longrightarrow> getLeader p w = None))"

definition party_inv :: "PartyWorld \<Rightarrow> bool" where
  "party_inv w \<longleftrightarrow> agree w \<and> invites_agree w \<and> lists_ok w \<and> alive_ok w"

lemmas party_inv_defs = party_inv_def agree_def invites_agree_def lists_ok_def alive_ok_def

text \<open>Without the last clause: what holds between the steps of an operation.\<close>

definition core_inv :: "PartyWorld \<Rightarrow> bool" where
  "core_inv w \<longleftrightarrow> agree w \<and> invites_agree w \<and> lists_ok w \<and>
     (\<forall>p. getLeader p w = None \<longrightarrow> getMembers p w = [] \<and> getInvitees p w = []) \<and>
     (\<forall>p \<ge> nextParty w. getLeader p w = None)"

definition others_alive :: "party_id \<Rightarrow> PartyWorld \<Rightarrow> bool" where
  "others_alive p w \<longleftrightarrow> (\<forall>q. q \<noteq> p \<longrightarrow> getLeader q w \<noteq> None \<longrightarrow> \<not> party_empty q w)"

lemma same_members_inv:
  assumes "same_members w v"
  shows "party_inv v = party_inv w" and "core_inv v = core_inv w" and "party_empty p v = party_empty p w"
    and "others_alive p v = others_alive p w"
proof -
  have eq: "\<And>p. getLeader p v = getLeader p w" "\<And>p. getMembers p v = getMembers p w"
    "\<And>p. getInvitees p v = getInvitees p w" "nextParty v = nextParty w"
    "\<And>x. pl_party (players v x) = pl_party (players w x)"
    "\<And>x. set (invitePartyList (players v x)) = set (invitePartyList (players w x))"
    using assms by (simp_all only: same_members_def)
  show "party_inv v = party_inv w" "core_inv v = core_inv w" "party_empty p v = party_empty p w"
    "others_alive p v = others_alive p w"
    unfolding party_inv_defs core_inv_def party_empty_def others_alive_def by (simp_all only: eq)
qed

lemma party_inv_core: "party_inv w \<longleftrightarrow> core_inv w \<and> (\<forall>p. getLeader p w \<noteq> None \<longrightarrow> \<not> party_empty p w)"
  by (auto simp: party_inv_def core_inv_def alive_ok_def party_empty_def) (metis option.distinct(1))

lemma disband_inv:
  assumes "disband_allowed e" and "getLeader p w = Some l" and "core_inv w" and "others_alive p w"
  shows "party_inv (disband e p w)"
proof -
  note d = disband_get [OF assms(1,2)]
  have a: "agree w" "invites_agree w" "lists_ok w" using assms(3) by (simp_all add: core_inv_def)
  have "agree (disband e p w)"
    unfolding agree_def
  proof (intro allI)
    fix q x
    have *: "pl_party (players w x) = Some r \<longleftrightarrow> getLeader r w = Some x \<or> x \<in> set (getMembers r w)" for r
      using a(1) by (simp add: agree_def)
    show "pl_party (players (disband e p w) x) = Some q \<longleftrightarrow>
        getLeader q (disband e p w) = Some x \<or> x \<in> set (getMembers q (disband e p w))"
      using * [of p] * [of q] assms(2) by (auto simp: d)
  qed
  moreover have "invites_agree (disband e p w)"
    using a(2) by (auto simp: invites_agree_def d)
  moreover have "lists_ok (disband e p w)"
    using a(3) by (auto simp: lists_ok_def d)
  ultimately show ?thesis
    using assms(3,4) by (auto simp: party_inv_core core_inv_def others_alive_def party_empty_def d)
qed


lemma same_members_disband:
  assumes "disband_allowed e" and "getLeader p w = Some l"
    and "same_members (setParty None l w) v"
  shows "same_members (disband e p w) (disband e p v)"
proof -
  have "getLeader p v = Some l" using assms(2,3) by (simp add: same_members_def)
  from disband_get [OF assms(1) this] disband_get [OF assms(1,2)] assms(3) show ?thesis
    by (simp add: same_members_def)
qed

section \<open>Every operation keeps the invariant\<close>

lemma agreeD: "core_inv w \<Longrightarrow> pl_party (players w x) = Some p \<longleftrightarrow> getLeader p w = Some x \<or> x \<in> set (getMembers p w)"
  by (simp add: core_inv_def agree_def)

lemma leader_not_member: "core_inv w \<Longrightarrow> getLeader p w = Some l \<Longrightarrow> l \<notin> set (getMembers p w)"
  by (simp add: core_inv_def lists_ok_def)

definition handed_over :: "party_id \<Rightarrow> player \<Rightarrow> player \<Rightarrow> PartyWorld \<Rightarrow> PartyWorld" where
  "handed_over p l x w =
     upd_party p (\<lambda>s. s\<lparr>m_leader := Some x, memberList := l # remove1 x (memberList s)\<rparr>) w"

lemma passPartyLeadership_effect:
  assumes "getLeader p w = Some l" and "l \<noteq> x" and "pl_party (players w x) = Some p"
  shows "fst (passPartyLeadership e p x w)"
    and "same_members (handed_over p l x w) (snd (passPartyLeadership e p x w))"
  using assms updateSharedExperience_same
  by (simp_all add: passPartyLeadership_def Let_def upd_upd handed_over_def)

lemma handed_over_inv:
  assumes "party_inv w" and "getLeader p w = Some l" and "x \<in> set (getMembers p w)"
  shows "party_inv (handed_over p l x w)"
proof -
  have c: "core_inv w" using assms(1) by (simp add: party_inv_core)
  have lo: "distinct (getMembers p w)" "l \<notin> set (getMembers p w)"
    using c assms(2) by (auto simp: core_inv_def lists_ok_def)
  then have "agree (handed_over p l x w)"
    using agreeD [OF c] assms(2,3) by (auto simp: agree_def handed_over_def)
  moreover have "lists_ok (handed_over p l x w)"
    using c assms(2,3) lo by (auto simp: core_inv_def lists_ok_def handed_over_def)
  ultimately show ?thesis
    using assms by (auto simp: party_inv_core core_inv_def invites_agree_def handed_over_def party_empty_def)
qed

lemma passPartyLeadership_inv:
  assumes "party_inv w"
  shows "party_inv (snd (passPartyLeadership e p x w))"
proof (cases "\<exists>l. getLeader p w = Some l \<and> l \<noteq> x \<and> pl_party (players w x) = Some p")
  case True
  then obtain l where l: "getLeader p w = Some l" "l \<noteq> x" "pl_party (players w x) = Some p" by blast
  then have "x \<in> set (getMembers p w)" using agreeD [of w x p] assms by (auto simp: party_inv_core)
  from handed_over_inv [OF assms l(1) this] same_members_inv(1) [OF passPartyLeadership_effect(2) [OF l]]
  show ?thesis by simp
next
  case False
  then show ?thesis using assms by (auto simp: passPartyLeadership_def split: option.splits)
qed

definition without :: "party_id \<Rightarrow> player \<Rightarrow> PartyWorld \<Rightarrow> PartyWorld" where
  "without p x w = setParty None x (upd_party p (\<lambda>s. s\<lparr>memberList := remove1 x (memberList s)\<rparr>) w)"

lemma without_core:
  assumes "party_inv w" and "x \<in> set (getMembers p w)"
  shows "core_inv (without p x w)" and "others_alive p (without p x w)" and "getLeader q (without p x w) = getLeader q w"
proof -
  have c: "core_inv w" using assms(1) by (simp add: party_inv_core)
  have lo: "distinct (getMembers p w)" using c by (auto simp: core_inv_def lists_ok_def)
  have pl: "pl_party (players w x) = Some p" using agreeD [OF c] assms(2) by blast
  have nl: "getLeader p w \<noteq> Some x" using c assms(2) by (auto simp: core_inv_def lists_ok_def)
  have "agree (without p x w)"
    unfolding agree_def
  proof (intro allI)
    fix q y
    show "pl_party (players (without p x w) y) = Some q \<longleftrightarrow>
        getLeader q (without p x w) = Some y \<or> y \<in> set (getMembers q (without p x w))"
      using agreeD [OF c, of y q] agreeD [OF c, of x q] pl nl lo by (auto simp: without_def)
  qed
  moreover have "lists_ok (without p x w)"
    using c lo unfolding core_inv_def lists_ok_def
    by (auto simp: without_def dest: notin_set_remove1)
  moreover have "getLeader p w \<noteq> None" using c assms(2) by (auto simp: core_inv_def)
  ultimately show "core_inv (without p x w)"
    using c by (auto simp: core_inv_def invites_agree_def without_def)
  show "others_alive p (without p x w)"
    using assms(1) by (auto simp: party_inv_core others_alive_def party_empty_def without_def)
  show "getLeader q (without p x w) = getLeader q w" by (simp add: without_def)
qed


text \<open>The end of \<open>leaveParty\<close>: the lists no longer have the player, an empty party is disbanded.\<close>

lemma finish_leave:
  assumes "disband_allowed e" and "core_inv w" and "others_alive p w" and "getLeader p w = Some l"
    and "same_members w v"
  shows "party_inv (if party_empty p v then disband e p v else v)"
proof -
  note eq = same_members_inv [OF assms(5)]
  have l: "getLeader p v = Some l" using assms(4,5) by (simp add: same_members_def)
  have "core_inv v" "others_alive p v" using eq assms(2,3) by simp_all
  then show ?thesis
    using disband_inv [OF assms(1) l] l by (auto simp: party_inv_core others_alive_def)
qed

lemma leave_updates_same:
  "same_members w (clearPlayerPoints e p x (updateSharedExperience e p w))"
  using updateSharedExperience_same clearPlayerPoints_same same_members_trans by blast

lemma same_members_without:
  assumes "same_members w v"
  shows "same_members (without p x w) (without p x v)"
  using assms by (simp add: same_members_def without_def)

lemma leaveParty_inv:
  assumes "disband_allowed e" and "party_inv w"
  shows "party_inv (snd (leaveParty e p x force w))"
proof (cases "fst (leaveParty e p x force w)")
  case False
  then show ?thesis
    using assms by (auto simp: leaveParty_def Let_def split: option.splits if_splits prod.splits)
next
  case True
  then obtain l where l: "getLeader p w = Some l" "pl_party (players w x) = Some p \<or> l = x"
      "force \<or> eventOnLeave e p x" "callbackOnLeave e p x"
    by (auto simp: leaveParty_def split: option.splits if_splits)
  have c: "core_inv w" using assms(2) by (simp add: party_inv_core)
  let ?fin = "\<lambda>w. clearPlayerPoints e p x (updateSharedExperience e p (without p x w))"
  consider (member) "l \<noteq> x" | (last) "l = x" "getMembers p w = [] \<or> tl (getMembers p w) = [] \<and> getInvitees p w = []"
    | (pass) n rest where "l = x" "getMembers p w = n # rest" "rest \<noteq> [] \<or> getInvitees p w \<noteq> []"
    by (cases "getMembers p w") auto
  then show ?thesis
  proof cases
    case member
    then have "x \<in> set (getMembers p w)" using agreeD [OF c, of x p] l by auto
    note wo = without_core [OF assms(2) this]
    have "snd (leaveParty e p x force w) = (if party_empty p (?fin w) then disband e p (?fin w) else ?fin w)"
      using l member by (auto simp: leaveParty_def Let_def without_def)
    then show ?thesis
      using finish_leave [OF assms(1) wo(1,2) _ leave_updates_same] wo(3) [of p] l(1) by simp
  next
    case last
    have nm: "x \<notin> set (getMembers p w)" using leader_not_member [OF c l(1)] last by simp
    have "snd (leaveParty e p x force w) = disband e p (?fin w)"
      using l last by (cases "getMembers p w") (auto simp: leaveParty_def Let_def without_def)
    moreover have "same_members (setParty None l w) (without p x w)"
      using nm last by (simp add: same_members_def without_def remove1_idem)
    then have "same_members (disband e p w) (disband e p (?fin w))"
      using same_members_disband [OF assms(1) l(1)] same_members_trans leave_updates_same by blast
    moreover have "party_inv (disband e p w)"
      using disband_inv [OF assms(1) l(1) c] assms(2) by (auto simp: party_inv_core others_alive_def)
    ultimately show ?thesis using same_members_inv(1) by simp
  next
    case pass
    have n: "n \<noteq> x" "pl_party (players w n) = Some p" "n \<in> set (getMembers p w)"
      using leader_not_member [OF c l(1)] l pass agreeD [OF c, of n p] by auto
    let ?h = "handed_over p l n w" and ?v = "snd (passPartyLeadership e p n w)"
    have h: "party_inv ?h" "same_members ?h ?v"
      using handed_over_inv [OF assms(2) l(1) n(3)] passPartyLeadership_effect(2) [OF l(1) _ n(2)] n(1) pass(1)
      by auto
    have x: "x \<in> set (getMembers p ?h)" using pass(1) by (simp add: handed_over_def)
    note wo = without_core [OF h(1) x]
    have "snd (leaveParty e p x force w) = (if party_empty p (?fin ?v) then disband e p (?fin ?v) else ?fin ?v)"
      using l pass by (auto simp: leaveParty_def Let_def without_def)
    moreover have "same_members (without p x ?h) (?fin ?v)"
      using same_members_without [OF h(2)] leave_updates_same same_members_trans by blast
    moreover have "getLeader p (without p x ?h) = Some n" by (simp only: wo(3)) (simp add: handed_over_def)
    ultimately show ?thesis using finish_leave [OF assms(1) wo(1,2)] by metis
  qed
qed

definition joined :: "party_id \<Rightarrow> player \<Rightarrow> PartyWorld \<Rightarrow> PartyWorld" where
  "joined p x w = removePartyInvitation p x (setParty (Some p) x
     (upd_party p (\<lambda>s. s\<lparr>inviteList := remove1 x (inviteList s), memberList := memberList s @ [x]\<rparr>) w))"

lemma joined_inv:
  assumes "party_inv w" and "getLeader p w = Some l" and "x \<in> set (getInvitees p w)" and "pl_party (players w x) = None"
  shows "party_inv (joined p x w)"
proof -
  have c: "core_inv w" using assms(1) by (simp add: party_inv_core)
  have di: "distinct (getInvitees p w)" using c by (simp add: core_inv_def lists_ok_def)
  have nx: "getLeader q w \<noteq> Some x" "x \<notin> set (getMembers q w)" for q
    using agreeD [OF c, of x q] assms(4) by auto
  have a: "agree (joined p x w)"
    unfolding agree_def using agreeD [OF c] nx assms(2) by (auto simp: joined_def)
  have i: "invites_agree (joined p x w)"
    using c di by (auto simp: core_inv_def invites_agree_def joined_def)
  have "lists_ok (joined p x w)"
    using c di nx assms(2) by (auto simp: core_inv_def lists_ok_def joined_def dest: notin_set_remove1)
  with a i show ?thesis
    using assms(1,2) by (auto simp: party_inv_core core_inv_def party_empty_def joined_def)
qed

lemma joinParty_effect:
  assumes "getLeader p w = Some l" and "eventOnJoin e p x" and "callbackOnJoin e p x" and "x \<in> set (getInvitees p w)"
  shows "fst (joinParty e p x w)" and "same_members (joined p x w) (snd (joinParty e p x w))"
proof -
  have "joined p x w = removePartyInvitation p x (upd_party p (\<lambda>s. s\<lparr>memberList := memberList s @ [x]\<rparr>)
      (setParty (Some p) x (upd_party p (\<lambda>s. s\<lparr>inviteList := remove1 x (inviteList s)\<rparr>) w)))"
    by (simp add: joined_def upd_party_def setParty_def upd_player_def removePartyInvitation_def)
  then show "fst (joinParty e p x w)" "same_members (joined p x w) (snd (joinParty e p x w))"
    using assms updateSharedExperience_same by (simp_all add: joinParty_def Let_def)
qed

lemma joinParty_inv:
  assumes "party_inv w" and "pl_party (players w x) = None"
  shows "party_inv (snd (joinParty e p x w))"
proof (cases "fst (joinParty e p x w)")
  case False
  then show ?thesis using assms by (auto simp: joinParty_def Let_def split: option.splits if_splits)
next
  case True
  then obtain l where l: "getLeader p w = Some l" "eventOnJoin e p x" "callbackOnJoin e p x" "x \<in> set (getInvitees p w)"
    by (auto simp: joinParty_def split: option.splits if_splits)
  from same_members_inv(1) [OF joinParty_effect(2) [OF l]] joined_inv [OF assms(1) l(1,4) assms(2)]
  show ?thesis by simp
qed


definition uninvited :: "party_id \<Rightarrow> player \<Rightarrow> PartyWorld \<Rightarrow> PartyWorld" where
  "uninvited p x w = removePartyInvitation p x (upd_party p (\<lambda>s. s\<lparr>inviteList := remove1 x (inviteList s)\<rparr>) w)"

lemma uninvited_core:
  assumes "party_inv w" and "getLeader p w = Some l"
  shows "core_inv (uninvited p x w)" and "others_alive p (uninvited p x w)" and "getLeader p (uninvited p x w) = Some l"
proof -
  have c: "core_inv w" using assms(1) by (simp add: party_inv_core)
  have di: "distinct (getInvitees p w)" using c by (simp add: core_inv_def lists_ok_def)
  have "agree (uninvited p x w)" using c by (auto simp: core_inv_def agree_def uninvited_def)
  moreover have "invites_agree (uninvited p x w)"
    using c di by (auto simp: core_inv_def invites_agree_def uninvited_def)
  moreover have "lists_ok (uninvited p x w)"
    using c unfolding core_inv_def lists_ok_def by (auto simp: uninvited_def dest: notin_set_remove1)
  ultimately show "core_inv (uninvited p x w)"
    using c assms(2) by (auto simp: core_inv_def uninvited_def)
  show "others_alive p (uninvited p x w)"
    using assms(1) by (auto simp: party_inv_core others_alive_def party_empty_def uninvited_def)
  show "getLeader p (uninvited p x w) = Some l" using assms(2) by (simp add: uninvited_def)
qed

lemma removeInvite_inv:
  assumes "disband_allowed e" and "party_inv w"
  shows "party_inv (snd (removeInvite e p x True w))"
proof (cases "fst (removeInvite e p x True w)")
  case False
  then show ?thesis using assms by (auto simp: removeInvite_def Let_def split: option.splits if_splits)
next
  case True
  then obtain l where l: "getLeader p w = Some l" "x \<in> set (getInvitees p w)"
    by (auto simp: removeInvite_def split: option.splits if_splits)
  then have "snd (removeInvite e p x True w) =
      (if party_empty p (uninvited p x w) then disband e p (uninvited p x w) else uninvited p x w)"
    by (simp add: removeInvite_def Let_def uninvited_def)
  then show ?thesis
    using finish_leave [OF assms(1) uninvited_core [OF assms(2) l(1)] same_members_refl] by simp
qed

lemma revokeInvitation_inv:
  "disband_allowed e \<Longrightarrow> party_inv w \<Longrightarrow> party_inv (revokeInvitation e p x w)"
  by (auto simp: revokeInvitation_def removeInvite_inv split: option.splits)

definition invited :: "party_id \<Rightarrow> player \<Rightarrow> PartyWorld \<Rightarrow> PartyWorld" where
  "invited p x w = snd (addPartyInvitation p x (upd_party p (\<lambda>s. s\<lparr>inviteList := inviteList s @ [x]\<rparr>) w))"

lemma addPartyInvitation_get [simp]:
  "getLeader q (snd (addPartyInvitation p x w)) = getLeader q w"
  "getMembers q (snd (addPartyInvitation p x w)) = getMembers q w"
  "getInvitees q (snd (addPartyInvitation p x w)) = getInvitees q w"
  "nextParty (snd (addPartyInvitation p x w)) = nextParty w"
  "pl_party (players (snd (addPartyInvitation p x w)) y) = pl_party (players w y)"
  "set (invitePartyList (players (snd (addPartyInvitation p x w)) y)) =
     set (invitePartyList (players w y)) \<union> (if y = x then {p} else {})"
  by (auto simp: addPartyInvitation_def)

lemma invited_inv:
  assumes "core_inv w" and "others_alive p w" and "getLeader p w = Some l"
    and "pl_party (players w x) = None" and "x \<notin> set (getInvitees p w)"
  shows "party_inv (invited p x w)"
proof -
  have "agree (invited p x w)" using assms(1) by (auto simp: core_inv_def agree_def invited_def)
  moreover have "invites_agree (invited p x w)" using assms(1) by (auto simp: core_inv_def invites_agree_def invited_def)
  moreover have "lists_ok (invited p x w)"
    using assms unfolding core_inv_def lists_ok_def by (auto simp: invited_def)
  ultimately show ?thesis
    using assms by (auto simp: party_inv_core core_inv_def others_alive_def party_empty_def invited_def)
qed

lemma invitePlayer_inv:
  assumes "core_inv w" and "others_alive p w" and "getLeader p w = Some l" and "pl_party (players w x) = None"
    and "isPlayerInvited p x w \<Longrightarrow> party_inv w"
  shows "party_inv (snd (invitePlayer p x w))"
  using assms invited_inv [OF assms(1-4)]
  by (auto simp: invitePlayer_def Let_def isPlayerInvited_def invited_def)

lemma party_create_effect:
  assumes "party_inv w" and "pl_party (players w x) = None" and "party_create e x w = (p, w1)"
  shows "p = nextParty w" and "core_inv w1" and "others_alive p w1" and "getLeader p w1 = Some x"
    and "getInvitees p w1 = []" and "pl_party (players w1 y) = (if y = x then Some p else pl_party (players w y))"
proof -
  let ?p = "nextParty w"
  let ?u = "w\<lparr>parties := (parties w)(?p := new_party\<lparr>m_leader := Some x\<rparr>), nextParty := ?p + 1\<rparr>"
  let ?v = "setParty (Some ?p) x ?u"
  have c: "core_inv w" and fresh: "\<And>q. ?p \<le> q \<Longrightarrow> getLeader q w = None"
    using assms(1) by (auto simp: party_inv_core core_inv_def)
  have empty: "getMembers ?p w = []" "getInvitees ?p w = []" "getLeader ?p w = None"
    using c fresh [of ?p] by (auto simp: core_inv_def)
  have "getLeader q ?u = (if q = ?p then Some x else getLeader q w)" "getMembers q ?u = getMembers q w"
    "getInvitees q ?u = getInvitees q w" for q
    using empty by (auto simp: party_get_defs new_party_def simp del: party_fold)
  note g = this [simplified]
  have "agree ?v"
    unfolding agree_def
  proof (intro allI)
    fix q y
    show "pl_party (players ?v y) = Some q \<longleftrightarrow> getLeader q ?v = Some y \<or> y \<in> set (getMembers q ?v)"
      using agreeD [OF c, of y q] agreeD [OF c, of x q] assms(2) empty by (auto simp: g)
  qed
  moreover have "lists_ok ?v"
    using c empty unfolding core_inv_def lists_ok_def by (auto simp: g)
  ultimately have v: "core_inv ?v" "others_alive ?p ?v"
    using c fresh assms(1) by (auto simp: core_inv_def invites_agree_def g party_inv_core others_alive_def party_empty_def)
  have sm: "p = ?p" "same_members ?v w1"
    using assms(3) setSharedExperience_same by (auto simp: party_create_def Let_def split: if_splits)
  show "p = ?p" by (rule sm(1))
  show "core_inv w1" "others_alive p w1" using v same_members_inv [OF sm(2)] sm(1) by simp_all
  show "getLeader p w1 = Some x" "getInvitees p w1 = []"
    "pl_party (players w1 y) = (if y = x then Some p else pl_party (players w y))"
    using sm g empty by (simp_all add: same_members_def)
qed


section \<open>The game's handlers\<close>

lemma party_inv_parts:
  assumes "party_inv w"
  shows "core_inv w" and "others_alive p w"
  using assms by (auto simp: party_inv_core others_alive_def)

lemma playerInviteToParty_inv:
  assumes "party_inv w"
  shows "party_inv (playerInviteToParty e x y w)"
proof (cases "pl_party (players w y)")
  case (Some q)
  with assms show ?thesis by (simp add: playerInviteToParty_def)
next
  case None
  show ?thesis
  proof (cases "pl_party (players w x)")
    case None': None
    obtain p w1 where cr: "party_create e x w = (p, w1)" by fastforce
    note c = party_create_effect [OF assms None' cr]
    show ?thesis
    proof (cases "x = y")
      case True
      with assms show ?thesis by (simp add: playerInviteToParty_def)
    next
      case False
      then have "pl_party (players w1 y) = None" using c(6) [of y] None by simp
      then have "party_inv (snd (invitePlayer p y w1))"
        by (rule invitePlayer_inv [OF c(2-4)]) (simp add: isPlayerInvited_def c(5))
      then show ?thesis using assms None None' cr False by (simp add: playerInviteToParty_def)
    qed
  next
    case (Some p)
    then show ?thesis
      using assms None invitePlayer_inv [OF party_inv_parts(1) [OF assms] party_inv_parts(2) [OF assms, of p] _ None]
      by (auto simp: playerInviteToParty_def)
  qed
qed

lemma playerJoinParty_inv: "party_inv w \<Longrightarrow> party_inv (playerJoinParty e x l w)"
  by (auto simp: playerJoinParty_def joinParty_inv split: option.splits)

lemma playerRevokePartyInvitation_inv:
  "disband_allowed e \<Longrightarrow> party_inv w \<Longrightarrow> party_inv (playerRevokePartyInvitation e x y w)"
  by (auto simp: playerRevokePartyInvitation_def revokeInvitation_inv split: option.splits)

lemma playerPassPartyLeadership_inv: "party_inv w \<Longrightarrow> party_inv (playerPassPartyLeadership e x y w)"
  by (auto simp: playerPassPartyLeadership_def passPartyLeadership_inv split: option.splits)

lemma playerLeaveParty_inv: "disband_allowed e \<Longrightarrow> party_inv w \<Longrightarrow> party_inv (playerLeaveParty e b x w)"
  by (auto simp: playerLeaveParty_def leaveParty_inv split: option.splits)

lemma playerEnableSharedPartyExperience_inv:
  "party_inv w \<Longrightarrow> party_inv (playerEnableSharedPartyExperience e b x a w)"
  using same_members_inv(1) [OF setSharedExperience_same]
  by (auto simp: playerEnableSharedPartyExperience_def split: option.splits)

text \<open>
  The loop of \<open>clearPartyInvitations\<close> leaves the player's own list alone until its end: between its steps
  the invariant holds for some other list in its place.
\<close>

definition with_invites :: "player \<Rightarrow> party_id list \<Rightarrow> PartyWorld \<Rightarrow> PartyWorld" where
  "with_invites x js w = upd_player x (\<lambda>s. s\<lparr>invitePartyList := js\<rparr>) w"

lemma with_invites_get [simp]:
  "getLeader q (with_invites x js w) = getLeader q w" "getMembers q (with_invites x js w) = getMembers q w"
  "getInvitees q (with_invites x js w) = getInvitees q w" "nextParty (with_invites x js w) = nextParty w"
  "pl_party (players (with_invites x js w) y) = pl_party (players w y)"
  "invitePartyList (players (with_invites x js w) y) = (if y = x then js else invitePartyList (players w y))"
  by (simp_all add: with_invites_def)

definition inv_but :: "player \<Rightarrow> PartyWorld \<Rightarrow> bool" where
  "inv_but x w \<longleftrightarrow> (\<exists>js. party_inv (with_invites x js w))"

lemma removeInvite_False:
  assumes "disband_allowed e" and "inv_but x w"
  shows "inv_but x (snd (removeInvite e p x False w))"
    and "x \<in> set (getInvitees q (snd (removeInvite e p x False w))) \<Longrightarrow> q \<noteq> p \<and> x \<in> set (getInvitees q w)"
proof -
  obtain js where js: "party_inv (with_invites x js w)" using assms(2) by (auto simp: inv_but_def)
  have alive: "x \<in> set (getInvitees p w) \<Longrightarrow> getLeader p w \<noteq> None"
    using js by (auto simp: party_inv_def alive_ok_def)
  have "distinct (getInvitees p w)" using js by (simp add: party_inv_def lists_ok_def)
  then have gone: "x \<notin> set (remove1 x (getInvitees p w))" by simp
  show "inv_but x (snd (removeInvite e p x False w))"
  proof (cases "x \<in> set (getInvitees p w)")
    case False
    with assms(2) show ?thesis by (simp add: removeInvite_def split: option.splits)
  next
    case True
    then obtain l where l: "getLeader p w = Some l" using alive by blast
    let ?w1 = "upd_party p (\<lambda>s. s\<lparr>inviteList := remove1 x (inviteList s)\<rparr>) w"
    let ?js = "filter (\<lambda>q. q \<noteq> p) js"
    have r: "snd (removeInvite e p x False w) = (if party_empty p ?w1 then disband e p ?w1 else ?w1)"
      using l True by (simp add: removeInvite_def Let_def)
    have "getLeader p (with_invites x js w) = Some l" using l by simp
    note u = uninvited_core [OF js this, of x]
    have sm: "same_members (uninvited p x (with_invites x js w)) (with_invites x ?js ?w1)"
      by (auto simp: same_members_def uninvited_def)
    from finish_leave [OF assms(1) u sm]
    have fin: "party_inv (if party_empty p ?w1 then disband e p (with_invites x ?js ?w1) else with_invites x ?js ?w1)"
      by (simp add: party_empty_def)
    show ?thesis
    proof (cases "party_empty p ?w1")
      case True
      have l1: "getLeader p ?w1 = Some l" "getLeader p (with_invites x ?js ?w1) = Some l" using l by simp_all
      have "same_members (disband e p (with_invites x ?js ?w1)) (with_invites x ?js (disband e p ?w1))"
        using True disband_get [OF assms(1) l1(1)] disband_get [OF assms(1) l1(2)]
        by (simp add: same_members_def party_empty_def)
      with fin True r show ?thesis using same_members_inv(1) by (auto simp: inv_but_def)
    next
      case False
      with fin r show ?thesis by (auto simp: inv_but_def)
    qed
  qed
  show "q \<noteq> p \<and> x \<in> set (getInvitees q w)" if "x \<in> set (getInvitees q (snd (removeInvite e p x False w)))"
  proof (cases "getLeader p w")
    case None
    with that alive show ?thesis by (auto simp: removeInvite_def)
  next
    case (Some l)
    then have "getLeader p (upd_party p (\<lambda>s. s\<lparr>inviteList := remove1 x (inviteList s)\<rparr>) w) = Some l" by simp
    from that Some disband_get(3) [OF assms(1) this] gone show ?thesis
      by (auto simp: removeInvite_def Let_def split: if_splits dest: notin_set_remove1)
  qed
qed

lemma foldl_removeInvite:
  assumes "disband_allowed e"
  shows "inv_but x w \<Longrightarrow> inv_but x (foldl (\<lambda>w p. snd (removeInvite e p x False w)) w ps) \<and>
    (\<forall>q. x \<in> set (getInvitees q (foldl (\<lambda>w p. snd (removeInvite e p x False w)) w ps)) \<longrightarrow>
       q \<notin> set ps \<and> x \<in> set (getInvitees q w))"
proof (induction ps arbitrary: w)
  case (Cons p ps)
  from Cons.IH [OF removeInvite_False(1) [OF assms Cons.prems]] removeInvite_False(2) [OF assms Cons.prems]
  show ?case by auto
qed simp

lemma clearPartyInvitations_inv:
  assumes "disband_allowed e" and "party_inv w"
  shows "party_inv (clearPartyInvitations e x w)" and "x \<notin> set (getInvitees p (clearPartyInvitations e x w))"
proof -
  let ?v = "foldl (\<lambda>w p. snd (removeInvite e p x False w)) w (invitePartyList (players w x))"
  have "with_invites x (invitePartyList (players w x)) w = w"
    by (simp add: with_invites_def upd_player_def)
  then have "inv_but x w" using assms(2) by (metis inv_but_def)
  note f = foldl_removeInvite [OF assms(1) this, of "invitePartyList (players w x)"]
  obtain js where js: "party_inv (with_invites x js ?v)" using f by (auto simp: inv_but_def)
  have none: "x \<notin> set (getInvitees q ?v)" for q
    using f assms(2) by (auto simp: party_inv_def invites_agree_def)
  then have "set js = {}"
    using js unfolding party_inv_def invites_agree_def by (metis empty_set equals0I with_invites_get(3,6))
  with js show "party_inv (clearPartyInvitations e x w)" by (simp add: clearPartyInvitations_def with_invites_def)
  show "x \<notin> set (getInvitees p (clearPartyInvitations e x w))" using none by (simp add: clearPartyInvitations_def)
qed

lemma party_logout_inv:
  assumes "disband_allowed e" and "party_inv w"
  shows "party_inv (party_logout e x w)"
  using assms by (auto simp: party_logout_def clearPartyInvitations_inv leaveParty_inv split: option.splits)


section \<open>Runs of the game\<close>

datatype party_request =
    Invite player player | Join player player | Revoke player player | Pass player player
  | Leave bool player | ShareExp bool player bool | Logout player | Ticks party_id player u32

fun party_step :: "Env \<Rightarrow> party_request \<Rightarrow> PartyWorld \<Rightarrow> PartyWorld" where
  "party_step e (Invite x y) w = playerInviteToParty e x y w"
| "party_step e (Join x l) w = playerJoinParty e x l w"
| "party_step e (Revoke x y) w = playerRevokePartyInvitation e x y w"
| "party_step e (Pass x y) w = playerPassPartyLeadership e x y w"
| "party_step e (Leave blocked x) w = playerLeaveParty e blocked x w"
| "party_step e (ShareExp blocked x active) w = playerEnableSharedPartyExperience e blocked x active w"
| "party_step e (Logout x) w = party_logout e x w"
| "party_step e (Ticks p x n) w = updatePlayerTicks e p x n w"

definition run_party :: "(Env \<times> party_request) list \<Rightarrow> PartyWorld \<Rightarrow> PartyWorld" where
  "run_party rs w = foldl (\<lambda>w (e, r). party_step e r w) w rs"

definition no_parties :: "PartyWorld \<Rightarrow> bool" where
  "no_parties w \<longleftrightarrow> (\<forall>p. parties w p = new_party) \<and>
     (\<forall>x. pl_party (players w x) = None \<and> invitePartyList (players w x) = [])"

lemma no_parties_inv: "no_parties w \<Longrightarrow> party_inv w"
  by (simp add: no_parties_def party_inv_defs party_get_defs new_party_def del: party_fold)

lemma party_step_inv: "disband_allowed e \<Longrightarrow> party_inv w \<Longrightarrow> party_inv (party_step e r w)"
  using same_members_inv(1) [OF updatePlayerTicks_same]
  by (cases r) (simp_all add: playerInviteToParty_inv playerJoinParty_inv playerRevokePartyInvitation_inv
      playerPassPartyLeadership_inv playerLeaveParty_inv playerEnableSharedPartyExperience_inv party_logout_inv)

lemma run_party_inv:
  "\<forall>(e, r) \<in> set rs. disband_allowed e \<Longrightarrow> party_inv w \<Longrightarrow> party_inv (run_party rs w)"
  by (induction rs arbitrary: w) (auto simp: run_party_def party_step_inv)

section \<open>Levels and shared experience\<close>

lemma foldl_highest:
  "foldl (\<lambda>h m. if f m > h then f m else h) (h0 :: u32) ms = Max (insert h0 (f ` set ms))"
proof (induction ms arbitrary: h0)
  case (Cons m ms)
  have "Max (insert (if f m > h0 then f m else h0) (f ` set ms)) = Max (insert h0 (f ` set (m # ms)))"
    by (cases "f ` set ms = {}") (auto simp: max_def Max_insert2)
  with Cons show ?case by simp
qed simp

lemma first_bad_ok: "first_bad ss = SHAREDEXP_OK \<longleftrightarrow> (\<forall>s \<in> set ss. s = SHAREDEXP_OK)"
  by (induction ss) auto

lemma member_status_ok:
  "getMemberSharedExperienceStatus e p x w = SHAREDEXP_OK \<longleftrightarrow>
   (\<exists>l. getLeader p w = Some l \<and> getMembers p w \<noteq> [] \<and> getMinLevel e p w \<le> pl_level (players w x) \<and>
     areInRange3 30 30 1 (pl_position (players w l)) (pl_position (players w x)) \<and>
     (notGainInFight (players w x) \<or> isPlayerActive e p x w))"
  by (auto simp: getMemberSharedExperienceStatus_def split: option.splits)

lemma count_vocations_distinct:
  "distinct seen \<Longrightarrow> distinct (count_vocations vs seen)"
  by (induction vs seen rule: count_vocations.induct) (auto split: option.splits)

lemma count_vocations_card:
  "distinct seen \<Longrightarrow> length seen \<le> 4 \<Longrightarrow>
   length (count_vocations vs seen) = min 4 (card (set seen \<union> {b. Some b \<in> set vs}))"
proof (induction vs seen rule: count_vocations.induct)
  case (1 seen)
  then show ?case by (simp add: distinct_card)
next
  case (2 v vs seen)
  have fin: "finite {b. Some b \<in> set (v # vs)}"
    by (rule finite_subset [of _ "the ` set (v # vs)"]) force+
  show ?case
  proof (cases "length seen \<ge> 4")
    case True
    have "card (set seen) \<le> card (set seen \<union> {b. Some b \<in> set (v # vs)})"
      by (rule card_mono) (use fin in auto)
    with True 2(3,4) show ?thesis by (simp add: distinct_card)
  next
    case False
    show ?thesis
    proof (cases v)
      case None
      with 2(1) [OF False None] 2(3,4) False show ?thesis by simp
    next
      case (Some b)
      have "set (List.insert b seen) \<union> {c. Some c \<in> set vs} = set seen \<union> {c. Some c \<in> set (v # vs)}"
        using Some by auto
      moreover have "length (List.insert b seen) \<le> 4" using False by (simp add: List.insert_def)
      ultimately show ?thesis using 2(2) [OF False Some] 2(3) False Some by simp
    qed
  qed
qed

section \<open>Properties\<close>

text \<open>C10: After any sequence of invitations, joins, revocations, leadership changes, departures and logouts,
  in any order and by any players, every player is in at most one party, which lists them exactly once
  as leader or member; invitations are recorded equally on both sides; no party invites its own people;
  and a party exists exactly as long as it has a member or an invitee.\<close>

theorem parties_stay_consistent:
  assumes "no_parties w" and "\<forall>(e, r) \<in> set rs. disband_allowed e"
  shows "party_inv (run_party rs w)"
  using run_party_inv [OF assms(2) no_parties_inv [OF assms(1)]] .

definition sample_env :: Env where
  "sample_env = \<lparr>now = 0, shareActivity = 120000, autoShareExperience = True, minLevelFor = \<lambda>l. l div 2,
     maxLevelFor = \<lambda>l. l * 2, eventOnDisband = \<lambda>_. True, callbackOnDisband = \<lambda>_. True,
     eventOnLeave = \<lambda>_ _. True, callbackOnLeave = \<lambda>_ _. True, eventOnJoin = \<lambda>_ _. True,
     callbackOnJoin = \<lambda>_ _. True\<rparr>"

definition sample_world :: PartyWorld where
  "sample_world = \<lparr>parties = \<lambda>_. new_party, nextParty = 0,
     players = \<lambda>_. \<lparr>pl_party = None, invitePartyList = [], pl_level = 10,
       pl_position = mkPosition 100 100 7, notGainInFight = False, pl_vocation = Some 1\<rparr>\<rparr>"

lemma sample_world_ok: "no_parties sample_world" "disband_allowed sample_env"
  by (simp_all add: no_parties_def sample_world_def disband_allowed_def sample_env_def)

theorem parties_stay_consistent_witness:
  "party_inv (run_party (map (Pair sample_env) [Invite 1 2, Join 2 1, Leave False 1]) sample_world)"
  by (rule parties_stay_consistent) (simp_all add: sample_world_ok)

text \<open>When the leader leaves a party that goes on, the member who has been in it longest becomes the
  leader, the others stay in order, and the old leader is in no party.\<close>

theorem leader_departure:
  assumes "party_inv w" and "getLeader p w = Some l" and "getMembers p w = n # rest"
    and "rest \<noteq> []" and "eventOnLeave e p l" and "callbackOnLeave e p l"
  shows "getLeader p (playerLeaveParty e False l w) = Some n \<and>
    getMembers p (playerLeaveParty e False l w) = rest \<and>
    pl_party (players (playerLeaveParty e False l w) l) = None"
proof -
  have c: "core_inv w" using assms(1) by (simp add: party_inv_core)
  have l: "pl_party (players w l) = Some p" and n: "pl_party (players w n) = Some p" "l \<noteq> n"
    using agreeD [OF c, of _ p] leader_not_member [OF c assms(2)] assms(2,3) by auto
  let ?v = "snd (passPartyLeadership e p n w)"
  let ?f = "clearPlayerPoints e p l (updateSharedExperience e p (without p l ?v))"
  have "same_members (without p l (handed_over p l n w)) ?f"
    using same_members_without [OF passPartyLeadership_effect(2) [OF assms(2) n(2,1)]]
      leave_updates_same same_members_trans by blast
  then have f: "getLeader p ?f = Some n" "getMembers p ?f = rest" "pl_party (players ?f l) = None"
    using assms(3) by (simp_all add: same_members_def without_def handed_over_def)
  then have "\<not> party_empty p ?f" using assms(4) by (simp add: party_empty_def)
  then have "playerLeaveParty e False l w = ?f"
    using assms l by (simp add: playerLeaveParty_def leaveParty_def Let_def without_def)
  then show ?thesis using f by simp
qed

definition party_of_three :: PartyWorld where
  "party_of_three = sample_world\<lparr>parties := (\<lambda>_. new_party)(0 := new_party\<lparr>m_leader := Some 1, memberList := [2, 3]\<rparr>),
     nextParty := 1, players := \<lambda>x. (players sample_world x)\<lparr>pl_party := if x \<in> {1, 2, 3} then Some 0 else None\<rparr>\<rparr>"

lemma party_of_three_inv: "party_inv party_of_three"
  by (auto simp: party_of_three_def party_inv_defs party_get_defs new_party_def sample_world_def simp del: party_fold)

theorem leader_departure_witness:
  "getLeader 0 (playerLeaveParty sample_env False 1 party_of_three) = Some 2 \<and>
    getMembers 0 (playerLeaveParty sample_env False 1 party_of_three) = [3] \<and>
    pl_party (players (playerLeaveParty sample_env False 1 party_of_three) 1) = None"
  by (rule leader_departure [OF party_of_three_inv])
     (simp_all add: party_of_three_def party_get_defs sample_env_def del: party_fold)

text \<open>A script that refuses the disbanding of a party leaves the two sides in disagreement: the leader of
  a party with one member can leave, and the party still names as its leader a player with no party.\<close>

theorem disband_veto_is_inconsistent:
  assumes "getLeader p w = Some l" and "getMembers p w = [m]" and "getInvitees p w = []" and "l \<noteq> m"
    and "callbackOnLeave e p l" and "\<not> eventOnDisband e p"
  shows "getLeader p (snd (leaveParty e p l True w)) = Some l \<and>
    pl_party (players (snd (leaveParty e p l True w)) l) = None"
proof -
  have "same_members (without p l w) (clearPlayerPoints e p l (updateSharedExperience e p (without p l w)))"
    by (rule leave_updates_same)
  moreover have "snd (leaveParty e p l True w) = clearPlayerPoints e p l (updateSharedExperience e p (without p l w))"
    using assms by (simp add: leaveParty_def Let_def without_def disband_def)
  ultimately show ?thesis using assms by (simp add: same_members_def without_def)
qed

theorem disband_veto_is_inconsistent_witness:
  "\<exists>w v. party_inv w \<and> v = snd (leaveParty (sample_env\<lparr>eventOnDisband := \<lambda>_. False\<rparr>) 0 1 True w) \<and> \<not> party_inv v"
proof -
  let ?w = "sample_world\<lparr>parties := (\<lambda>_. new_party)(0 := new_party\<lparr>m_leader := Some 1, memberList := [2]\<rparr>),
     nextParty := 1, players := \<lambda>x. (players sample_world x)\<lparr>pl_party := if x \<in> {1, 2} then Some 0 else None\<rparr>\<rparr>"
  let ?e = "sample_env\<lparr>eventOnDisband := \<lambda>_. False\<rparr>"
  have "party_inv ?w"
    by (auto simp: party_inv_defs party_get_defs new_party_def sample_world_def simp del: party_fold)
  moreover have "getLeader 0 (snd (leaveParty ?e 0 1 True ?w)) = Some 1 \<and>
    pl_party (players (snd (leaveParty ?e 0 1 True ?w)) 1) = None"
    by (rule disband_veto_is_inconsistent [where m = 2])
       (simp_all add: party_get_defs new_party_def sample_env_def del: party_fold)
  moreover have "\<not> party_inv v" if "getLeader 0 v = Some 1 \<and> pl_party (players v 1) = None" for v
    using agreeD [of v 1 0] that by (auto simp: party_inv_core)
  ultimately show ?thesis by blast
qed

text \<open>Experience is shared exactly when the party has a member and the leader and every member have at
  least the minimum level for the highest level of the party, are near the leader, and have fought
  recently or do not take part in fights.\<close>

theorem shared_experience_condition:
  "getSharedExperienceStatus e p w = SHAREDEXP_OK \<longleftrightarrow>
   (\<exists>l. getLeader p w = Some l \<and> getMembers p w \<noteq> [] \<and>
     list_all (\<lambda>x. minLevelFor e (Max (pl_level ` players w ` set (l # getMembers p w))) \<le> pl_level (players w x) \<and>
       areInRange3 30 30 1 (pl_position (players w l)) (pl_position (players w x)) \<and>
       (notGainInFight (players w x) \<or> isPlayerActive e p x w)) (l # getMembers p w))"
proof -
  have "getLeader p w = Some l \<Longrightarrow> getHighestLevel p w = Max (pl_level ` players w ` set (l # getMembers p w))" for l
    by (simp add: getHighestLevel_def foldl_highest image_image)
  then show ?thesis
    by (auto simp: getSharedExperienceStatus_def first_bad_ok member_status_ok getMinLevel_def list_all_iff
        split: option.splits)
qed

text \<open>The number of unique vocations is the number of different base vocations of the leader and the
  members, counted up to four.\<close>

theorem unique_vocations:
  "getUniqueVocationsCount p w =
     min 4 (card {b. Some b \<in> pl_vocation ` players w ` ({l. getLeader p w = Some l} \<union> set (getMembers p w))})"
proof -
  have *: "length (count_vocations vs seen) = min 4 (card (set seen \<union> {b. Some b \<in> set vs}))"
    if "length seen \<le> 1" for vs seen
    using that by (intro count_vocations_card) (cases seen, auto)
  let ?vs = "map (\<lambda>m. pl_vocation (players w m)) (getMembers p w)"
  let ?first = "case getLeader p w of None \<Rightarrow> []
    | Some l \<Rightarrow> (case pl_vocation (players w l) of None \<Rightarrow> [] | Some b \<Rightarrow> [b])"
  have "length ?first \<le> 1" by (simp split: option.splits)
  note n = * [OF this, of ?vs]
  have "set ?first \<union> {b. Some b \<in> set ?vs} =
      {b. Some b \<in> pl_vocation ` players w ` ({l. getLeader p w = Some l} \<union> set (getMembers p w))}"
    by (force split: option.splits)
  with n show ?thesis by (simp add: getUniqueVocationsCount_def Let_def)
qed

end
