(* ===== verification/Party_View.thy ===== *)
theory Party_View
  imports Party
begin

text \<open>
  What a party shows its players: the shield \<open>Player::getPartyShield\<close> draws over another player, and the
  notices \<^verbatim>\<open>party.cpp\<close> sends when a player moves, is hurt, spends mana or changes vocation
  (\<open>showPlayerStatus\<close> to \<open>updateTrackerAnalyzer\<close>, \<open>updateAllPartyIcons\<close>, \<open>canOpenCorpse\<close>).  A notice is
  a value: the receiver, and the creature it is about.  The percentages, computed in double precision,
  and the summons of a player are parameters.
\<close>

section \<open>Shields\<close>

datatype PartyShields_t =
    SHIELD_NONE | SHIELD_WHITEYELLOW | SHIELD_WHITEBLUE | SHIELD_BLUE | SHIELD_YELLOW
  | SHIELD_BLUE_SHAREDEXP | SHIELD_YELLOW_SHAREDEXP
  | SHIELD_BLUE_NOSHAREDEXP_BLINK | SHIELD_YELLOW_NOSHAREDEXP_BLINK
  | SHIELD_BLUE_NOSHAREDEXP | SHIELD_YELLOW_NOSHAREDEXP | SHIELD_GRAY

text \<open>The shield that \<open>x\<close> sees over \<open>y\<close>; without a party of \<open>x\<close> only the last part applies.\<close>

definition foreign_shield :: "player \<Rightarrow> player \<Rightarrow> PartyWorld \<Rightarrow> PartyShields_t" where
  "foreign_shield x y w =
     (if isInviting y x w then SHIELD_WHITEYELLOW
      else if pl_party (players w y) \<noteq> None then SHIELD_GRAY
      else SHIELD_NONE)"

definition getPartyShield :: "Env \<Rightarrow> player \<Rightarrow> player \<Rightarrow> PartyWorld \<Rightarrow> PartyShields_t" where
  "getPartyShield e x y w =
     (case pl_party (players w x) of
        None \<Rightarrow> foreign_shield x y w
      | Some p \<Rightarrow>
          if getLeader p w = Some y then
            (if sharedExpActive (parties w p) then
               (if sharedExpEnabled (parties w p) then SHIELD_YELLOW_SHAREDEXP
                else if canUseSharedExperience e p y w then SHIELD_YELLOW_NOSHAREDEXP
                else SHIELD_YELLOW_NOSHAREDEXP_BLINK)
             else SHIELD_YELLOW)
          else if pl_party (players w y) = Some p then
            (if sharedExpActive (parties w p) then
               (if sharedExpEnabled (parties w p) then SHIELD_BLUE_SHAREDEXP
                else if canUseSharedExperience e p y w then SHIELD_BLUE_NOSHAREDEXP
                else SHIELD_BLUE_NOSHAREDEXP_BLINK)
             else SHIELD_BLUE)
          else if isInviting x y w then SHIELD_WHITEBLUE
          else foreign_shield x y w)"

section \<open>Notices\<close>

datatype creature = PlayerC player | SummonC u32

datatype Notice =
    ShowStatus player creature bool
  | CreatureHealth player creature u8
  | PlayerMana player player u8
  | PlayerVocation player player
  | CreatureShield player player
  | TrackerAnalyzer player

record View =
  partyListMaxDistance :: int
  getSummons :: "player \<Rightarrow> u32 list"
  healthPercent :: "creature \<Rightarrow> u8"
  manaPercent :: "player \<Rightarrow> u8"

definition updateTrackerAnalyzer :: "party_id \<Rightarrow> PartyWorld \<Rightarrow> Notice list" where
  "updateTrackerAnalyzer p w =
     (case getLeader p w of None \<Rightarrow> [] | Some l \<Rightarrow> map TrackerAnalyzer (getMembers p w @ [l]))"

definition updateAllPartyIcons :: "party_id \<Rightarrow> PartyWorld \<Rightarrow> Notice list" where
  "updateAllPartyIcons p w =
     (case getLeader p w of
        None \<Rightarrow> []
      | Some l \<Rightarrow>
          concat (map (\<lambda>m. map (CreatureShield m) (getMembers p w) @ [CreatureShield m l, CreatureShield l m])
            (getMembers p w)) @ [CreatureShield l l] @ updateTrackerAnalyzer p w)"

definition showPlayerStatus :: "View \<Rightarrow> player \<Rightarrow> player \<Rightarrow> bool \<Rightarrow> Notice list" where
  "showPlayerStatus v x m showStatus =
     [ShowStatus x (PlayerC m) showStatus, ShowStatus m (PlayerC x) showStatus] @
     (if showStatus then
        concat (map (\<lambda>s. [ShowStatus x (SummonC s) True, CreatureHealth x (SummonC s) (healthPercent v (SummonC s))])
          (getSummons v m)) @
        concat (map (\<lambda>s. [ShowStatus m (SummonC s) True, CreatureHealth m (SummonC s) (healthPercent v (SummonC s))])
          (getSummons v x)) @
        [CreatureHealth x (PlayerC m) (healthPercent v (PlayerC m)),
         CreatureHealth m (PlayerC x) (healthPercent v (PlayerC x)),
         PlayerMana x m (manaPercent v m), PlayerMana m x (manaPercent v x)]
      else
        map (\<lambda>s. ShowStatus m (SummonC s) False) (getSummons v x) @
        map (\<lambda>s. ShowStatus x (SummonC s) False) (getSummons v m))"

definition near :: "View \<Rightarrow> Position \<Rightarrow> Position \<Rightarrow> bool" where
  "near v a b \<longleftrightarrow> getDistanceX a b \<le> partyListMaxDistance v \<and> getDistanceY a b \<le> partyListMaxDistance v"

definition in_list_range :: "View \<Rightarrow> Position \<Rightarrow> Position \<Rightarrow> bool" where
  "in_list_range v a b \<longleftrightarrow> partyListMaxDistance v = 0 \<or> near v a b"

text \<open>The members, then the leader, as the loops visit them; nobody in a party without a leader.\<close>

definition audience :: "party_id \<Rightarrow> PartyWorld \<Rightarrow> player list" where
  "audience p w = (case getLeader p w of None \<Rightarrow> [] | Some l \<Rightarrow> getMembers p w @ [l])"

definition updatePlayerStatus :: "View \<Rightarrow> party_id \<Rightarrow> player \<Rightarrow> PartyWorld \<Rightarrow> Notice list" where
  "updatePlayerStatus v p x w =
     concat (map (\<lambda>m. showPlayerStatus v x m (in_list_range v (pl_position (players w x)) (pl_position (players w m))))
       (audience p w))"

definition updatePlayerStatus_moved :: "View \<Rightarrow> party_id \<Rightarrow> player \<Rightarrow> Position \<Rightarrow> Position \<Rightarrow> PartyWorld \<Rightarrow> Notice list" where
  "updatePlayerStatus_moved v p x oldPos newPos w =
     (if partyListMaxDistance v \<noteq> 0 then
        concat (map (\<lambda>m.
          let condition1 = near v oldPos (pl_position (players w m));
              condition2 = near v newPos (pl_position (players w m))
          in if condition1 \<and> \<not> condition2 then showPlayerStatus v x m False
             else if \<not> condition1 \<and> condition2 then showPlayerStatus v x m True
             else []) (audience p w))
      else [])"

definition updatePlayerHealth :: "View \<Rightarrow> party_id \<Rightarrow> player \<Rightarrow> creature \<Rightarrow> u8 \<Rightarrow> PartyWorld \<Rightarrow> Notice list" where
  "updatePlayerHealth v p x target percent w =
     map (\<lambda>m. CreatureHealth m target percent)
       (filter (\<lambda>m. in_list_range v (pl_position (players w x)) (pl_position (players w m))) (audience p w))"

definition updatePlayerMana :: "View \<Rightarrow> party_id \<Rightarrow> player \<Rightarrow> u8 \<Rightarrow> PartyWorld \<Rightarrow> Notice list" where
  "updatePlayerMana v p x percent w =
     map (\<lambda>m. PlayerMana m x percent)
       (filter (\<lambda>m. in_list_range v (pl_position (players w x)) (pl_position (players w m))) (audience p w))"

definition updatePlayerVocation :: "View \<Rightarrow> party_id \<Rightarrow> player \<Rightarrow> PartyWorld \<Rightarrow> Notice list" where
  "updatePlayerVocation v p x w =
     map (\<lambda>m. PlayerVocation m x)
       (filter (\<lambda>m. in_list_range v (pl_position (players w x)) (pl_position (players w m))) (audience p w))"

text \<open>\<open>exists\<close> tells whether the game knows a player of that identifier.\<close>

definition canOpenCorpse :: "(player \<Rightarrow> bool) \<Rightarrow> party_id \<Rightarrow> player \<Rightarrow> PartyWorld \<Rightarrow> bool" where
  "canOpenCorpse exists p ownerId w =
     (case getLeader p w of
        None \<Rightarrow> False
      | Some l \<Rightarrow>
          if exists ownerId then l = ownerId \<or> pl_party (players w ownerId) = Some p else False)"

section \<open>The party list follows the positions\<close>

text \<open>What a client shows: whether \<open>to\<close> lists \<open>about\<close> as near.\<close>

fun apply_notice :: "Notice \<Rightarrow> (player \<times> creature \<Rightarrow> bool) \<Rightarrow> player \<times> creature \<Rightarrow> bool" where
  "apply_notice (ShowStatus to about b) shown = shown((to, about) := b)"
| "apply_notice _ shown = shown"

definition shown_after :: "Notice list \<Rightarrow> (player \<times> creature \<Rightarrow> bool) \<Rightarrow> player \<times> creature \<Rightarrow> bool" where
  "shown_after ns shown = fold apply_notice ns shown"

lemma shown_after_simps [simp]:
  "shown_after [] s = s" "shown_after (n # ns) s = shown_after ns (apply_notice n s)"
  "shown_after (ms @ ns) s = shown_after ns (shown_after ms s)"
  by (simp_all add: shown_after_def)

lemma shown_summons:
  "shown_after (concat (map (\<lambda>s. [ShowStatus y (SummonC s) b, CreatureHealth y (SummonC s) (h s)]) ss)) sh (a, PlayerC c)
     = sh (a, PlayerC c)"
  "shown_after (map (\<lambda>s. ShowStatus y (SummonC s) b) ss) sh (a, PlayerC c) = sh (a, PlayerC c)"
  by (induction ss arbitrary: sh) auto

lemma shown_status:
  "shown_after (showPlayerStatus v x m b) sh (a, PlayerC c) =
     (if (a, c) = (x, m) \<or> (a, c) = (m, x) then b else sh (a, PlayerC c))"
  unfolding showPlayerStatus_def
  by (cases b; simp only: if_True if_False append_Cons append_Nil;
      simp only: shown_after_simps apply_notice.simps shown_summons;
      simp only: fun_upd_apply prod.inject creature.inject;
      cases "a = x"; cases "a = m"; cases "c = m"; cases "c = x"; simp only: HOL.simp_thms if_True if_False)

lemma members_distinct: "core_inv w \<Longrightarrow> distinct (getMembers p w)"
  by (simp add: core_inv_def lists_ok_def)

lemma audience_distinct:
  assumes "party_inv w"
  shows "distinct (audience p w)"
proof -
  have c: "core_inv w" using assms by (simp add: party_inv_core)
  show ?thesis
    using members_distinct [OF c, of p] leader_not_member [OF c, of p]
    by (cases "getLeader p w") (simp_all add: audience_def)
qed

lemma shown_one:
  assumes "(a, c) = (x, m) \<or> (a, c) = (m, x)" and "sh (a, PlayerC c) = c1"
  shows "shown_after (if c1 \<and> \<not> c2 then showPlayerStatus v x m False
      else if \<not> c1 \<and> c2 then showPlayerStatus v x m True else []) sh (a, PlayerC c) = c2"
  using assms by (cases c1; cases c2) (auto simp: shown_status)

section \<open>Properties\<close>

text \<open>The party list follows a move: if before it two players of a party are listed as near exactly when
  they are, then after the notices of the move the mover and every other player of the party list each
  other exactly when they are near from the new position.\<close>

theorem party_list_follows_move:
  assumes "party_inv w" and "partyListMaxDistance v \<noteq> 0" and "m \<in> set (audience p w)" and "m \<noteq> x"
    and "shown (x, PlayerC m) = near v oldPos (pl_position (players w m))"
    and "shown (m, PlayerC x) = near v oldPos (pl_position (players w m))"
  shows "shown_after (updatePlayerStatus_moved v p x oldPos newPos w) shown (x, PlayerC m)
      = near v newPos (pl_position (players w m)) \<and>
    shown_after (updatePlayerStatus_moved v p x oldPos newPos w) shown (m, PlayerC x)
      = near v newPos (pl_position (players w m))"
proof -
  let ?f = "\<lambda>m. if near v oldPos (pl_position (players w m)) \<and> \<not> near v newPos (pl_position (players w m))
      then showPlayerStatus v x m False
      else if \<not> near v oldPos (pl_position (players w m)) \<and> near v newPos (pl_position (players w m))
      then showPlayerStatus v x m True else []"
  obtain as bs where split: "audience p w = as @ m # bs" by (meson assms(3) split_list)
  have d: "distinct (as @ m # bs)" using audience_distinct [OF assms(1), of p] split by simp
  have other: "shown_after (concat (map ?f ms)) sh (a, PlayerC c) = sh (a, PlayerC c)"
    if "m \<notin> set ms" "(a, c) = (x, m) \<or> (a, c) = (m, x)" for ms sh a c
    using that(1)
  proof (induction ms arbitrary: sh)
    case (Cons n ms)
    then have "\<not> ((a, c) = (x, n) \<or> (a, c) = (n, x))" using that(2) assms(4) by auto
    then have "shown_after (?f n) sh (a, PlayerC c) = sh (a, PlayerC c)"
      by (simp only: shown_status shown_after_simps if_False split: if_split) simp
    then show ?case using Cons by (simp only: list.map concat.simps shown_after_simps) simp
  qed simp
  have notices: "updatePlayerStatus_moved v p x oldPos newPos w = concat (map ?f as) @ ?f m @ concat (map ?f bs)"
    using assms(2) split by (simp add: updatePlayerStatus_moved_def Let_def)
  have mm: "m \<notin> set as" "m \<notin> set bs" using d by auto
  have "shown_after (updatePlayerStatus_moved v p x oldPos newPos w) shown (a, PlayerC c)
      = near v newPos (pl_position (players w m))"
    if ac: "(a, c) = (x, m) \<or> (a, c) = (m, x)" for a c
  proof -
    let ?sh = "shown_after (concat (map ?f as)) shown"
    have "shown (a, PlayerC c) = near v oldPos (pl_position (players w m))"
      using ac assms(5,6) by auto
    then have "?sh (a, PlayerC c) = near v oldPos (pl_position (players w m))"
      by (simp only: other [OF mm(1) ac])
    from shown_one [of a c x m ?sh, OF ac this]
    have "shown_after (?f m) ?sh (a, PlayerC c) = near v newPos (pl_position (players w m))" .
    then show ?thesis
      by (simp only: notices shown_after_simps(3) other [OF mm(2) ac])
  qed
  then show ?thesis by blast
qed

definition sample_view :: View where
  "sample_view = \<lparr>partyListMaxDistance = 30, getSummons = \<lambda>_. [], healthPercent = \<lambda>_. 100, manaPercent = \<lambda>_. 100\<rparr>"

theorem party_list_follows_move_witness:
  "\<not> shown_after (updatePlayerStatus_moved sample_view 0 2 (mkPosition 100 100 7) (mkPosition 200 100 7) party_of_three)
      (\<lambda>_. True) (2, PlayerC 1)"
proof -
  have "near sample_view (mkPosition 100 100 7) (pl_position (players party_of_three 1))"
    "\<not> near sample_view (mkPosition 200 100 7) (pl_position (players party_of_three 1))"
    by (simp_all add: near_def sample_view_def party_of_three_def sample_world_def distance_defs mkPosition_def)
  moreover have "1 \<in> set (audience 0 party_of_three)"
    by (simp add: audience_def party_of_three_def party_get_defs del: party_fold)
  ultimately show ?thesis
    using party_list_follows_move [OF party_of_three_inv, of sample_view 1 0 2 "\<lambda>_. True"
        "mkPosition 100 100 7" "mkPosition 200 100 7"]
    by (simp add: sample_view_def)
qed

text \<open>In a consistent world the colour of a shield tells how two players are related: yellow marks the
  leader of the viewer's party, blue a fellow member, white-blue somebody the viewer has invited,
  white-yellow somebody who invites the viewer, and grey somebody in another party.\<close>

theorem shield_colours:
  assumes "party_inv w"
  shows "(getPartyShield e x y w \<in> {SHIELD_YELLOW, SHIELD_YELLOW_SHAREDEXP, SHIELD_YELLOW_NOSHAREDEXP, SHIELD_YELLOW_NOSHAREDEXP_BLINK}
      \<longleftrightarrow> (\<exists>p. pl_party (players w x) = Some p \<and> getLeader p w = Some y)) \<and>
    (getPartyShield e x y w \<in> {SHIELD_BLUE, SHIELD_BLUE_SHAREDEXP, SHIELD_BLUE_NOSHAREDEXP, SHIELD_BLUE_NOSHAREDEXP_BLINK}
      \<longleftrightarrow> (\<exists>p. pl_party (players w x) = Some p \<and> y \<in> set (getMembers p w))) \<and>
    (getPartyShield e x y w = SHIELD_WHITEBLUE \<longleftrightarrow> isInviting x y w) \<and>
    (getPartyShield e x y w = SHIELD_WHITEYELLOW \<longleftrightarrow> isInviting y x w \<and> \<not> isInviting x y w)"
proof -
  have c: "core_inv w" using assms by (simp add: party_inv_core)
  have own: "\<not> isInviting x y w" if "pl_party (players w x) = Some p" "pl_party (players w y) = Some p" for p
    using c that by (auto simp: isInviting_def isPlayerInvited_def core_inv_def lists_ok_def)
  have own': "\<not> isInviting y x w" if "pl_party (players w x) = Some p" "pl_party (players w y) = Some p" for p
    using c that by (auto simp: isInviting_def isPlayerInvited_def core_inv_def lists_ok_def)
  have yp: "pl_party (players w y) = Some p" if "getLeader p w = Some y \<or> y \<in> set (getMembers p w)" for p
    using agreeD [OF c] that by blast
  show ?thesis
  proof (cases "pl_party (players w x)")
    case None
    then show ?thesis by (auto simp: getPartyShield_def foreign_shield_def isInviting_def split: option.splits)
  next
    case (Some p)
    consider "getLeader p w = Some y" | "getLeader p w \<noteq> Some y" "pl_party (players w y) = Some p"
      | "pl_party (players w y) \<noteq> Some p" by blast
    then show ?thesis
    proof cases
      case 1
      then show ?thesis
        using Some own [OF Some] own' [OF Some] yp [of p] leader_not_member [OF c 1] by (auto simp: getPartyShield_def)
    next
      case 2
      then show ?thesis
        using Some own [OF Some] own' [OF Some] agreeD [OF c, of y p] by (auto simp: getPartyShield_def)
    next
      case 3
      then show ?thesis
        using Some yp [of p] by (auto simp: getPartyShield_def foreign_shield_def)
    qed
  qed
qed

theorem shield_colours_witness:
  "getPartyShield sample_env 2 1 party_of_three
    \<in> {SHIELD_YELLOW, SHIELD_YELLOW_SHAREDEXP, SHIELD_YELLOW_NOSHAREDEXP, SHIELD_YELLOW_NOSHAREDEXP_BLINK}"
  using shield_colours [OF party_of_three_inv, of sample_env 2 1]
  by (simp add: party_of_three_def party_get_defs del: party_fold)

end

