(* ===== verification/Party_Analyzer.thy ===== *)
theory Party_Analyzer
  imports Money "HOL-Library.AList"
begin

text \<open>
  The party analyzer of \<^verbatim>\<open>party.cpp\<close> (\<open>addPlayerLoot\<close> to \<open>getAnalyzerTimeNow\<close>) and the prices it
  uses: \<open>Game::getItemMarketPrice\<close> and \<open>Player::getItemCustomPrice\<close>.  A \<^verbatim>\<open>std::map\<close> is an association
  list with distinct keys.  Prices are unsigned 64-bit words, as in the code, so their sums may wrap;
  the invariant that a price is the value of its map holds in this arithmetic.  The item table, the
  market prices and the leader's price list are the parameter \<open>Prices\<close>.
\<close>

section \<open>State and prices\<close>

datatype PartyAnalyzer_t = MARKET_PRICE | LEADER_PRICE

record PartyAnalyzer =
  an_id :: u32
  an_name :: string
  an_damage :: u64
  an_healing :: u64
  lootPrice :: u64
  supplyPrice :: u64
  lootMap :: "(u16 \<times> u64) list"
  supplyMap :: "(u16 \<times> u64) list"

record Analyzer =
  trackerTime :: int
  priceType :: PartyAnalyzer_t
  membersData :: "PartyAnalyzer list"
  hasLeader :: bool

record Prices =
  itemsPriceMap :: "u16 \<Rightarrow> u64 list option"
  itemBuyPrice :: "u16 \<Rightarrow> u64"
  itemSellPrice :: "u16 \<Rightarrow> u64"
  leaderPriceMap :: "u16 \<Rightarrow> u64 option"

definition new_analyzer :: "u32 \<Rightarrow> string \<Rightarrow> PartyAnalyzer" where
  "new_analyzer i n = \<lparr>an_id = i, an_name = n, an_damage = 0, an_healing = 0, lootPrice = 0,
     supplyPrice = 0, lootMap = [], supplyMap = []\<rparr>"


fun getItemMarketPrice :: "Prices \<Rightarrow> (u16 \<times> u64) list \<Rightarrow> bool \<Rightarrow> u64 \<Rightarrow> u64" where
  "getItemMarketPrice pr [] buyPrice acc = acc"
| "getItemMarketPrice pr ((itemId, itemCount) # items) buyPrice acc =
     getItemMarketPrice pr items buyPrice
       (if itemId = ITEM_GOLD_COIN then acc + itemCount
        else if itemId = ITEM_PLATINUM_COIN then acc + 100 * itemCount
        else if itemId = ITEM_CRYSTAL_COIN then acc + 10000 * itemCount
        else case itemsPriceMap pr itemId of
            Some tiers \<Rightarrow> foldl (\<lambda>t price. t + price * itemCount) acc tiers
          | None \<Rightarrow> acc + (if buyPrice then itemBuyPrice pr itemId else itemSellPrice pr itemId) * itemCount)"

definition getItemCustomPrice :: "Prices \<Rightarrow> u16 \<Rightarrow> bool \<Rightarrow> u64" where
  "getItemCustomPrice pr itemId buyPrice =
     (case leaderPriceMap pr itemId of
        Some price \<Rightarrow> price
      | None \<Rightarrow> getItemMarketPrice pr [(itemId, 1)] buyPrice 0)"

section \<open>Operations\<close>

definition getPlayerPartyAnalyzerStruct :: "u32 \<Rightarrow> Analyzer \<Rightarrow> PartyAnalyzer option" where
  "getPlayerPartyAnalyzerStruct i a = find (\<lambda>d. an_id d = i) (membersData a)"

text \<open>Change the first entry of a player, which is appended when there is none.\<close>

fun upd_first :: "u32 \<Rightarrow> (PartyAnalyzer \<Rightarrow> PartyAnalyzer) \<Rightarrow> PartyAnalyzer list \<Rightarrow> PartyAnalyzer list" where
  "upd_first i f [] = []"
| "upd_first i f (d # ds) = (if an_id d = i then f d # ds else d # upd_first i f ds)"

definition with_entry :: "u32 \<Rightarrow> string \<Rightarrow> (PartyAnalyzer \<Rightarrow> PartyAnalyzer) \<Rightarrow> Analyzer \<Rightarrow> Analyzer" where
  "with_entry i n f a =
     (let ds = (case getPlayerPartyAnalyzerStruct i a of
          None \<Rightarrow> membersData a @ [new_analyzer i n] | Some _ \<Rightarrow> membersData a)
      in a\<lparr>membersData := upd_first i f ds\<rparr>)"

definition bump :: "u16 \<Rightarrow> u64 \<Rightarrow> (u16 \<times> u64) list \<Rightarrow> (u16 \<times> u64) list" where
  "bump k n m = (case map_of m k of Some c \<Rightarrow> AList.update k (c + n) m | None \<Rightarrow> m @ [(k, n)])"

definition unit_price :: "Prices \<Rightarrow> PartyAnalyzer_t \<Rightarrow> bool \<Rightarrow> u16 \<Rightarrow> u64 \<Rightarrow> u64" where
  "unit_price pr t buyPrice itemId cnt =
     (if t = LEADER_PRICE then getItemCustomPrice pr itemId buyPrice * cnt
      else getItemMarketPrice pr [(itemId, cnt)] buyPrice 0)"

definition addPlayerLoot :: "Prices \<Rightarrow> u32 \<Rightarrow> string \<Rightarrow> u16 \<Rightarrow> u16 \<Rightarrow> Analyzer \<Rightarrow> Analyzer" where
  "addPlayerLoot pr i n itemId itemCount a =
     (if \<not> hasLeader a then a
      else
        let cnt = max 1 (ucast itemCount :: u32) in
        with_entry i n (\<lambda>d. d\<lparr>lootMap := bump itemId (ucast cnt) (lootMap d),
          lootPrice := lootPrice d + unit_price pr (priceType a) False itemId (ucast cnt)\<rparr>) a)"

definition addPlayerSupply :: "Prices \<Rightarrow> u32 \<Rightarrow> string \<Rightarrow> u16 \<Rightarrow> Analyzer \<Rightarrow> Analyzer" where
  "addPlayerSupply pr i n itemId a =
     (if \<not> hasLeader a then a
      else with_entry i n (\<lambda>d. d\<lparr>supplyMap := bump itemId 1 (supplyMap d),
          supplyPrice := supplyPrice d + unit_price pr (priceType a) True itemId 1\<rparr>) a)"

definition addPlayerDamage :: "u32 \<Rightarrow> string \<Rightarrow> u64 \<Rightarrow> Analyzer \<Rightarrow> Analyzer" where
  "addPlayerDamage i n amount a = with_entry i n (\<lambda>d. d\<lparr>an_damage := an_damage d + amount\<rparr>) a"

definition addPlayerHealing :: "u32 \<Rightarrow> string \<Rightarrow> u64 \<Rightarrow> Analyzer \<Rightarrow> Analyzer" where
  "addPlayerHealing i n amount a = with_entry i n (\<lambda>d. d\<lparr>an_healing := an_healing d + amount\<rparr>) a"

definition custom_total :: "Prices \<Rightarrow> bool \<Rightarrow> (u16 \<times> u64) list \<Rightarrow> u64" where
  "custom_total pr buyPrice m = foldl (\<lambda>t (itemId, n). t + getItemCustomPrice pr itemId buyPrice * n) 0 m"

definition reloadPrices :: "Prices \<Rightarrow> Analyzer \<Rightarrow> Analyzer" where
  "reloadPrices pr a =
     (if \<not> hasLeader a then a
      else a\<lparr>membersData := map (\<lambda>d.
        if priceType a = MARKET_PRICE
        then d\<lparr>lootPrice := getItemMarketPrice pr (lootMap d) False 0,
               supplyPrice := getItemMarketPrice pr (supplyMap d) True 0\<rparr>
        else d\<lparr>lootPrice := custom_total pr False (lootMap d),
               supplyPrice := custom_total pr True (supplyMap d)\<rparr>) (membersData a)\<rparr>)"

definition switchAnalyzerPriceType :: "Prices \<Rightarrow> Analyzer \<Rightarrow> Analyzer" where
  "switchAnalyzerPriceType pr a =
     (if \<not> hasLeader a then a
      else reloadPrices pr (a\<lparr>priceType := if priceType a = LEADER_PRICE then MARKET_PRICE else LEADER_PRICE\<rparr>))"

definition resetAnalyzer :: "int \<Rightarrow> Analyzer \<Rightarrow> Analyzer" where
  "resetAnalyzer now a = a\<lparr>trackerTime := now, membersData := []\<rparr>"

definition getAnalyzerTimeNow :: "int \<Rightarrow> Analyzer \<Rightarrow> u32" where
  "getAnalyzerTimeNow now a = word_of_int (now - trackerTime a)"

section \<open>Prices are values of the maps\<close>

text \<open>The price of one piece, and of a map, by the current kind of price.\<close>

definition piece :: "Prices \<Rightarrow> PartyAnalyzer_t \<Rightarrow> bool \<Rightarrow> u16 \<Rightarrow> u64" where
  "piece pr t buyPrice itemId = unit_price pr t buyPrice itemId 1"

definition map_value :: "Prices \<Rightarrow> PartyAnalyzer_t \<Rightarrow> bool \<Rightarrow> (u16 \<times> u64) list \<Rightarrow> u64" where
  "map_value pr t buyPrice m = sum_list (map (\<lambda>(k, n). piece pr t buyPrice k * n) m)"

lemma foldl_tiers: "foldl (\<lambda>t price. t + price * n) t0 tiers = t0 + sum_list tiers * (n :: u64)"
  by (induction tiers arbitrary: t0) (simp_all add: algebra_simps)

lemma foldl_plus: "foldl (+) t0 tiers = t0 + sum_list (tiers :: u64 list)"
  by (induction tiers arbitrary: t0) (simp_all add: algebra_simps)

lemma market_step:
  "getItemMarketPrice pr ((k, n) # m) b t = getItemMarketPrice pr m b (t + piece pr MARKET_PRICE b k * n)"
  by (simp add: piece_def unit_price_def foldl_tiers foldl_plus split: option.splits)

lemma market_value: "getItemMarketPrice pr m b t = t + map_value pr MARKET_PRICE b m"
proof (induction m arbitrary: t)
  case (Cons p m)
  then show ?case
    using market_step [of pr "fst p" "snd p" m b t]
    by (simp add: map_value_def case_prod_unfold del: getItemMarketPrice.simps)
qed (simp add: map_value_def)

lemma unit_price_piece: "unit_price pr t b k n = piece pr t b k * n"
proof (cases t)
  case MARKET_PRICE
  then show ?thesis using market_value [of pr "[(k, n)]" b 0] by (simp add: unit_price_def map_value_def)
next
  case LEADER_PRICE
  then show ?thesis by (simp add: unit_price_def piece_def)
qed

lemma custom_value: "custom_total pr b m = map_value pr LEADER_PRICE b m"
proof -
  have "foldl (\<lambda>t (itemId, n). t + getItemCustomPrice pr itemId b * n) t0 m =
      t0 + map_value pr LEADER_PRICE b m" for t0
    by (induction m arbitrary: t0) (auto simp: map_value_def piece_def unit_price_def)
  then show ?thesis by (simp add: custom_total_def)
qed

lemma map_value_update:
  "map_of m k = Some c \<Longrightarrow> map_value pr t b (AList.update k (c + n) m) = map_value pr t b m + piece pr t b k * n"
  by (induction m) (auto simp: map_value_def algebra_simps split: if_splits)

lemma map_value_bump: "map_value pr t b (bump k n m) = map_value pr t b m + piece pr t b k * n"
  by (auto simp: bump_def map_value_update split: option.splits) (simp add: map_value_def)

definition priced :: "Prices \<Rightarrow> PartyAnalyzer_t \<Rightarrow> PartyAnalyzer \<Rightarrow> bool" where
  "priced pr t d \<longleftrightarrow> lootPrice d = map_value pr t False (lootMap d) \<and> supplyPrice d = map_value pr t True (supplyMap d)"

definition analyzer_inv :: "Prices \<Rightarrow> Analyzer \<Rightarrow> bool" where
  "analyzer_inv pr a \<longleftrightarrow> distinct (map an_id (membersData a)) \<and> list_all (priced pr (priceType a)) (membersData a)"

lemma upd_first_ids: "(\<And>d. an_id (f d) = an_id d) \<Longrightarrow> map an_id (upd_first i f ds) = map an_id ds"
  by (induction ds) auto

lemma upd_first_all:
  "(\<And>d. P d \<Longrightarrow> P (f d)) \<Longrightarrow> list_all P ds \<Longrightarrow> list_all P (upd_first i f ds)"
  by (induction ds) auto

lemma with_entry_inv:
  assumes "analyzer_inv pr a" and "\<And>d. an_id (f d) = an_id d"
    and "\<And>d. priced pr (priceType a) d \<Longrightarrow> priced pr (priceType a) (f d)"
  shows "analyzer_inv pr (with_entry i n f a)"
proof -
  have new: "priced pr (priceType a) (new_analyzer i n)"
    by (simp add: priced_def new_analyzer_def map_value_def)
  have fresh: "i \<notin> set (map an_id (membersData a))" if "getPlayerPartyAnalyzerStruct i a = None"
    using that by (auto simp: getPlayerPartyAnalyzerStruct_def find_None_iff)
  let ?ds = "case getPlayerPartyAnalyzerStruct i a of
      None \<Rightarrow> membersData a @ [new_analyzer i n] | Some _ \<Rightarrow> membersData a"
  have "distinct (map an_id ?ds)" and "list_all (priced pr (priceType a)) ?ds"
    using assms(1) new fresh
    by (auto simp: analyzer_inv_def new_analyzer_def list_all_iff split: option.splits)
  then show ?thesis
    using upd_first_ids [of f i ?ds] upd_first_all [of "priced pr (priceType a)" f ?ds i] assms(2,3)
    by (simp add: analyzer_inv_def with_entry_def Let_def)
qed

lemma addPlayerLoot_inv: "analyzer_inv pr a \<Longrightarrow> analyzer_inv pr (addPlayerLoot pr i n k c a)"
  by (auto simp: addPlayerLoot_def Let_def priced_def map_value_bump unit_price_piece intro!: with_entry_inv)

lemma addPlayerSupply_inv: "analyzer_inv pr a \<Longrightarrow> analyzer_inv pr (addPlayerSupply pr i n k a)"
  by (auto simp: addPlayerSupply_def priced_def map_value_bump unit_price_piece intro!: with_entry_inv)

lemma addPlayerDamage_inv: "analyzer_inv pr a \<Longrightarrow> analyzer_inv pr (addPlayerDamage i n c a)"
  by (auto simp: addPlayerDamage_def priced_def intro!: with_entry_inv)

lemma addPlayerHealing_inv: "analyzer_inv pr a \<Longrightarrow> analyzer_inv pr (addPlayerHealing i n c a)"
  by (auto simp: addPlayerHealing_def priced_def intro!: with_entry_inv)

lemma reloadPrices_inv:
  assumes "distinct (map an_id (membersData a))" and "hasLeader a"
  shows "analyzer_inv pr (reloadPrices pr a)"
  using assms
  by (cases "priceType a")
     (auto simp: analyzer_inv_def reloadPrices_def priced_def market_value custom_value list_all_iff comp_def)

lemma switch_inv: "analyzer_inv pr a \<Longrightarrow> analyzer_inv pr (switchAnalyzerPriceType pr a)"
  using reloadPrices_inv [of "a\<lparr>priceType := if priceType a = LEADER_PRICE then MARKET_PRICE else LEADER_PRICE\<rparr>" pr]
  by (auto simp: switchAnalyzerPriceType_def analyzer_inv_def)

lemma reset_inv: "analyzer_inv pr (resetAnalyzer now a)"
  by (simp add: analyzer_inv_def resetAnalyzer_def)

section \<open>Runs\<close>

datatype analyzer_event =
    Loot u32 string u16 u16 | Supply u32 string u16 | Damage u32 string u64 | Healing u32 string u64
  | SwitchPrice | Reset int

fun analyzer_step :: "Prices \<Rightarrow> analyzer_event \<Rightarrow> Analyzer \<Rightarrow> Analyzer" where
  "analyzer_step pr (Loot i n k c) a = addPlayerLoot pr i n k c a"
| "analyzer_step pr (Supply i n k) a = addPlayerSupply pr i n k a"
| "analyzer_step pr (Damage i n c) a = addPlayerDamage i n c a"
| "analyzer_step pr (Healing i n c) a = addPlayerHealing i n c a"
| "analyzer_step pr SwitchPrice a = switchAnalyzerPriceType pr a"
| "analyzer_step pr (Reset now) a = resetAnalyzer now a"

lemma analyzer_step_inv: "analyzer_inv pr a \<Longrightarrow> analyzer_inv pr (analyzer_step pr ev a)"
  by (cases ev) (simp_all add: addPlayerLoot_inv addPlayerSupply_inv addPlayerDamage_inv addPlayerHealing_inv
      switch_inv reset_inv)

lemma analyzer_run_inv: "analyzer_inv pr a \<Longrightarrow> analyzer_inv pr (fold (analyzer_step pr) evs a)"
  by (induction evs arbitrary: a) (simp_all add: analyzer_step_inv)

section \<open>Properties\<close>

text \<open>Whatever is looted, used, dealt and healed and however often the kind of price is switched, every
  player has one entry, and its loot and supply prices are the values of its maps at the current kind of
  price: adding prices piece by piece agrees with computing them from scratch.\<close>

theorem analyzer_prices_are_values:
  "analyzer_inv pr (fold (analyzer_step pr) evs
     \<lparr>trackerTime = t, priceType = MARKET_PRICE, membersData = [], hasLeader = True\<rparr>)"
  by (rule analyzer_run_inv) (simp add: analyzer_inv_def)

end

