(* ===== verification/Value_Wrapper.thy ===== *)
theory Value_Wrapper
  imports Prelude "HOL-Library.AList"
begin

text \<open>
  The values of the key-value store: \<^verbatim>\<open>src/kv/value_wrapper.hpp\<close>, \<^verbatim>\<open>value_wrapper.cpp\<close> and their
  conversion to protocol buffers, \<^verbatim>\<open>value_wrapper_proto.cpp\<close> with the messages of
  \<^verbatim>\<open>src/protobuf/kv.proto\<close>.  Doubles are a type parameter.  A hash map is an association list with
  distinct keys, and the shared pointers of its entries are never null here.
\<close>

section \<open>Values\<close>

datatype 'd ValueVariant =
    StringType string
  | BooleanType bool
  | IntType "32 word"
  | DoubleType 'd
  | ArrayType "'d ValueWrapper list"
  | MapType "(string \<times> 'd ValueWrapper) list"
and 'd ValueWrapper = ValueWrapper (vw_data: "'d ValueVariant") (vw_timestamp: u64) (isDeleted: bool)

definition make_wrapper :: "u64 \<Rightarrow> 'd ValueVariant \<Rightarrow> u64 \<Rightarrow> 'd ValueWrapper" where
  "make_wrapper now v timestamp = ValueWrapper v (if timestamp = 0 then now else timestamp) False"

text \<open>A default-constructed variant holds its first alternative, the empty string.\<close>

definition empty_wrapper :: "u64 \<Rightarrow> 'd ValueWrapper" where
  "empty_wrapper now = make_wrapper now (StringType []) 0"

definition setTimestamp :: "u64 \<Rightarrow> 'd ValueWrapper \<Rightarrow> 'd ValueWrapper" where
  "setTimestamp t w = ValueWrapper (vw_data w) t (isDeleted w)"

definition setDeleted :: "bool \<Rightarrow> 'd ValueWrapper \<Rightarrow> 'd ValueWrapper" where
  "setDeleted b w = ValueWrapper (vw_data w) (vw_timestamp w) b"

definition deleted :: "u64 \<Rightarrow> 'd ValueWrapper" where
  "deleted now = setDeleted True (empty_wrapper now)"

definition get_string :: "'d ValueWrapper \<Rightarrow> string" where
  "get_string w = (case vw_data w of StringType s \<Rightarrow> s | _ \<Rightarrow> [])"

definition get_bool :: "'d ValueWrapper \<Rightarrow> bool" where
  "get_bool w = (case vw_data w of BooleanType b \<Rightarrow> b | _ \<Rightarrow> False)"

definition get_int :: "'d ValueWrapper \<Rightarrow> 32 word" where
  "get_int w = (case vw_data w of IntType i \<Rightarrow> i | _ \<Rightarrow> 0)"

text \<open>\<open>getNumber\<close> with the conversion of an integer to a double as parameter.\<close>

definition getNumber :: "(int \<Rightarrow> 'd) \<Rightarrow> 'd ValueWrapper \<Rightarrow> 'd" where
  "getNumber to_double w =
     (case vw_data w of IntType i \<Rightarrow> to_double (sint i) | DoubleType d \<Rightarrow> d | _ \<Rightarrow> to_double 0)"

definition get_key :: "string \<Rightarrow> 'd ValueWrapper \<Rightarrow> 'd ValueWrapper option" where
  "get_key k w = (case vw_data w of MapType m \<Rightarrow> map_of m k | _ \<Rightarrow> None)"

definition get_index :: "nat \<Rightarrow> 'd ValueWrapper \<Rightarrow> 'd ValueWrapper option" where
  "get_index i w =
     (case vw_data w of ArrayType a \<Rightarrow> if i < length a then Some (a ! i) else None | _ \<Rightarrow> None)"

text \<open>A map built from a range of pairs: each value gets the common timestamp, later keys win.\<close>

definition createMapFromRange :: "u64 \<Rightarrow> (string \<times> 'd ValueWrapper) list \<Rightarrow> u64 \<Rightarrow> (string \<times> 'd ValueWrapper) list" where
  "createMapFromRange now items timestamp =
     foldl (\<lambda>m (k, v). AList.update k (make_wrapper now (vw_data v) timestamp) m) [] items"

section \<open>Protocol buffers\<close>

text \<open>The messages of \<^verbatim>\<open>kv.proto\<close>; \<open>NotSet\<close> is a message whose \<^verbatim>\<open>oneof\<close> is not set.\<close>

datatype 'd ProtoValue =
    StrValue string
  | BoolValue bool
  | IntValue "32 word"
  | DoubleValue 'd
  | ArrayValue "'d ProtoValue list"
  | MapValue "(string \<times> 'd ProtoValue) list"
  | NotSet

fun toProto :: "'d ValueWrapper \<Rightarrow> 'd ProtoValue"
and variantToProto :: "'d ValueVariant \<Rightarrow> 'd ProtoValue" where
  "toProto (ValueWrapper v t b) = variantToProto v"
| "variantToProto (StringType s) = StrValue s"
| "variantToProto (BooleanType b) = BoolValue b"
| "variantToProto (IntType i) = IntValue i"
| "variantToProto (DoubleType d) = DoubleValue d"
| "variantToProto (ArrayType a) = ArrayValue (map toProto a)"
| "variantToProto (MapType m) = MapValue (map (\<lambda>p. (fst p, toProto (snd p))) m)"

fun fromProto :: "u64 \<Rightarrow> u64 \<Rightarrow> 'd ProtoValue \<Rightarrow> 'd ValueWrapper" where
  "fromProto now t (StrValue s) = make_wrapper now (StringType s) t"
| "fromProto now t (BoolValue b) = make_wrapper now (BooleanType b) t"
| "fromProto now t (IntValue i) = make_wrapper now (IntType i) t"
| "fromProto now t (DoubleValue d) = make_wrapper now (DoubleType d) t"
| "fromProto now t (ArrayValue a) = make_wrapper now (ArrayType (map (fromProto now t) a)) t"
| "fromProto now t (MapValue m) = make_wrapper now (MapType
     (foldl (\<lambda>acc (k, v). AList.update k v acc) [] (map (\<lambda>p. (fst p, fromProto now t (snd p))) m))) t"
| "fromProto now t NotSet = make_wrapper now (StringType []) t"

section \<open>Data without timestamps\<close>

text \<open>The same data, with one timestamp and no deletion mark throughout.\<close>

fun stamp :: "u64 \<Rightarrow> 'd ValueWrapper \<Rightarrow> 'd ValueWrapper"
and stamp_variant :: "u64 \<Rightarrow> 'd ValueVariant \<Rightarrow> 'd ValueVariant" where
  "stamp t (ValueWrapper v u b) = ValueWrapper (stamp_variant t v) t False"
| "stamp_variant t (ArrayType a) = ArrayType (map (stamp t) a)"
| "stamp_variant t (MapType m) = MapType (map (\<lambda>p. (fst p, stamp t (snd p))) m)"
| "stamp_variant t v = v"

fun vw_wf :: "'d ValueWrapper \<Rightarrow> bool"
and variant_wf :: "'d ValueVariant \<Rightarrow> bool" where
  "vw_wf (ValueWrapper v u b) = variant_wf v"
| "variant_wf (ArrayType a) = (\<forall>w \<in> set a. vw_wf w)"
| "variant_wf (MapType m) = (distinct (map fst m) \<and> (\<forall>p \<in> set m. vw_wf (snd p)))"
| "variant_wf v = True"

definition same_data :: "'d ValueWrapper \<Rightarrow> 'd ValueWrapper \<Rightarrow> bool" where
  "same_data v w \<longleftrightarrow> stamp 0 v = stamp 0 w"

lemma foldl_update_distinct:
  "distinct (map fst (acc @ m)) \<Longrightarrow> foldl (\<lambda>acc (k, v). AList.update k v acc) acc m = acc @ m"
proof (induction m arbitrary: acc)
  case (Cons p m)
  obtain k v where p: "p = (k, v)" by fastforce
  have "k \<notin> fst ` set acc" using Cons.prems p by auto
  then have "AList.update k v acc = acc @ [(k, v)]"
    by (induction acc) auto
  with Cons p show ?case by simp
qed simp

lemma fromProto_toProto:
  fixes w :: "'d ValueWrapper" and v :: "'d ValueVariant"
  shows "t \<noteq> 0 \<Longrightarrow> vw_wf w \<Longrightarrow> fromProto now t (toProto w) = stamp t w"
    and "t \<noteq> 0 \<Longrightarrow> variant_wf v \<Longrightarrow> fromProto now t (variantToProto v) = ValueWrapper (stamp_variant t v) t False"
proof (induction w and v rule: stamp_stamp_variant.induct)
  case (3 t m)
  have "map (\<lambda>p. (fst p, fromProto now t (snd p))) (map (\<lambda>p. (fst p, toProto (snd p))) m)
      = map (\<lambda>p. (fst p, stamp t (snd p))) m"
    using 3 by auto
  moreover have "distinct (map fst (map (\<lambda>p. (fst p, stamp t (snd p))) m))"
    using 3(3) by (simp add: comp_def)
  ultimately show ?case
    using foldl_update_distinct [of "[]" "map (\<lambda>p. (fst p, stamp t (snd p))) m"] 3(2)
    by (simp add: make_wrapper_def del: map_map)
qed (simp_all add: make_wrapper_def)

lemma stamp_stamp:
  fixes w :: "'d ValueWrapper" and v :: "'d ValueVariant"
  shows "stamp s (stamp t w) = stamp s w" and "stamp_variant s (stamp_variant t v) = stamp_variant s v"
  by (induction w and v rule: stamp_stamp_variant.induct) auto

lemma same_data_stamp [simp]: "same_data (stamp t w) w" "same_data w (stamp t w)" "same_data w w"
  by (simp_all add: same_data_def stamp_stamp)

lemma same_data_trans: "same_data u v \<Longrightarrow> same_data v w \<Longrightarrow> same_data u w"
  by (simp add: same_data_def)

section \<open>Properties\<close>

text \<open>Converting a value to its protocol buffer message and back gives the same data at every depth;
  only the timestamps become the one of the outermost value and the deletion mark is cleared.\<close>

theorem proto_roundtrip:
  assumes "vw_wf w" and "t \<noteq> 0"
  shows "fromProto now t (toProto w) = stamp t w"
  using fromProto_toProto(1) [OF assms(2,1)] .

theorem proto_roundtrip_witness:
  "fromProto 9 5 (toProto (ValueWrapper (MapType [(''a'', ValueWrapper (IntType 1) 3 False),
      (''b'', ValueWrapper (ArrayType [ValueWrapper (BooleanType True) 4 True]) 3 False)]) 2 False :: nat ValueWrapper))
   = ValueWrapper (MapType [(''a'', ValueWrapper (IntType 1) 5 False),
      (''b'', ValueWrapper (ArrayType [ValueWrapper (BooleanType True) 5 False]) 5 False)]) 5 False"
  by (subst proto_roundtrip) simp_all

end
