(* ===== verification/KV_Store.thy ===== *)
theory KV_Store
  imports Value_Wrapper "HOL-Library.Sublist" "HOL-Library.Countable"
begin

text \<open>
  The key-value store: \<^verbatim>\<open>src/kv/kv.cpp\<close> and \<^verbatim>\<open>kv.hpp\<close>, a least-recently-used cache of at most
  \<open>MAX_SIZE\<close> values in front of a backend, and its SQL backend \<^verbatim>\<open>kv_sql.cpp\<close>.  The hash map is an
  association list with distinct keys; an iterator into the queue is the number of its node.  The
  virtual functions \<open>load\<close>, \<open>save\<close> and \<open>loadPrefix\<close> are arguments, and \<open>kv_backend\<close> is what the store
  relies on; the SQL table behind \<open>KVSQL\<close> is a map, as SELECT, INSERT ... ON DUPLICATE KEY UPDATE and
  DELETE by key are documented, and the byte encoding of messages is a parameter.  Locks and logging
  are left out.
\<close>

section \<open>State\<close>

record ('d, 'db) KVStore =
  kv_store :: "(string \<times> 'd ValueWrapper \<times> nat) list"
  lruQueue :: "(nat \<times> string) list"
  nextNode :: nat
  kv_db :: 'db

record ('d, 'db) Backend =
  bk_load :: "string \<Rightarrow> 'db \<Rightarrow> 'd ValueWrapper option"
  bk_save :: "string \<Rightarrow> 'd ValueWrapper \<Rightarrow> 'db \<Rightarrow> 'db"

definition MAX_SIZE :: nat where "MAX_SIZE = 1000000"


section \<open>Operations\<close>

text \<open>\<^verbatim>\<open>lruQueue_.splice\<close> of one node to the front and to the back.\<close>

definition node_entry :: "nat \<Rightarrow> (nat \<times> string) list \<Rightarrow> (nat \<times> string) list" where
  "node_entry n q = filter (\<lambda>e. fst e = n) q"

definition move_front :: "nat \<Rightarrow> (nat \<times> string) list \<Rightarrow> (nat \<times> string) list" where
  "move_front n q = node_entry n q @ filter (\<lambda>e. fst e \<noteq> n) q"

definition move_back :: "nat \<Rightarrow> (nat \<times> string) list \<Rightarrow> (nat \<times> string) list" where
  "move_back n q = filter (\<lambda>e. fst e \<noteq> n) q @ node_entry n q"

text \<open>
  The eviction of the last key of the queue.  \<^verbatim>\<open>store_[*last]\<close> makes a fresh value when the key is not
  in the store; an empty queue is undefined behaviour.
\<close>

definition evict :: "('d, 'db) Backend \<Rightarrow> u64 \<Rightarrow> ('d, 'db) KVStore \<Rightarrow> ('d, 'db) KVStore option" where
  "evict bk now s =
     (if lruQueue s = [] then None
      else
        let key = snd (last (lruQueue s));
            value = (case map_of (kv_store s) key of Some (v, n) \<Rightarrow> v | None \<Rightarrow> empty_wrapper now)
        in Some (s\<lparr>kv_db := bk_save bk key value (kv_db s),
             kv_store := AList.delete key (kv_store s),
             lruQueue := butlast (lruQueue s)\<rparr>))"

definition setLocked :: "('d, 'db) Backend \<Rightarrow> u64 \<Rightarrow> string \<Rightarrow> 'd ValueWrapper \<Rightarrow> ('d, 'db) KVStore \<Rightarrow> ('d, 'db) KVStore option" where
  "setLocked bk now key value s =
     (case map_of (kv_store s) key of
        Some (v, n) \<Rightarrow>
          Some (s\<lparr>kv_store := AList.update key (value, n) (kv_store s),
                  lruQueue := move_front n (lruQueue s)\<rparr>)
      | None \<Rightarrow>
          (case (if length (kv_store s) \<ge> MAX_SIZE then evict bk now s else Some s) of
             None \<Rightarrow> None
           | Some s1 \<Rightarrow>
               Some (s1\<lparr>lruQueue := (nextNode s1, key) # lruQueue s1,
                        kv_store := kv_store s1 @ [(key, value, nextNode s1)],
                        nextNode := nextNode s1 + 1\<rparr>)))"

definition kv_set :: "('d, 'db) Backend \<Rightarrow> u64 \<Rightarrow> string \<Rightarrow> 'd ValueWrapper \<Rightarrow> ('d, 'db) KVStore \<Rightarrow> ('d, 'db) KVStore option" where
  "kv_set bk now key value s = setLocked bk now key value s"

definition kv_remove :: "('d, 'db) Backend \<Rightarrow> u64 \<Rightarrow> string \<Rightarrow> ('d, 'db) KVStore \<Rightarrow> ('d, 'db) KVStore option" where
  "kv_remove bk now key s = kv_set bk now key (deleted now) s"

definition kv_get :: "('d, 'db) Backend \<Rightarrow> u64 \<Rightarrow> string \<Rightarrow> bool \<Rightarrow> ('d, 'db) KVStore \<Rightarrow>
    ('d ValueWrapper option \<times> ('d, 'db) KVStore) option" where
  "kv_get bk now key forceLoad s =
     (if forceLoad \<or> map_of (kv_store s) key = None then
        (case bk_load bk key (kv_db s) of
           None \<Rightarrow> Some (None, s)
         | Some value \<Rightarrow> map_option (Pair (Some value)) (setLocked bk now key value s))
      else
        (case map_of (kv_store s) key of
           None \<Rightarrow> None
         | Some (value, n) \<Rightarrow>
             if isDeleted value then Some (None, s\<lparr>lruQueue := move_back n (lruQueue s)\<rparr>)
             else Some (Some value, s\<lparr>lruQueue := move_front n (lruQueue s)\<rparr>)))"

definition kv_keys :: "string list \<Rightarrow> string \<Rightarrow> ('d, 'db) KVStore \<Rightarrow> string list" where
  "kv_keys prefixKeys pre s =
     remdups (map (drop (length pre)) (filter (prefix pre) (map fst (kv_store s))) @ prefixKeys)"

text \<open>\<open>flush\<close>, with the \<open>saveAll\<close> of the backend: the store is cleared, the queue is not.\<close>

definition kv_flush :: "((string \<times> 'd ValueWrapper \<times> nat) list \<Rightarrow> 'db \<Rightarrow> 'db) \<Rightarrow> ('d, 'db) KVStore \<Rightarrow> ('d, 'db) KVStore" where
  "kv_flush saveAll s = s\<lparr>kv_db := saveAll (kv_store s) (kv_db s), kv_store := []\<rparr>"

text \<open>A scoped store is a prefix, joined with a dot.\<close>

definition buildKey :: "string \<Rightarrow> string \<Rightarrow> string" where
  "buildKey pre key = pre @ ''.'' @ key"

definition scoped :: "string \<Rightarrow> string \<Rightarrow> string" where
  "scoped pre scope = buildKey pre scope"

section \<open>The SQL backend\<close>

record 'd Encoding =
  serializeToString :: "'d ProtoValue \<Rightarrow> byte list option"
  parseFromArray :: "byte list \<Rightarrow> 'd ProtoValue option"

type_synonym kv_table = "string \<rightharpoonup> u64 \<times> byte list"

definition sql_load :: "'d Encoding \<Rightarrow> u64 \<Rightarrow> string \<Rightarrow> kv_table \<Rightarrow> 'd ValueWrapper option" where
  "sql_load enc now key db =
     (case db key of
        None \<Rightarrow> None
      | Some (timestamp, data) \<Rightarrow>
          (case parseFromArray enc data of
             None \<Rightarrow> None
           | Some p \<Rightarrow> Some (fromProto now timestamp p)))"

definition sql_save :: "'d Encoding \<Rightarrow> string \<Rightarrow> 'd ValueWrapper \<Rightarrow> kv_table \<Rightarrow> kv_table" where
  "sql_save enc key value db =
     (case serializeToString enc (toProto value) of
        None \<Rightarrow> db
      | Some data \<Rightarrow>
          if isDeleted value then db(key := None) else db(key \<mapsto> (vw_timestamp value, data)))"

text \<open>\<open>saveAll\<close> prepares every value in one transaction, which is rolled back when one does not serialize.\<close>

definition sql_saveAll :: "'d Encoding \<Rightarrow> (string \<times> 'd ValueWrapper \<times> nat) list \<Rightarrow> kv_table \<Rightarrow> kv_table" where
  "sql_saveAll enc store db =
     (if list_all (\<lambda>(k, v, n). serializeToString enc (toProto v) \<noteq> None) store
      then foldl (\<lambda>db (k, v, n). sql_save enc k v db) db store
      else db)"

definition KVSQL :: "'d Encoding \<Rightarrow> u64 \<Rightarrow> ('d, kv_table) Backend" where
  "KVSQL enc now = \<lparr>bk_load = sql_load enc now, bk_save = sql_save enc\<rparr>"

section \<open>The cache invariant\<close>




abbreviation same_opt :: "'d ValueWrapper option \<Rightarrow> 'd ValueWrapper option \<Rightarrow> bool" where
  "same_opt \<equiv> rel_option same_data"

lemma same_opt_refl [simp]: "same_opt x x"
  by (cases x) simp_all


lemma move_set [simp]: "set (move_front n q) = set q" "set (move_back n q) = set q"
  by (auto simp: move_front_def move_back_def node_entry_def)










section \<open>The contract of a backend\<close>


section \<open>The SQL table is a backend\<close>





lemma stamp_fields [simp]: "vw_timestamp (stamp t w) = t" "isDeleted (stamp t w) = False"
  by (cases w; simp)+





section \<open>Runs\<close>

datatype 'd kv_request = SetKey string "'d ValueWrapper" | RemoveKey string | GetKey string

fun kv_run :: "('d, 'db) Backend \<Rightarrow> u64 \<Rightarrow> 'd kv_request list \<Rightarrow> ('d, 'db) KVStore \<Rightarrow>
    ('d ValueWrapper option list \<times> ('d, 'db) KVStore) option" where
  "kv_run bk now [] s = Some ([], s)"
| "kv_run bk now (SetKey k v # rs) s = Option.bind (kv_set bk now k v s) (kv_run bk now rs)"
| "kv_run bk now (RemoveKey k # rs) s = Option.bind (kv_remove bk now k s) (kv_run bk now rs)"
| "kv_run bk now (GetKey k # rs) s =
     Option.bind (kv_get bk now k False s) (\<lambda>(r, s1). map_option (apfst ((#) r)) (kv_run bk now rs s1))"




section \<open>Properties\<close>


instance ProtoValue :: (countable) countable
  by countable_datatype

definition sample_encoding :: "'d::countable Encoding" where
  "sample_encoding = \<lparr>serializeToString = \<lambda>p. Some (replicate (to_nat p) 0), parseFromArray = \<lambda>bs. Some (from_nat (length bs))\<rparr>"


lemma kv_run_fresh_keys:
  assumes "distinct ks" and "set ks \<inter> set (map fst (kv_store s)) = {}" and "length (kv_store s) + length ks \<le> MAX_SIZE"
  shows "\<exists>s'. kv_run bk now (map (\<lambda>k. SetKey k v) ks @ rs) s = kv_run bk now rs s' \<and>
    map fst (kv_store s') = map fst (kv_store s) @ ks \<and> (\<exists>p. lruQueue s' = p @ lruQueue s) \<and> kv_db s' = kv_db s"
  using assms
proof (induction ks arbitrary: s)
  case (Cons k ks)
  let ?s1 = "s\<lparr>lruQueue := (nextNode s, k) # lruQueue s, kv_store := kv_store s @ [(k, v, nextNode s)], nextNode := nextNode s + 1\<rparr>"
  have none: "map_of (kv_store s) k = None" using Cons.prems(2) by (simp add: map_of_eq_None_iff)
  have "\<not> length (kv_store s) \<ge> MAX_SIZE" using Cons.prems(3) by simp
  then have set: "kv_set bk now k v s = Some ?s1" using none by (simp add: kv_set_def setLocked_def)
  obtain s' where "kv_run bk now (map (\<lambda>k. SetKey k v) ks @ rs) ?s1 = kv_run bk now rs s'"
    "map fst (kv_store s') = map fst (kv_store ?s1) @ ks" "\<exists>p. lruQueue s' = p @ lruQueue ?s1" "kv_db s' = kv_db ?s1"
    using Cons.IH [of ?s1] Cons.prems by auto
  then show ?case using set by (intro exI [of _ s']) auto
qed auto

lemma stale_eviction:
  assumes "length (kv_store s) \<ge> MAX_SIZE" and "lruQueue s = q @ [(n, stale)]"
    and "map_of (kv_store s) stale = None" and "map_of (kv_store s) key = None"
  shows "\<exists>s'. kv_set bk now key v s = Some s' \<and> kv_db s' = bk_save bk stale (empty_wrapper now) (kv_db s) \<and>
    length (kv_store s') = length (kv_store s) + 1"
proof -
  have "AList.delete stale (kv_store s) = kv_store s"
    using assms(3) by (simp add: delete_idem map_of_eq_None_iff)
  then show ?thesis using assms by (simp add: kv_set_def setLocked_def evict_def Let_def)
qed

text \<open>The defect of \<open>flush\<close>: it clears the store but leaves the queue.  After a flush and \<open>MAX_SIZE\<close>
  new keys, one more new key evicts the key that was least recently used before the flush: an empty
  value is written over it in the backend, and the store grows beyond \<open>MAX_SIZE\<close>.\<close>

theorem flush_overwrites_stale_key:
  assumes "lruQueue s = q @ [(n, stale)]" and "distinct ks" and "length ks = MAX_SIZE"
    and "stale \<notin> set ks" and "key \<notin> set ks"
  shows "\<exists>s'. kv_run bk now (map (\<lambda>k. SetKey k v) ks @ [SetKey key v]) (kv_flush saveAll s) = Some ([], s') \<and>
    kv_db s' = bk_save bk stale (empty_wrapper now) (saveAll (kv_store s) (kv_db s)) \<and>
    length (kv_store s') = MAX_SIZE + 1"
proof -
  obtain s1 where s1: "kv_run bk now (map (\<lambda>k. SetKey k v) ks @ [SetKey key v]) (kv_flush saveAll s) = kv_run bk now [SetKey key v] s1"
    "map fst (kv_store s1) = ks" "\<exists>p. lruQueue s1 = p @ lruQueue s" "kv_db s1 = saveAll (kv_store s) (kv_db s)"
    using kv_run_fresh_keys [of ks "kv_flush saveAll s" bk now v "[SetKey key v]"] assms(2,3) by (auto simp: kv_flush_def)
  have "length (kv_store s1) = MAX_SIZE" using arg_cong [OF s1(2), of length] assms(3) by simp
  moreover have "set ks = fst ` set (kv_store s1)" using arg_cong [OF s1(2), of set] by simp
  then have "map_of (kv_store s1) stale = None" "map_of (kv_store s1) key = None"
    using assms(4,5) by (simp_all add: map_of_eq_None_iff)
  moreover obtain p where "lruQueue s1 = (p @ q) @ [(n, stale)]" using s1(3) assms(1) by auto
  ultimately obtain s' where "kv_set bk now key v s1 = Some s'"
    "kv_db s' = bk_save bk stale (empty_wrapper now) (kv_db s1)" "length (kv_store s') = MAX_SIZE + 1"
    using stale_eviction [of s1 "p @ q" n stale key bk now v] by auto
  then show ?thesis using s1(1,4) by (intro exI [of _ s']) simp
qed

theorem flush_overwrites_stale_key_witness:
  "\<exists>s'. kv_run (KVSQL sample_encoding 7) 7
      (map (\<lambda>k. SetKey k (empty_wrapper 7)) (map (\<lambda>i. replicate i CHR ''k'') [0..<MAX_SIZE]) @ [SetKey ''new'' (empty_wrapper 7)])
      (kv_flush (\<lambda>_ db. db) \<lparr>kv_store = [(''stale'', empty_wrapper 7, 0)], lruQueue = [(0, ''stale'')], nextNode = 1, kv_db = Map.empty\<rparr>)
        = Some ([] :: nat ValueWrapper option list, s') \<and>
    kv_db s' = bk_save (KVSQL (sample_encoding :: nat Encoding) 7) ''stale'' (empty_wrapper 7) Map.empty \<and>
    length (kv_store s') = MAX_SIZE + 1"
proof -
  let ?ks = "map (\<lambda>i. replicate i CHR ''k'') [0..<MAX_SIZE]"
  have "distinct ?ks" by (auto simp: distinct_map inj_on_def)
  moreover have absent: "w \<notin> set ?ks" if "w \<noteq> []" "hd w \<noteq> CHR ''k''" for w using that by auto
  have "''stale'' \<notin> set ?ks" "''new'' \<notin> set ?ks" by (rule absent; simp)+
  moreover note \<open>''stale'' \<notin> set ?ks\<close> \<open>''new'' \<notin> set ?ks\<close>
  ultimately show ?thesis
    using flush_overwrites_stale_key [of "\<lparr>kv_store = [(''stale'', empty_wrapper 7, 0)], lruQueue = [(0, ''stale'')], nextNode = 1, kv_db = Map.empty\<rparr>"
      "[]" 0 "''stale''" ?ks "''new''" "KVSQL (sample_encoding :: nat Encoding) 7" 7 "empty_wrapper 7" "\<lambda>_ db. db"]
    by (simp del: set_map map_map)
qed

end
