(* ===== verification/Dispatcher.thy ===== *)
theory Dispatcher
  imports Prelude "HOL-Library.Sublist" "HOL-Library.Multiset"
begin

text \<open>
  The event dispatcher: \<^verbatim>\<open>src/game/scheduling/dispatcher.cpp\<close>, \<^verbatim>\<open>dispatcher.hpp\<close>, \<^verbatim>\<open>task.cpp\<close> and
  \<^verbatim>\<open>task.hpp\<close>.  What a task does is an arbitrary body; \<open>run\<close> gives the calls a body makes on the
  dispatcher, in order, and the trace \<open>executed\<close> records the bodies that ran.  Scheduled tasks are
  shared objects and live in a store under their number, tasks of the queues are values.  The clock
  \<^verbatim>\<open>OTSYS_TIME\<close> is read once per iteration, as in the code.  The tasks of a parallel group run once each, in
  the model in the order of their index; \<open>worker\<close> says on which thread.  Event numbers do not wrap.
\<close>

section \<open>Tasks\<close>

record 'b Task =
  t_body :: "'b option"
  t_time :: int
  t_expiration :: int
  t_delay :: int
  t_cycle :: bool

definition new_task :: "int \<Rightarrow> int \<Rightarrow> 'b \<Rightarrow> 'b Task" where
  "new_task now expiresAfterMs f =
     \<lparr>t_body = Some f, t_time = now, t_expiration = (if expiresAfterMs > 0 then now + expiresAfterMs else 0),
      t_delay = 0, t_cycle = False\<rparr>"

definition new_scheduled :: "int \<Rightarrow> int \<Rightarrow> bool \<Rightarrow> 'b \<Rightarrow> 'b Task" where
  "new_scheduled now delay cycle f =
     \<lparr>t_body = Some f, t_time = now + delay, t_expiration = 0, t_delay = delay, t_cycle = cycle\<rparr>"

definition isCanceled :: "'b Task \<Rightarrow> bool" where
  "isCanceled t \<longleftrightarrow> t_body t = None"

definition cancel :: "'b Task \<Rightarrow> 'b Task" where
  "cancel t = t\<lparr>t_body := None\<rparr>"

definition hasExpired :: "int \<Rightarrow> 'b Task \<Rightarrow> bool" where
  "hasExpired now t \<longleftrightarrow> t_expiration t \<noteq> 0 \<and> t_expiration t < now"

definition updateTime :: "int \<Rightarrow> 'b Task \<Rightarrow> 'b Task" where
  "updateTime now t = t\<lparr>t_time := now + t_delay t\<rparr>"

section \<open>State\<close>

datatype TaskGroup = Walk | WalkParallel | Serial | GenericParallel

record 'b ThreadTask =
  tt_tasks :: "TaskGroup \<Rightarrow> 'b Task list"
  tt_scheduled :: "nat list"

record 'b Dispatcher =
  threads :: "'b ThreadTask list"
  m_tasks :: "TaskGroup \<Rightarrow> 'b Task list"
  scheduledTasks :: "nat list"
  task_of :: "nat \<Rightarrow> 'b Task"
  scheduledTasksRef :: "nat set"
  LAST_EVENT_ID :: nat
  dispatcherCycle :: nat
  executed :: "(nat \<times> 'b) list"

text \<open>The calls a body can make.\<close>

datatype 'b command =
    AddEvent 'b int
  | AddWalkEvent 'b int
  | AsyncEvent 'b TaskGroup
  | ScheduleEvent int bool 'b
  | StopEvent nat

definition push_task :: "nat \<Rightarrow> TaskGroup \<Rightarrow> 'b Task \<Rightarrow> 'b Dispatcher \<Rightarrow> 'b Dispatcher" where
  "push_task me g t d =
     d\<lparr>threads := (threads d)[me := (threads d ! me)\<lparr>tt_tasks :=
        (tt_tasks (threads d ! me))(g := tt_tasks (threads d ! me) g @ [t])\<rparr>]\<rparr>"

definition addEvent :: "int \<Rightarrow> nat \<Rightarrow> 'b \<Rightarrow> int \<Rightarrow> 'b Dispatcher \<Rightarrow> 'b Dispatcher" where
  "addEvent now me f expiresAfterMs d = push_task me Serial (new_task now expiresAfterMs f) d"

definition addWalkEvent :: "int \<Rightarrow> nat \<Rightarrow> 'b \<Rightarrow> int \<Rightarrow> 'b Dispatcher \<Rightarrow> 'b Dispatcher" where
  "addWalkEvent now me f expiresAfterMs d = push_task me Walk (new_task now expiresAfterMs f) d"

definition asyncEvent :: "int \<Rightarrow> nat \<Rightarrow> 'b \<Rightarrow> TaskGroup \<Rightarrow> 'b Dispatcher \<Rightarrow> 'b Dispatcher" where
  "asyncEvent now me f tg d = push_task me tg (new_task now 0 f) d"

definition scheduleEvent :: "nat \<Rightarrow> 'b Task \<Rightarrow> 'b Dispatcher \<Rightarrow> 'b Dispatcher" where
  "scheduleEvent me t d =
     (let i = LAST_EVENT_ID d + 1
      in d\<lparr>LAST_EVENT_ID := i, task_of := (task_of d)(i := t),
           threads := (threads d)[me := (threads d ! me)\<lparr>tt_scheduled := tt_scheduled (threads d ! me) @ [i]\<rparr>],
           scheduledTasksRef := insert i (scheduledTasksRef d)\<rparr>)"

definition stopEvent :: "nat \<Rightarrow> 'b Dispatcher \<Rightarrow> 'b Dispatcher" where
  "stopEvent eventId d =
     (if eventId \<in> scheduledTasksRef d
      then d\<lparr>task_of := (task_of d)(eventId := cancel (task_of d eventId)),
             scheduledTasksRef := scheduledTasksRef d - {eventId}\<rparr>
      else d)"

fun perform :: "int \<Rightarrow> nat \<Rightarrow> 'b command \<Rightarrow> 'b Dispatcher \<Rightarrow> 'b Dispatcher" where
  "perform now me (AddEvent f e) d = addEvent now me f e d"
| "perform now me (AddWalkEvent f e) d = addWalkEvent now me f e d"
| "perform now me (AsyncEvent f g) d = asyncEvent now me f g d"
| "perform now me (ScheduleEvent delay cycle f) d = scheduleEvent me (new_scheduled now delay cycle f) d"
| "perform now me (StopEvent i) d = stopEvent i d"

section \<open>Merging the queues of the threads\<close>

text \<open>The longer queue comes first: the code swaps before it appends.\<close>

definition merge_group :: "'b Task list \<Rightarrow> 'b Task list \<Rightarrow> 'b Task list" where
  "merge_group tasks threadTasks = (if length threadTasks > length tasks then threadTasks @ tasks else tasks @ threadTasks)"

text \<open>Insertion into the multiset ordered by time: behind the tasks of the same time.\<close>

fun insert_task :: "(nat \<Rightarrow> int) \<Rightarrow> nat \<Rightarrow> nat list \<Rightarrow> nat list" where
  "insert_task tm i [] = [i]"
| "insert_task tm i (j # js) = (if tm i < tm j then i # j # js else j # insert_task tm i js)"

definition merge_thread :: "'b Dispatcher \<Rightarrow> 'b ThreadTask \<Rightarrow> 'b Dispatcher" where
  "merge_thread d t =
     d\<lparr>m_tasks := (\<lambda>g. merge_group (m_tasks d g) (tt_tasks t g)),
       scheduledTasks := foldl (\<lambda>q i. insert_task (\<lambda>j. t_time (task_of d j)) i q) (scheduledTasks d) (tt_scheduled t)\<rparr>"

definition empty_thread :: "'b ThreadTask" where
  "empty_thread = \<lparr>tt_tasks = (\<lambda>_. []), tt_scheduled = []\<rparr>"

definition mergeEvents :: "'b Dispatcher \<Rightarrow> 'b Dispatcher" where
  "mergeEvents d = (foldl merge_thread d (threads d))\<lparr>threads := map (\<lambda>_. empty_thread) (threads d)\<rparr>"

section \<open>Executing\<close>

definition execute :: "('b \<Rightarrow> 'b command list) \<Rightarrow> int \<Rightarrow> nat \<Rightarrow> nat \<Rightarrow> 'b Task \<Rightarrow> 'b Dispatcher \<Rightarrow> bool \<times> 'b Dispatcher" where
  "execute run now me i t d =
     (case t_body t of
        None \<Rightarrow> (False, d)
      | Some f \<Rightarrow>
          if hasExpired now t then (False, d)
          else (True, foldl (\<lambda>d c. perform now me c d) (d\<lparr>executed := executed d @ [(i, f)]\<rparr>) (run f)))"

definition executeSerialEvents :: "('b \<Rightarrow> 'b command list) \<Rightarrow> int \<Rightarrow> nat \<Rightarrow> TaskGroup \<Rightarrow> 'b Dispatcher \<Rightarrow> 'b Dispatcher" where
  "executeSerialEvents run now me g d =
     (let d1 = foldl (\<lambda>d t. case execute run now me 0 t d of
                 (True, d') \<Rightarrow> d'\<lparr>dispatcherCycle := dispatcherCycle d' + 1\<rparr>
               | (False, d') \<Rightarrow> d') d (m_tasks d g)
      in d1\<lparr>m_tasks := (m_tasks d1)(g := [])\<rparr>)"

text \<open>\<open>asyncWait\<close> splits the indices into blocks of equal size, one per thread of the pool.\<close>

function blocks :: "nat \<Rightarrow> nat \<Rightarrow> nat \<Rightarrow> (nat \<times> nat) list" where
  "blocks sizePerBlock n i =
     (if sizePerBlock = 0 \<or> n \<le> i then []
      else (i, min n (i + sizePerBlock)) # blocks sizePerBlock n (i + sizePerBlock))"
  by pat_completeness auto
termination
  by (relation "measure (\<lambda>(b, n, i). n - i)") auto

declare blocks.simps [simp del]

definition generatePartition :: "nat \<Rightarrow> nat \<Rightarrow> (nat \<times> nat) list" where
  "generatePartition threadCount n =
     (if n = 0 then [] else blocks ((n + threadCount - 1) div threadCount) n 0)"

definition async_indices :: "nat \<Rightarrow> nat \<Rightarrow> nat list" where
  "async_indices threadCount n = concat (map (\<lambda>(lo, hi). [lo..<hi]) (generatePartition threadCount n))"

definition executeParallelEvents ::
    "('b \<Rightarrow> 'b command list) \<Rightarrow> int \<Rightarrow> (nat \<Rightarrow> nat) \<Rightarrow> nat \<Rightarrow> TaskGroup \<Rightarrow> 'b Dispatcher \<Rightarrow> 'b Dispatcher" where
  "executeParallelEvents run now worker threadCount g d =
     (let tasks = m_tasks d g;
          d1 = foldl (\<lambda>d i. snd (execute run now (worker i) 0 (tasks ! i) d)) d (async_indices threadCount (length tasks))
      in d1\<lparr>m_tasks := (m_tasks d1)(g := [])\<rparr>)"

definition executeEvents ::
    "('b \<Rightarrow> 'b command list) \<Rightarrow> int \<Rightarrow> nat \<Rightarrow> (nat \<Rightarrow> nat) \<Rightarrow> nat \<Rightarrow> 'b Dispatcher \<Rightarrow> 'b Dispatcher" where
  "executeEvents run now me worker threadCount d =
     executeParallelEvents run now worker threadCount GenericParallel
       (executeSerialEvents run now me Serial
         (executeParallelEvents run now worker threadCount WalkParallel
           (executeSerialEvents run now me Walk d)))"

text \<open>A cyclic task that ran gets its next time and goes to the queue of the thread; it is merged again later.\<close>

definition requeue :: "int \<Rightarrow> nat \<Rightarrow> nat \<Rightarrow> 'b Dispatcher \<Rightarrow> 'b Dispatcher" where
  "requeue now me i d =
     d\<lparr>task_of := (task_of d)(i := updateTime now (task_of d i)),
       threads := (threads d)[me := (threads d ! me)\<lparr>tt_scheduled := tt_scheduled (threads d ! me) @ [i]\<rparr>]\<rparr>"

fun scheduled_loop :: "('b \<Rightarrow> 'b command list) \<Rightarrow> int \<Rightarrow> nat \<Rightarrow> nat list \<Rightarrow> 'b Dispatcher \<Rightarrow> nat list \<times> 'b Dispatcher" where
  "scheduled_loop run now me [] d = ([], d)"
| "scheduled_loop run now me (i # is) d =
     (if t_time (task_of d i) > now then (i # is, d)
      else
        let (ok, d1) = execute run now me i (task_of d i) d;
            d2 = (if ok \<and> t_cycle (task_of d i)
                  then requeue now me i d1
                  else d1\<lparr>scheduledTasksRef := scheduledTasksRef d1 - {i}\<rparr>)
        in scheduled_loop run now me is d2)"

definition executeScheduledEvents :: "('b \<Rightarrow> 'b command list) \<Rightarrow> int \<Rightarrow> nat \<Rightarrow> 'b Dispatcher \<Rightarrow> 'b Dispatcher" where
  "executeScheduledEvents run now me d =
     (let (rest, d1) = scheduled_loop run now me (scheduledTasks d) d in d1\<lparr>scheduledTasks := rest\<rparr>)"

text \<open>One iteration of the loop of \<open>init\<close>, and how long it may sleep afterwards; \<open>None\<close> is no limit.\<close>

definition iteration :: "('b \<Rightarrow> 'b command list) \<Rightarrow> int \<Rightarrow> nat \<Rightarrow> (nat \<Rightarrow> nat) \<Rightarrow> nat \<Rightarrow> 'b Dispatcher \<Rightarrow> 'b Dispatcher" where
  "iteration run now me worker threadCount d =
     executeScheduledEvents run now me (executeEvents run now me worker threadCount (mergeEvents d))"

definition timeUntilNextScheduledTask :: "int \<Rightarrow> 'b Dispatcher \<Rightarrow> int option" where
  "timeUntilNextScheduledTask now d =
     (case scheduledTasks d of [] \<Rightarrow> None | i # _ \<Rightarrow> Some (max (t_time (task_of d i) - now) 0))"

section \<open>The partition\<close>

lemma blocks_indices: "0 < b \<Longrightarrow> concat (map (\<lambda>(lo, hi). [lo..<hi]) (blocks b n i)) = [i..<n]"
proof (induction b n i rule: blocks.induct)
  case (1 b n i)
  show ?case
  proof (cases "n \<le> i")
    case False
    then have "concat (map (\<lambda>(lo, hi). [lo..<hi]) (blocks b n i)) = [i..<min n (i + b)] @ [i + b..<n]"
      using 1 by (simp add: blocks.simps [of b n i])
    also have "\<dots> = [i..<n]"
    proof (cases "i + b \<le> n")
      case True
      then have "[i..<n] = [i..<i + b] @ [i + b..<n]" using upt_add_eq_append [of i "i + b" "n - (i + b)"] by simp
      then show ?thesis using True by simp
    qed simp
    finally show ?thesis .
  qed (use 1 in \<open>simp add: blocks.simps\<close>)
qed

lemma async_indices_all:
  assumes "0 < threadCount"
  shows "async_indices threadCount n = [0..<n]"
proof (cases "n = 0")
  case False
  have "threadCount \<le> n + threadCount - 1" using False by simp
  then have "0 < (n + threadCount - 1) div threadCount" using assms by (simp add: div_greater_zero_iff)
  from blocks_indices [OF this] False show ?thesis by (simp add: async_indices_def generatePartition_def)
qed (simp add: async_indices_def generatePartition_def)

lemma blocks_bound: "0 < b \<Longrightarrow> length (blocks b n i) = (n - i + b - 1) div b"
proof (induction b n i rule: blocks.induct)
  case (1 b n i)
  show ?case
  proof (cases "n \<le> i")
    case False
    then have "n - i + b - 1 = (n - (i + b) + b - 1) + b \<or> n - i \<le> b" using 1 by linarith
    then show ?thesis
    proof
      assume eq: "n - i + b - 1 = (n - (i + b) + b - 1) + b"
      have "(n - i + b - 1) div b = Suc ((n - (i + b) + b - 1) div b)"
        unfolding eq using "1.prems" by (simp only: div_add_self2)
      moreover have "length (blocks b n (i + b)) = (n - (i + b) + b - 1) div b"
        using "1.IH" "1.prems" False by blast
      ultimately show ?thesis using "1.prems" False by (simp only: blocks.simps [of b n i]) simp
    next
      assume le: "n - i \<le> b"
      then have "n \<le> i + b" by linarith
      then have "blocks b n (i + b) = []" by (simp add: blocks.simps)
      moreover have "(n - i + b - 1) div b = 1" using False "1.prems" le by (intro div_nat_eqI) auto
      ultimately show ?thesis using "1.prems" False by (simp add: blocks.simps [of b n i])
    qed
  qed (use 1 in \<open>simp add: blocks.simps\<close>)
qed

section \<open>What execution leaves unchanged\<close>

text \<open>A task only changes by being cancelled, and by a new time where that is allowed.\<close>

definition task_kept :: "bool \<Rightarrow> 'b Task \<Rightarrow> 'b Task \<Rightarrow> bool" where
  "task_kept retimed t t' \<longleftrightarrow>
     (\<not> retimed \<longrightarrow> t_time t' = t_time t) \<and> t_delay t' = t_delay t \<and> t_cycle t' = t_cycle t \<and>
     t_expiration t' = t_expiration t \<and> (t_body t' = t_body t \<or> t_body t' = None)"

lemma task_kept_refl [simp]: "task_kept r t t"
  by (simp add: task_kept_def)

lemma task_kept_trans: "task_kept r t u \<Longrightarrow> task_kept q u v \<Longrightarrow> r \<longrightarrow> s \<Longrightarrow> q \<longrightarrow> s \<Longrightarrow> task_kept s t v"
  by (auto simp: task_kept_def)

definition extends_upto :: "nat set \<Rightarrow> 'b Dispatcher \<Rightarrow> 'b Dispatcher \<Rightarrow> bool" where
  "extends_upto S d d' \<longleftrightarrow>
     length (threads d') = length (threads d) \<and> scheduledTasks d' = scheduledTasks d \<and> LAST_EVENT_ID d \<le> LAST_EVENT_ID d' \<and>
     (\<forall>i \<le> LAST_EVENT_ID d. task_kept (i \<in> S) (task_of d i) (task_of d' i))"

abbreviation extends :: "'b Dispatcher \<Rightarrow> 'b Dispatcher \<Rightarrow> bool" where
  "extends \<equiv> extends_upto {}"

lemma extends_refl [simp]: "extends_upto S d d"
  by (simp add: extends_upto_def)

lemma extends_trans:
  assumes "extends_upto S d1 d2" and "extends_upto T d2 d3" and "S \<subseteq> U" and "T \<subseteq> U"
  shows "extends_upto U d1 d3"
proof -
  have "task_kept (i \<in> U) (task_of d1 i) (task_of d3 i)" if "i \<le> LAST_EVENT_ID d1" for i
    using assms that task_kept_trans [of "i \<in> S" "task_of d1 i" "task_of d2 i" "i \<in> T" "task_of d3 i" "i \<in> U"]
    by (auto simp: extends_upto_def)
  then show ?thesis using assms(1,2) by (simp add: extends_upto_def)
qed

lemma map_update_same: "f x = f (xs ! i) \<Longrightarrow> map f (xs[i := x]) = map f xs"
  by (cases "i < length xs") (metis map_update list_update_id nth_map, simp add: list_update_beyond)

lemma push_task_frame [simp]:
  "extends d (push_task me g t d)" "m_tasks (push_task me g t d) = m_tasks d" "executed (push_task me g t d) = executed d"
  "map tt_scheduled (threads (push_task me g t d)) = map tt_scheduled (threads d)"
  "task_of (push_task me g t d) = task_of d" "LAST_EVENT_ID (push_task me g t d) = LAST_EVENT_ID d"
  "scheduledTasksRef (push_task me g t d) = scheduledTasksRef d" "length (threads (push_task me g t d)) = length (threads d)"
  by (simp_all add: push_task_def extends_upto_def map_update_same)

lemma perform_frame:
  "extends d (perform now me c d) \<and> m_tasks (perform now me c d) = m_tasks d \<and> executed (perform now me c d) = executed d"
  by (cases c) (simp_all add: addEvent_def addWalkEvent_def asyncEvent_def scheduleEvent_def stopEvent_def
      extends_upto_def task_kept_def cancel_def Let_def push_task_frame [unfolded extends_upto_def])

text \<open>A fold whose steps add to the trace.\<close>

lemma foldl_trace:
  assumes "\<And>d t. extends d (f d t) \<and> m_tasks (f d t) = m_tasks d \<and> executed (f d t) = executed d @ e t"
  shows "extends d (foldl f d ts) \<and> m_tasks (foldl f d ts) = m_tasks d \<and> executed (foldl f d ts) = executed d @ concat (map e ts)"
proof (induction ts arbitrary: d)
  case (Cons t ts)
  have "extends d (f d t)" "extends (f d t) (foldl f (f d t) ts)" using assms Cons by blast+
  then have "extends d (foldl f d (t # ts))" using extends_trans [of "{}" d "f d t" "{}" _ "{}"] by simp
  then show ?case using assms [of d t] Cons [of "f d t"] by simp
qed simp

definition runs :: "int \<Rightarrow> 'b Task \<Rightarrow> bool" where
  "runs now t \<longleftrightarrow> \<not> isCanceled t \<and> \<not> hasExpired now t"

definition entry :: "int \<Rightarrow> nat \<Rightarrow> 'b Task \<Rightarrow> (nat \<times> 'b) list" where
  "entry now i t = (if runs now t then [(i, the (t_body t))] else [])"

lemma extends_executed [simp]: "extends_upto S (d\<lparr>executed := x\<rparr>) d' = extends_upto S d d'"
  by (simp add: extends_upto_def)

lemma execute_trace:
  "extends d (snd (execute run now me i t d)) \<and> m_tasks (snd (execute run now me i t d)) = m_tasks d \<and>
   executed (snd (execute run now me i t d)) = executed d @ entry now i t \<and> fst (execute run now me i t d) = runs now t"
proof -
  have "extends d (foldl (\<lambda>d c. perform now me c d) d cs) \<and> m_tasks (foldl (\<lambda>d c. perform now me c d) d cs) = m_tasks d \<and>
      executed (foldl (\<lambda>d c. perform now me c d) d cs) = executed d @ concat (map (\<lambda>_. []) cs)" for d cs
    by (rule foldl_trace) (simp add: perform_frame)
  from this [of "d\<lparr>executed := executed d @ [(i, f)]\<rparr>" for f] show ?thesis
    by (auto simp: execute_def entry_def runs_def isCanceled_def split: option.splits)
qed

lemma extends_other [simp]:
  "extends_upto S d (d'\<lparr>dispatcherCycle := c\<rparr>) = extends_upto S d d'"
  "extends_upto S d (d'\<lparr>m_tasks := m\<rparr>) = extends_upto S d d'"
  by (simp_all add: extends_upto_def)

definition live :: "int \<Rightarrow> 'b Task list \<Rightarrow> (nat \<times> 'b) list" where
  "live now ts = concat (map (entry now 0) ts)"

lemma serial_trace:
  "extends d (executeSerialEvents run now me g d) \<and>
   m_tasks (executeSerialEvents run now me g d) = (m_tasks d)(g := []) \<and>
   executed (executeSerialEvents run now me g d) = executed d @ live now (m_tasks d g)"
proof -
  let ?f = "\<lambda>d t. case execute run now me 0 t d of
      (True, d') \<Rightarrow> d'\<lparr>dispatcherCycle := dispatcherCycle d' + 1\<rparr> | (False, d') \<Rightarrow> d'"
  have "extends d (?f d t) \<and> m_tasks (?f d t) = m_tasks d \<and> executed (?f d t) = executed d @ entry now 0 t" for d t
    using execute_trace [of d run now me 0 t] by (auto split: prod.splits bool.splits)
  from foldl_trace [of ?f, OF this, of d "m_tasks d g"] show ?thesis
    by (simp add: executeSerialEvents_def Let_def live_def)
qed

lemma parallel_trace:
  assumes "0 < threadCount"
  shows "extends d (executeParallelEvents run now worker threadCount g d) \<and>
   m_tasks (executeParallelEvents run now worker threadCount g d) = (m_tasks d)(g := []) \<and>
   executed (executeParallelEvents run now worker threadCount g d) = executed d @ live now (m_tasks d g)"
proof -
  let ?ts = "m_tasks d g"
  have "map (\<lambda>i. entry now 0 (?ts ! i)) [0..<length ?ts] = map (entry now 0) ?ts"
    by (rule nth_equalityI) simp_all
  moreover have "extends d (foldl (\<lambda>d i. snd (execute run now (worker i) 0 (?ts ! i) d)) d is) \<and>
      m_tasks (foldl (\<lambda>d i. snd (execute run now (worker i) 0 (?ts ! i) d)) d is) = m_tasks d \<and>
      executed (foldl (\<lambda>d i. snd (execute run now (worker i) 0 (?ts ! i) d)) d is) =
        executed d @ concat (map (\<lambda>i. entry now 0 (?ts ! i)) is)" for "is"
    by (rule foldl_trace) (simp add: execute_trace)
  ultimately show ?thesis
    by (simp add: executeParallelEvents_def Let_def live_def async_indices_all [OF assms])
qed

lemma executeEvents_trace:
  assumes "0 < threadCount"
  shows "extends d (executeEvents run now me worker threadCount d) \<and>
    m_tasks (executeEvents run now me worker threadCount d) = (\<lambda>_. []) \<and>
    executed (executeEvents run now me worker threadCount d) =
      executed d @ concat (map (\<lambda>g. live now (m_tasks d g)) [Walk, WalkParallel, Serial, GenericParallel])"
proof -
  let ?d1 = "executeSerialEvents run now me Walk d"
  let ?d2 = "executeParallelEvents run now worker threadCount WalkParallel ?d1"
  let ?d3 = "executeSerialEvents run now me Serial ?d2"
  let ?d4 = "executeParallelEvents run now worker threadCount GenericParallel ?d3"
  note t = serial_trace [of d run now me Walk] parallel_trace [OF assms, of ?d1 run now worker WalkParallel]
    serial_trace [of ?d2 run now me Serial] parallel_trace [OF assms, of ?d3 run now worker GenericParallel]
  have "extends d ?d4"
    using t by (meson extends_trans subset_refl)
  moreover have "m_tasks ?d4 = (\<lambda>_. [])"
  proof
    fix g :: TaskGroup show "m_tasks ?d4 g = []" using t by (cases g) simp_all
  qed
  ultimately show ?thesis using t by (simp add: executeEvents_def)
qed

section \<open>The invariant of scheduled tasks\<close>

definition queued :: "'b Dispatcher \<Rightarrow> nat list" where
  "queued d = concat (map tt_scheduled (threads d))"

definition sched_wf :: "nat list \<Rightarrow> 'b Dispatcher \<Rightarrow> bool" where
  "sched_wf is d \<longleftrightarrow> distinct (is @ queued d) \<and>
     (\<forall>i \<in> set (is @ queued d). 0 < i \<and> i \<le> LAST_EVENT_ID d \<and> t_expiration (task_of d i) = 0 \<and>
        (\<not> isCanceled (task_of d i) \<longrightarrow> i \<in> scheduledTasksRef d)) \<and>
     sorted_wrt (\<lambda>i j. t_time (task_of d i) \<le> t_time (task_of d j)) is"

lemma sorted_times:
  assumes "sorted_wrt (\<lambda>i j. t_time (task_of d i) \<le> t_time (task_of d j)) is"
    and "\<And>i. i \<in> set is \<Longrightarrow> t_time (task_of d' i) = t_time (task_of d i)"
  shows "sorted_wrt (\<lambda>i j. t_time (task_of d' i) \<le> t_time (task_of d' j)) is"
  by (rule sorted_wrt_mono_rel [OF _ assms(1)]) (simp add: assms(2))

lemma queued_update:
  "k < length xs \<Longrightarrow> f x = f (xs ! k) @ [i] \<Longrightarrow> mset (concat (map f (xs[k := x]))) = add_mset i (mset (concat (map f xs)))"
  by (induction xs arbitrary: k) (auto split: nat.splits)

lemma distinct_add_mset:
  "mset ys = add_mset i (mset xs) \<Longrightarrow> distinct (is @ ys) \<longleftrightarrow> distinct (is @ xs) \<and> i \<notin> set (is @ xs)"
  "mset ys = add_mset i (mset xs) \<Longrightarrow> set ys = insert i (set xs)"
proof -
  assume m: "mset ys = add_mset i (mset xs)"
  then show s: "set ys = insert i (set xs)" by (metis set_mset_add_mset_insert set_mset_mset)
  have "distinct ys \<longleftrightarrow> distinct (i # xs)" using m mset_eq_imp_distinct_iff [of ys "i # xs"] by simp
  then show "distinct (is @ ys) \<longleftrightarrow> distinct (is @ xs) \<and> i \<notin> set (is @ xs)" using s by auto
qed

lemma perform_wf:
  assumes "sched_wf is d" and "me < length (threads d)"
  shows "sched_wf is (perform now me c d)"
proof (cases c)
  case (ScheduleEvent delay cycle f)
  let ?i = "LAST_EVENT_ID d + 1" and ?d = "perform now me c d"
  have "mset (queued ?d) = add_mset ?i (mset (queued d))"
    unfolding queued_def ScheduleEvent using assms(2)
    by (simp add: scheduleEvent_def Let_def queued_update [of me _ _ _ "Suc (LAST_EVENT_ID d)"])
  note q = distinct_add_mset [OF this]
  have "task_of ?d j = task_of d j" if "j \<in> set (is @ queued d)" for j
  proof -
    have "j \<le> LAST_EVENT_ID d" using assms(1) that unfolding sched_wf_def by blast
    then show ?thesis by (auto simp: ScheduleEvent scheduleEvent_def Let_def)
  qed
  moreover have "?i \<notin> set (is @ queued d)"
    using assms(1) unfolding sched_wf_def by (metis Suc_n_not_le_n Suc_eq_plus1)
  moreover have "scheduledTasksRef ?d = insert ?i (scheduledTasksRef d)" "LAST_EVENT_ID ?d = ?i"
    "t_expiration (task_of ?d ?i) = 0"
    by (simp_all add: ScheduleEvent scheduleEvent_def Let_def new_scheduled_def)
  moreover have "sorted_wrt (\<lambda>i j. t_time (task_of ?d i) \<le> t_time (task_of ?d j)) is"
    by (rule sorted_times [of d]) (use assms(1) calculation(1) in \<open>simp_all add: sched_wf_def\<close>)
  ultimately show ?thesis
    using assms(1) q unfolding sched_wf_def by (auto intro: le_SucI)
next
  case (StopEvent i)
  have "queued (stopEvent i d) = queued d" by (simp add: queued_def stopEvent_def)
  moreover have "sorted_wrt (\<lambda>j k. t_time (task_of (stopEvent i d) j) \<le> t_time (task_of (stopEvent i d) k)) is"
    by (rule sorted_times [of d]) (use assms(1) in \<open>simp_all add: sched_wf_def stopEvent_def cancel_def\<close>)
  ultimately show ?thesis using assms(1) unfolding StopEvent perform.simps sched_wf_def
    by (auto simp: stopEvent_def cancel_def isCanceled_def)
qed (use assms in \<open>simp_all add: sched_wf_def queued_def addEvent_def addWalkEvent_def asyncEvent_def\<close>)

lemma fold_perform_wf:
  "sched_wf is d \<Longrightarrow> me < length (threads d) \<Longrightarrow> sched_wf is (foldl (\<lambda>d c. perform now me c d) d cs)"
proof (induction cs arbitrary: d)
  case (Cons c cs)
  have "length (threads (perform now me c d)) = length (threads d)" using perform_frame [of d now me c] by (simp add: extends_upto_def)
  then show ?case using Cons perform_wf [OF Cons.prems] by simp
qed simp

lemma sched_wf_other [simp]:
  "sched_wf is (d\<lparr>executed := e\<rparr>) = sched_wf is d" "sched_wf is (d\<lparr>dispatcherCycle := c\<rparr>) = sched_wf is d"
  "sched_wf is (d\<lparr>m_tasks := m\<rparr>) = sched_wf is d"
  by (simp_all add: sched_wf_def queued_def)

lemma execute_wf:
  "sched_wf is d \<Longrightarrow> me < length (threads d) \<Longrightarrow> sched_wf is (snd (execute run now me i t d))"
  by (auto simp: execute_def fold_perform_wf split: option.splits)

lemma foldl_wf:
  assumes "\<And>d t. sched_wf is d \<Longrightarrow> n \<le> length (threads d) \<Longrightarrow> sched_wf is (f d t) \<and> n \<le> length (threads (f d t))"
  shows "sched_wf is d \<Longrightarrow> n \<le> length (threads d) \<Longrightarrow> sched_wf is (foldl f d ts) \<and> n \<le> length (threads (foldl f d ts))"
  by (induction ts arbitrary: d) (auto simp: assms)

lemma execute_threads: "length (threads (snd (execute run now me i t d))) = length (threads d)"
  using execute_trace [of d run now me i t] by (simp add: extends_upto_def)

lemma executeEvents_wf:
  assumes "sched_wf is d" and "me < length (threads d)" and "\<forall>i. worker i < length (threads d)"
  shows "sched_wf is (executeEvents run now me worker threadCount d)"
proof -
  have serial: "sched_wf is (executeSerialEvents run now me g d') \<and> length (threads d) \<le> length (threads (executeSerialEvents run now me g d'))"
    if "sched_wf is d' \<and> length (threads d) \<le> length (threads d')" for d' g
  proof -
    have "sched_wf is (foldl (\<lambda>d t. case execute run now me 0 t d of
        (True, d') \<Rightarrow> d'\<lparr>dispatcherCycle := dispatcherCycle d' + 1\<rparr> | (False, d') \<Rightarrow> d') d' (m_tasks d' g)) \<and>
      length (threads d) \<le> length (threads (foldl (\<lambda>d t. case execute run now me 0 t d of
        (True, d') \<Rightarrow> d'\<lparr>dispatcherCycle := dispatcherCycle d' + 1\<rparr> | (False, d') \<Rightarrow> d') d' (m_tasks d' g)))"
    proof (rule foldl_wf)
      fix d1 :: "'a Dispatcher" and t
      assume "sched_wf is d1" "length (threads d) \<le> length (threads d1)"
      then show "sched_wf is (case execute run now me 0 t d1 of
        (True, d') \<Rightarrow> d'\<lparr>dispatcherCycle := dispatcherCycle d' + 1\<rparr> | (False, d') \<Rightarrow> d') \<and>
        length (threads d) \<le> length (threads (case execute run now me 0 t d1 of
        (True, d') \<Rightarrow> d'\<lparr>dispatcherCycle := dispatcherCycle d' + 1\<rparr> | (False, d') \<Rightarrow> d'))"
        using execute_wf [of "is" d1 me run now 0 t] execute_threads [of run now me 0 t d1] assms(2)
        by (auto split: prod.splits bool.splits)
    qed (use that in auto)
    then show ?thesis by (simp add: executeSerialEvents_def Let_def)
  qed
  have parallel: "sched_wf is (executeParallelEvents run now worker threadCount g d') \<and>
      length (threads d) \<le> length (threads (executeParallelEvents run now worker threadCount g d'))"
    if "sched_wf is d' \<and> length (threads d) \<le> length (threads d')" for d' g
  proof -
    have "sched_wf is (foldl (\<lambda>e i. snd (execute run now (worker i) 0 (m_tasks d' g ! i) e)) d' js) \<and>
      length (threads d) \<le> length (threads (foldl (\<lambda>e i. snd (execute run now (worker i) 0 (m_tasks d' g ! i) e)) d' js))" for js
    proof (rule foldl_wf)
      fix e :: "'a Dispatcher" and i
      assume e: "sched_wf is e" "length (threads d) \<le> length (threads e)"
      then have "worker i < length (threads e)" using assms(3) by (meson less_le_trans)
      then show "sched_wf is (snd (execute run now (worker i) 0 (m_tasks d' g ! i) e)) \<and>
        length (threads d) \<le> length (threads (snd (execute run now (worker i) 0 (m_tasks d' g ! i) e)))"
        using e execute_wf execute_threads by metis
    qed (use that in auto)
    then show ?thesis by (simp add: executeParallelEvents_def Let_def)
  qed
  have "sched_wf is d \<and> length (threads d) \<le> length (threads d)" using assms(1) by simp
  from parallel [OF serial [OF parallel [OF serial [OF this]]]] show ?thesis
    by (simp add: executeEvents_def)
qed

section \<open>Running the scheduled tasks\<close>

lemma requeue_queued: "me < length (threads d) \<Longrightarrow> mset (queued (requeue now me i d)) = add_mset i (mset (queued d))"
  by (simp add: requeue_def queued_def queued_update [of me _ _ _ i])

lemma retime_wf:
  assumes "sched_wf (i # is) d" and "me < length (threads d)"
  shows "sched_wf is (requeue now me i d)" and "i \<in> set (queued (requeue now me i d))"
proof -
  define d2 where "d2 = requeue now me i d"
  note d2_def = d2_def [unfolded requeue_def]
  have "mset (queued d2) = add_mset i (mset (queued d))"
    using requeue_queued [OF assms(2)] by (simp add: d2_def requeue_def)
  note q = distinct_add_mset [OF this]
  show "i \<in> set (queued (requeue now me i d))" using q(2) by (simp add: d2_def requeue_def)
  note wf = assms(1) [unfolded sched_wf_def]
  have fresh: "i \<notin> set is" and d: "distinct (is @ queued d2)" using wf q(1) [of "is"] by auto
  have other: "task_of d2 j = task_of d j" if "j \<noteq> i" for j using that by (simp add: d2_def)
  have "sorted_wrt (\<lambda>i j. t_time (task_of d2 i) \<le> t_time (task_of d2 j)) is"
    by (rule sorted_times [of d]) (use wf fresh in \<open>simp, metis other\<close>)
  moreover have "t_expiration (task_of d2 j) = t_expiration (task_of d j)" "isCanceled (task_of d2 j) = isCanceled (task_of d j)" for j
    by (simp_all add: d2_def updateTime_def isCanceled_def)
  moreover have "LAST_EVENT_ID d2 = LAST_EVENT_ID d" "scheduledTasksRef d2 = scheduledTasksRef d" by (simp_all add: d2_def)
  moreover have "set (is @ queued d2) = set ((i # is) @ queued d)" using q(2) by auto
  ultimately have "sched_wf is d2" using wf d unfolding sched_wf_def by presburger
  then show "sched_wf is (requeue now me i d)" by (simp add: d2_def requeue_def)
qed

lemma erase_wf: "sched_wf (i # is) d \<Longrightarrow> sched_wf is (d\<lparr>scheduledTasksRef := scheduledTasksRef d - {i}\<rparr>)"
  by (auto simp: sched_wf_def queued_def)

text \<open>What a run of the scheduled tasks did: the tasks of \<open>done\<close> are the due ones, in order; each of them
  ran or had been cancelled; the trace is in their order.\<close>

definition ran_all :: "int \<Rightarrow> nat list \<Rightarrow> (nat \<times> 'b) list \<Rightarrow> 'b Dispatcher \<Rightarrow> 'b Dispatcher \<Rightarrow> bool" where
  "ran_all now done sch d d' \<longleftrightarrow>
     executed d' = executed d @ sch \<and> subseq (map fst sch) done \<and>
     (\<forall>(i, f) \<in> set sch. t_body (task_of d i) = Some f) \<and>
     (\<forall>i \<in> set done. t_time (task_of d i) \<le> now \<and> (i \<in> fst ` set sch \<or> isCanceled (task_of d' i))) \<and>
     (\<forall>i \<in> fst ` set sch. t_cycle (task_of d i) \<longrightarrow>
        i \<in> set (queued d') \<and> t_time (task_of d' i) = now + t_delay (task_of d i))"

lemma perform_queued: "me < length (threads d) \<Longrightarrow> set (queued d) \<subseteq> set (queued (perform now me c d))"
proof (cases c)
  case (ScheduleEvent delay cycle f)
  assume "me < length (threads d)"
  then have "mset (queued (perform now me c d)) = add_mset (LAST_EVENT_ID d + 1) (mset (queued d))"
    unfolding queued_def ScheduleEvent
    by (simp add: scheduleEvent_def Let_def queued_update [of me _ _ _ "Suc (LAST_EVENT_ID d)"])
  from distinct_add_mset(2) [OF this] show ?thesis by blast
qed (simp_all add: queued_def addEvent_def addWalkEvent_def asyncEvent_def stopEvent_def)

lemma foldl_queued:
  "me < length (threads d) \<Longrightarrow> set (queued d) \<subseteq> set (queued (foldl (\<lambda>d c. perform now me c d) d cs))"
proof (induction cs arbitrary: d)
  case (Cons c cs)
  have "length (threads (perform now me c d)) = length (threads d)" using perform_frame [of d now me c] by (simp add: extends_upto_def)
  then show ?case using Cons.IH [of "perform now me c d"] Cons.prems perform_queued [OF Cons.prems, of now c] by simp
qed simp

lemma execute_queued: "me < length (threads d) \<Longrightarrow> set (queued d) \<subseteq> set (queued (snd (execute run now me i t d)))"
proof -
  assume "me < length (threads d)"
  then show ?thesis
    using foldl_queued [of me "d\<lparr>executed := executed d @ [(i, f)]\<rparr>" now for f]
    by (auto simp: execute_def queued_def split: option.splits)
qed

text \<open>One due task.\<close>

definition after_task :: "bool \<Rightarrow> int \<Rightarrow> nat \<Rightarrow> nat \<Rightarrow> 'b Dispatcher \<Rightarrow> 'b Dispatcher" where
  "after_task again now me i d =
     (if again then requeue now me i d else d\<lparr>scheduledTasksRef := scheduledTasksRef d - {i}\<rparr>)"

lemma after_task:
  assumes "sched_wf (i # is) d" and "me < length (threads d)"
  shows "sched_wf is (after_task again now me i d)" and "extends_upto {i} d (after_task again now me i d)"
    and "m_tasks (after_task again now me i d) = m_tasks d" and "executed (after_task again now me i d) = executed d"
    and "set (queued d) \<subseteq> set (queued (after_task again now me i d))"
    and "again \<Longrightarrow> i \<in> set (queued (after_task again now me i d)) \<and>
      t_time (task_of (after_task again now me i d) i) = now + t_delay (task_of d i)"
proof -
  show "set (queued d) \<subseteq> set (queued (after_task again now me i d))"
  proof (cases again)
    case True
    then show ?thesis using distinct_add_mset(2) [OF requeue_queued [OF assms(2)]] by (auto simp: after_task_def)
  qed (simp add: after_task_def queued_def)
qed (use retime_wf [OF assms, of now] erase_wf [OF assms(1)] in
  \<open>auto simp: after_task_def requeue_def extends_upto_def task_kept_def updateTime_def\<close>)

lemma subseq_subset: "subseq xs ys \<Longrightarrow> set xs \<subseteq> set ys"
  by (auto elim: list_emb_set)

lemma scheduled_loop_Cons:
  "scheduled_loop run now me (i # is) d =
     (if t_time (task_of d i) > now then (i # is, d)
      else scheduled_loop run now me is
        (after_task (runs now (task_of d i) \<and> t_cycle (task_of d i)) now me i (snd (execute run now me i (task_of d i) d))))"
proof -
  obtain ok d1 where e: "execute run now me i (task_of d i) d = (ok, d1)" by fastforce
  then have "ok = runs now (task_of d i)" using execute_trace [of d run now me i "task_of d i"] by simp
  then show ?thesis by (simp add: e after_task_def Let_def)
qed

declare scheduled_loop.simps(2) [simp del]

lemma scheduled_loop_ran:
  assumes "sched_wf is d" and "me < length (threads d)" and "scheduled_loop run now me is d = (rest, d')"
  shows "\<exists>done sch. is = done @ rest \<and> (\<forall>i \<in> set rest. now < t_time (task_of d i)) \<and> sched_wf rest d' \<and>
    extends_upto (set done) d d' \<and> m_tasks d' = m_tasks d \<and> set (queued d) \<subseteq> set (queued d') \<and> ran_all now done sch d d'"
  using assms
proof (induction "is" arbitrary: d)
  case Nil
  then show ?case by (auto simp: ran_all_def)
next
  case (Cons i "is")
  let ?t = "task_of d i"
  note wf = Cons.prems(1) [unfolded sched_wf_def]
  show ?case
  proof (cases "t_time ?t > now")
    case True
    then have "rest = i # is" "d' = d" using Cons.prems(3) by (simp_all add: scheduled_loop_Cons)
    moreover have "\<forall>j \<in> set is. now < t_time (task_of d j)" using wf True by fastforce
    ultimately show ?thesis using Cons.prems(1) True by (intro exI [of _ "[]"]) (simp add: ran_all_def)
  next
    case False
    define d1 where "d1 = snd (execute run now me i ?t d)"
    define again where "again = (runs now ?t \<and> t_cycle ?t)"
    define d2 where "d2 = after_task again now me i d1"
    have x: "extends d d1" "m_tasks d1 = m_tasks d" "executed d1 = executed d @ entry now i ?t"
      using execute_trace [of d run now me i ?t] by (simp_all add: d1_def)
    have wf1: "sched_wf (i # is) d1" unfolding d1_def by (rule execute_wf [OF Cons.prems(1,2)])
    have len1: "me < length (threads d1)" using x(1) Cons.prems(2) by (simp add: extends_upto_def)
    note a = after_task [OF wf1 len1, of again now, folded d2_def]
    have ext2: "extends_upto {i} d d2" using extends_trans [OF x(1) a(2)] by simp
    then have len2: "me < length (threads d2)" using Cons.prems(2) by (simp add: extends_upto_def)
    have "scheduled_loop run now me is d2 = (rest, d')"
      using Cons.prems(3) False by (simp add: scheduled_loop_Cons d2_def d1_def again_def)
    from Cons.IH [OF a(1) len2 this] obtain done' sch' where ih: "is = done' @ rest"
      "\<forall>j \<in> set rest. now < t_time (task_of d2 j)" "sched_wf rest d'" "extends_upto (set done') d2 d'"
      "m_tasks d' = m_tasks d2" "set (queued d2) \<subseteq> set (queued d')" "ran_all now done' sch' d2 d'" by blast
    have kept: "task_kept False (task_of d j) (task_of d2 j)" if "j \<in> set is" for j
    proof -
      have "j \<noteq> i" "j \<le> LAST_EVENT_ID d" using wf that by auto
      then show ?thesis using ext2 unfolding extends_upto_def by force
    qed
    have i: "i \<notin> set done'" "i \<le> LAST_EVENT_ID d2" using wf ih(1) ext2 by (auto simp: extends_upto_def)
    have kept_i: "task_kept False (task_of d2 i) (task_of d' i)" using ih(4) i unfolding extends_upto_def by auto
    have kept_di: "task_kept True (task_of d i) (task_of d2 i)" using wf ext2 by (auto simp: extends_upto_def)
    have kept_1i: "task_kept False (task_of d i) (task_of d1 i)" using wf x(1) by (auto simp: extends_upto_def)
    note r = ih(7) [unfolded ran_all_def]
    have sub: "fst ` set sch' \<subseteq> set done'"
    proof -
      have "set (map fst sch') \<subseteq> set done'" using r subseq_subset by blast
      then show ?thesis by simp
    qed
    have "ran_all now (i # done') (entry now i ?t @ sch') d d'"
      unfolding ran_all_def
    proof (intro conjI)
      show "executed d' = executed d @ entry now i ?t @ sch'" using r x(3) a(4) by simp
      show "subseq (map fst (entry now i ?t @ sch')) (i # done')" using r by (auto simp: entry_def intro: list_emb_Cons)
      show "\<forall>(j, f) \<in> set (entry now i ?t @ sch'). t_body (task_of d j) = Some f"
        using r kept sub ih(1)
        by (fastforce simp: entry_def runs_def isCanceled_def task_kept_def split: if_splits)
      show "\<forall>j \<in> set (i # done'). t_time (task_of d j) \<le> now \<and>
          (j \<in> fst ` set (entry now i ?t @ sch') \<or> isCanceled (task_of d' j))"
      proof
        fix j assume "j \<in> set (i # done')"
        then consider "j = i" | "j \<in> set done'" by auto
        then show "t_time (task_of d j) \<le> now \<and> (j \<in> fst ` set (entry now i ?t @ sch') \<or> isCanceled (task_of d' j))"
        proof cases
          case 1
          have "isCanceled (task_of d' i)" if "\<not> runs now ?t"
          proof -
            have "t_body ?t = None" using that wf by (simp add: runs_def hasExpired_def isCanceled_def)
            then show ?thesis using kept_di kept_i by (simp add: task_kept_def isCanceled_def)
          qed
          then show ?thesis using 1 False by (cases "runs now ?t") (auto simp: entry_def)
        next
          case 2
          then have "task_kept False (task_of d j) (task_of d2 j)" using kept ih(1) by simp
          then show ?thesis using 2 r by (auto simp: task_kept_def)
        qed
      qed
      show "\<forall>j \<in> fst ` set (entry now i ?t @ sch'). t_cycle (task_of d j) \<longrightarrow>
          j \<in> set (queued d') \<and> t_time (task_of d' j) = now + t_delay (task_of d j)"
      proof (intro ballI impI)
        fix j assume j: "j \<in> fst ` set (entry now i ?t @ sch')" "t_cycle (task_of d j)"
        then consider "j = i" "runs now ?t" | "j \<in> fst ` set sch'" by (auto simp: entry_def split: if_splits)
        then show "j \<in> set (queued d') \<and> t_time (task_of d' j) = now + t_delay (task_of d j)"
        proof cases
          case 1
          then have "i \<in> set (queued d2)" "t_time (task_of d2 i) = now + t_delay (task_of d1 i)"
            using a(6) j(2) by (simp_all add: again_def)
          then show ?thesis using 1 ih(6) kept_i kept_1i by (auto simp: task_kept_def)
        next
          case 2
          then have "task_kept False (task_of d j) (task_of d2 j)" using kept ih(1) sub by auto
          then show ?thesis using 2 r j(2) by (auto simp: task_kept_def)
        qed
      qed
    qed
    moreover have "extends_upto (set (i # done')) d d'" using extends_trans [OF ext2 ih(4)] by auto
    moreover have "set (queued d) \<subseteq> set (queued d')"
      using execute_queued [OF Cons.prems(2)] a(5) ih(6) unfolding d1_def by blast
    moreover have "\<forall>j \<in> set rest. now < t_time (task_of d j)"
      using ih(1,2) kept by (auto simp: task_kept_def)
    ultimately show ?thesis using ih(1,3,5) a(3) x(2) by (intro exI [of _ "i # done'"]) auto
  qed
qed

section \<open>Merging\<close>

lemma insert_task_mset [simp]: "mset (insert_task tm i q) = add_mset i (mset q)"
  by (induction q) auto

lemma insert_task_sorted:
  "sorted_wrt (\<lambda>i j. tm i \<le> tm j) q \<Longrightarrow> sorted_wrt (\<lambda>i j. tm i \<le> tm j) (insert_task tm i q)"
proof (induction q)
  case (Cons j js)
  have "set (insert_task tm i js) = insert i (set js)"
    using insert_task_mset [of tm i js] by (metis set_mset_add_mset_insert set_mset_mset)
  then show ?case using Cons by auto
qed simp

lemma insert_all:
  "mset (foldl (\<lambda>q i. insert_task tm i q) q is) = mset q + mset is"
  "sorted_wrt (\<lambda>i j. tm i \<le> tm j) q \<Longrightarrow> sorted_wrt (\<lambda>i j. tm i \<le> tm j) (foldl (\<lambda>q i. insert_task tm i q) q is)"
  by (induction "is" arbitrary: q) (simp_all add: insert_task_sorted)

lemma merge_group_mset [simp]: "mset (merge_group xs ys) = mset xs + mset ys"
  by (simp add: merge_group_def)

lemma merge_thread_fields [simp]:
  "threads (merge_thread d t) = threads d" "task_of (merge_thread d t) = task_of d"
  "scheduledTasksRef (merge_thread d t) = scheduledTasksRef d" "LAST_EVENT_ID (merge_thread d t) = LAST_EVENT_ID d"
  "executed (merge_thread d t) = executed d"
  by (simp_all add: merge_thread_def)

lemma merge_fields [simp]:
  "threads (foldl merge_thread d ts) = threads d" "task_of (foldl merge_thread d ts) = task_of d"
  "scheduledTasksRef (foldl merge_thread d ts) = scheduledTasksRef d" "LAST_EVENT_ID (foldl merge_thread d ts) = LAST_EVENT_ID d"
  "executed (foldl merge_thread d ts) = executed d"
  by (induction ts arbitrary: d) simp_all





lemma merge_scheduled:
  "mset (scheduledTasks (foldl merge_thread d ts)) = mset (scheduledTasks d) + mset (concat (map tt_scheduled ts)) \<and>
   (sorted_wrt (\<lambda>i j. t_time (task_of d i) \<le> t_time (task_of d j)) (scheduledTasks d) \<longrightarrow>
    sorted_wrt (\<lambda>i j. t_time (task_of d i) \<le> t_time (task_of d j)) (scheduledTasks (foldl merge_thread d ts)))"
proof (induction ts arbitrary: d)
  case (Cons t ts)
  have "mset (scheduledTasks (merge_thread d t)) = mset (scheduledTasks d) + mset (tt_scheduled t)"
    "sorted_wrt (\<lambda>i j. t_time (task_of d i) \<le> t_time (task_of d j)) (scheduledTasks d) \<longrightarrow>
     sorted_wrt (\<lambda>i j. t_time (task_of d i) \<le> t_time (task_of d j)) (scheduledTasks (merge_thread d t))"
    by (simp_all add: merge_thread_def insert_all)
  then show ?case using Cons [of "merge_thread d t"] by simp
qed simp

lemma mergeEvents_wf:
  assumes "sched_wf (scheduledTasks d) d"
  shows "sched_wf (scheduledTasks (mergeEvents d)) (mergeEvents d)"
    and "set (scheduledTasks (mergeEvents d)) = set (scheduledTasks d) \<union> set (queued d)"
    and "queued (mergeEvents d) = []"
proof -
  show q: "queued (mergeEvents d) = []" by (induction "threads d") (simp_all add: mergeEvents_def queued_def empty_thread_def comp_def)
  have m: "mset (scheduledTasks (mergeEvents d)) = mset (scheduledTasks d @ queued d)"
    using merge_scheduled [of d "threads d"] by (simp add: mergeEvents_def queued_def)
  from arg_cong [OF this, of set_mset] show s: "set (scheduledTasks (mergeEvents d)) = set (scheduledTasks d) \<union> set (queued d)" by simp
  have "distinct (scheduledTasks (mergeEvents d))"
    using mset_eq_imp_distinct_iff [OF m] assms by (simp add: sched_wf_def)
  then show "sched_wf (scheduledTasks (mergeEvents d)) (mergeEvents d)"
    using assms merge_scheduled [of d "threads d"] unfolding sched_wf_def q by (simp add: s) (simp add: mergeEvents_def)
qed

section \<open>Properties of an iteration\<close>

text \<open>The state between two iterations: no merged task is left over, the scheduled tasks are well-formed.\<close>

definition disp_ok :: "nat \<Rightarrow> (nat \<Rightarrow> nat) \<Rightarrow> nat \<Rightarrow> 'b Dispatcher \<Rightarrow> bool" where
  "disp_ok me worker threadCount d \<longleftrightarrow> sched_wf (scheduledTasks d) d \<and> m_tasks d = (\<lambda>_. []) \<and>
     me < length (threads d) \<and> (\<forall>i. worker i < length (threads d)) \<and> 0 < threadCount"






definition all_groups :: "TaskGroup list" where
  "all_groups = [Walk, WalkParallel, Serial, GenericParallel]"



text \<open>What an iteration does, in terms of its merged state.\<close>

lemma iteration_trace:
  fixes run :: "'b \<Rightarrow> 'b command list" and now :: int
  assumes "disp_ok me worker threadCount d"
  defines "d1 \<equiv> mergeEvents d" and "d' \<equiv> iteration run now me worker threadCount d"
  shows "\<exists>d2 done sch rest. extends d1 d2 \<and> sched_wf (scheduledTasks d1) d2 \<and>
    executed d2 = executed d @ concat (map (\<lambda>g. live now (m_tasks d1 g)) all_groups) \<and>
    scheduledTasks d1 = done @ rest \<and> (\<forall>i \<in> set rest. now < t_time (task_of d2 i)) \<and>
    ran_all now done sch d2 d' \<and> scheduledTasks d' = rest \<and> extends_upto (set done) d2 (d'\<lparr>scheduledTasks := scheduledTasks d2\<rparr>) \<and>
    disp_ok me worker threadCount d'"
proof -
  let ?d2 = "executeEvents run now me worker threadCount d1"
  note ok = assms(1) [unfolded disp_ok_def]
  have tc: "0 < threadCount" and len: "length (threads d1) = length (threads d)"
    using ok by (simp_all add: d1_def mergeEvents_def)
  note x = executeEvents_trace [OF tc, of d1 run now me worker]
  have wf1: "sched_wf (scheduledTasks d1) d1" unfolding d1_def using ok by (intro mergeEvents_wf) simp
  have wf2: "sched_wf (scheduledTasks d1) ?d2" using ok len by (intro executeEvents_wf wf1) auto
  have sched2: "scheduledTasks ?d2 = scheduledTasks d1" and len2: "length (threads ?d2) = length (threads d)"
    using x len by (simp_all add: extends_upto_def)
  obtain rest d3 where l: "scheduled_loop run now me (scheduledTasks d1) ?d2 = (rest, d3)" by fastforce
  have me2: "me < length (threads ?d2)" using ok len2 by simp
  from scheduled_loop_ran [OF wf2 me2 l] obtain "done" sch where r: "scheduledTasks d1 = done @ rest"
    "\<forall>i \<in> set rest. now < t_time (task_of ?d2 i)" "sched_wf rest d3" "extends_upto (set done) ?d2 d3"
    "m_tasks d3 = m_tasks ?d2" "ran_all now done sch ?d2 d3" by blast
  have d': "d' = d3\<lparr>scheduledTasks := rest\<rparr>"
    using l sched2 by (simp add: d'_def iteration_def executeScheduledEvents_def d1_def)
  have "sched_wf rest d'" using r(3) by (simp add: d' sched_wf_def queued_def)
  moreover have "m_tasks d' = (\<lambda>_. [])" "length (threads d') = length (threads d)"
    using r(4,5) x len2 by (simp_all add: d' extends_upto_def)
  ultimately have "disp_ok me worker threadCount d'" using ok by (simp add: disp_ok_def d')
  moreover have "ran_all now done sch ?d2 d'" using r(6) by (simp add: d' ran_all_def queued_def)
  moreover have "executed d1 = executed d" by (simp add: d1_def mergeEvents_def)
  moreover have "extends_upto (set done) ?d2 (d'\<lparr>scheduledTasks := scheduledTasks ?d2\<rparr>)"
    using r(4) by (simp add: d' extends_upto_def)
  ultimately show ?thesis
    using x wf2 r(1,2) d' by (intro exI [of _ ?d2] exI [of _ "done"] exI [of _ sch] exI [of _ rest]) (simp add: all_groups_def)
qed


definition sample_dispatcher :: "nat Dispatcher" where
  "sample_dispatcher =
     \<lparr>threads = [\<lparr>tt_tasks = (\<lambda>g. if g = Serial then [new_task 5 0 7] else []), tt_scheduled = [1]\<rparr>],
      m_tasks = (\<lambda>_. []), scheduledTasks = [], task_of = (\<lambda>_. new_scheduled 5 3 False 9),
      scheduledTasksRef = {1}, LAST_EVENT_ID = 1, dispatcherCycle = 0, executed = []\<rparr>"

lemma sample_ok: "disp_ok 0 (\<lambda>_. 0) 1 sample_dispatcher"
  by (simp add: disp_ok_def sched_wf_def queued_def sample_dispatcher_def new_scheduled_def)


lemma subseq_sorted_wrt: "subseq xs ys \<Longrightarrow> sorted_wrt P ys \<Longrightarrow> sorted_wrt P xs"
proof (induction rule: list_emb.induct)
  case (list_emb_Cons2 x y xs ys)
  then show ?case using subseq_subset [of xs ys] by auto
qed auto

text \<open>C16: A scheduled task runs in the first iteration after its time unless it is stopped: of the tasks pending
  before an iteration, each one that is due has run or is cancelled afterwards, those that run do so
  once and in the order of their times, a task that is not due stays pending, a task cancelled before
  does not run, and a cyclic task that ran is queued for its next time.\<close>

theorem scheduled_tasks_run_when_due:
  assumes "disp_ok me worker threadCount d"
  shows "\<exists>events ran. executed (iteration run now me worker threadCount d) = executed d @ events @ ran \<and>
    sorted_wrt (\<lambda>p q. fst p \<noteq> fst q \<and> t_time (task_of d (fst p)) \<le> t_time (task_of d (fst q))) ran \<and>
    (\<forall>i \<in> set (scheduledTasks d) \<union> set (queued d).
       let t = task_of d i; d' = iteration run now me worker threadCount d in
       (t_time t \<le> now \<longrightarrow> i \<in> fst ` set ran \<or> isCanceled (task_of d' i)) \<and>
       (t_time t > now \<longrightarrow> i \<notin> fst ` set ran \<and> i \<in> set (scheduledTasks d')) \<and>
       (isCanceled t \<longrightarrow> i \<notin> fst ` set ran) \<and>
       (i \<in> fst ` set ran \<and> t_cycle t \<longrightarrow> i \<in> set (queued d') \<and> t_time (task_of d' i) = now + t_delay t))"
proof -
  let ?d1 = "mergeEvents d" and ?d' = "iteration run now me worker threadCount d"
  note ok = assms [unfolded disp_ok_def]
  from iteration_trace [where run = run and now = now, OF assms] obtain d2 "done" sch rest where
    x: "extends ?d1 d2" "sched_wf (scheduledTasks ?d1) d2"
      "executed d2 = executed d @ concat (map (\<lambda>g. live now (m_tasks ?d1 g)) all_groups)" "scheduledTasks ?d1 = done @ rest"
      "\<forall>i \<in> set rest. now < t_time (task_of d2 i)" "ran_all now done sch d2 ?d'" "scheduledTasks ?d' = rest" by blast
  have pending: "set (scheduledTasks d) \<union> set (queued d) = set done \<union> set rest"
    using mergeEvents_wf(2) [of d] ok x(4) by simp
  have d1: "task_of ?d1 = task_of d" "LAST_EVENT_ID ?d1 = LAST_EVENT_ID d" by (simp_all add: mergeEvents_def)
  have kept: "task_kept False (task_of d i) (task_of d2 i)" if "i \<in> set done \<union> set rest" for i
  proof -
    have "i \<le> LAST_EVENT_ID ?d1"
      using that mergeEvents_wf(1) [of d] ok x(4) by (auto simp: sched_wf_def)
    then show ?thesis using x(1) d1 unfolding extends_upto_def by auto
  qed
  note r = x(6) [unfolded ran_all_def]
  have ran_done: "fst ` set sch \<subseteq> set done" using r subseq_subset by fastforce
  have "sorted_wrt (\<lambda>i j. i \<noteq> j \<and> t_time (task_of d i) \<le> t_time (task_of d j)) done"
  proof -
    have "distinct done" "sorted_wrt (\<lambda>i j. t_time (task_of d2 i) \<le> t_time (task_of d2 j)) done"
      using x(2,4) by (auto simp: sched_wf_def sorted_wrt_append)
    then show ?thesis using kept
      by (auto simp: sorted_wrt_iff_nth_less nth_eq_iff_index_eq task_kept_def)
  qed
  then have "sorted_wrt (\<lambda>i j. i \<noteq> j \<and> t_time (task_of d i) \<le> t_time (task_of d j)) (map fst sch)"
    using r subseq_sorted_wrt by blast
  moreover have "let t = task_of d i in
       (t_time t \<le> now \<longrightarrow> i \<in> fst ` set sch \<or> isCanceled (task_of ?d' i)) \<and>
       (t_time t > now \<longrightarrow> i \<notin> fst ` set sch \<and> i \<in> set (scheduledTasks ?d')) \<and>
       (isCanceled t \<longrightarrow> i \<notin> fst ` set sch) \<and>
       (i \<in> fst ` set sch \<and> t_cycle t \<longrightarrow> i \<in> set (queued ?d') \<and> t_time (task_of ?d' i) = now + t_delay t)"
    if "i \<in> set done \<union> set rest" for i
  proof -
    have k: "t_time (task_of d2 i) = t_time (task_of d i)" "t_cycle (task_of d2 i) = t_cycle (task_of d i)"
      "t_delay (task_of d2 i) = t_delay (task_of d i)" "t_body (task_of d i) = None \<longrightarrow> t_body (task_of d2 i) = None"
      using kept [OF that] by (auto simp: task_kept_def)
    have "i \<in> set done \<longleftrightarrow> t_time (task_of d i) \<le> now"
      using that r x(5) k(1) by (metis Un_iff linorder_not_less)
    moreover have "isCanceled (task_of d i) \<longrightarrow> i \<notin> fst ` set sch"
      using k(4) r by (fastforce simp: isCanceled_def)
    ultimately show ?thesis using that r ran_done x(7) k unfolding Let_def by auto
  qed
  ultimately show ?thesis using x(3) r unfolding pending
    by (intro exI [of _ "concat (map (\<lambda>g. live now (m_tasks ?d1 g)) all_groups)"] exI [of _ sch])
      (simp add: sorted_wrt_map Let_def)
qed

theorem scheduled_tasks_run_when_due_witness:
  "\<exists>events ran. executed (iteration (\<lambda>_. []) 8 0 (\<lambda>_. 0) 1 sample_dispatcher) = events @ ran \<and>
    (1 \<in> fst ` set ran \<or> isCanceled (task_of (iteration (\<lambda>_. []) 8 0 (\<lambda>_. 0) 1 sample_dispatcher) 1))"
proof -
  let ?d' = "iteration (\<lambda>_. []) 8 0 (\<lambda>_. 0) 1 sample_dispatcher"
  have i: "1 \<in> set (scheduledTasks sample_dispatcher) \<union> set (queued sample_dispatcher)"
    "t_time (task_of sample_dispatcher 1) \<le> 8" "executed sample_dispatcher = []"
    by (simp_all add: sample_dispatcher_def queued_def new_scheduled_def)
  from scheduled_tasks_run_when_due [OF sample_ok, of "\<lambda>_. []" 8] obtain events ran where
    e: "executed ?d' = executed sample_dispatcher @ events @ ran"
    and all: "\<forall>i \<in> set (scheduledTasks sample_dispatcher) \<union> set (queued sample_dispatcher).
       let t = task_of sample_dispatcher i; d' = ?d' in
       (t_time t \<le> 8 \<longrightarrow> i \<in> fst ` set ran \<or> isCanceled (task_of d' i)) \<and>
       (t_time t > 8 \<longrightarrow> i \<notin> fst ` set ran \<and> i \<in> set (scheduledTasks d')) \<and>
       (isCanceled t \<longrightarrow> i \<notin> fst ` set ran) \<and>
       (i \<in> fst ` set ran \<and> t_cycle t \<longrightarrow> i \<in> set (queued d') \<and> t_time (task_of d' i) = 8 + t_delay t)"
    by (elim exE conjE) (rule that)
  have "1 \<in> fst ` set ran \<or> isCanceled (task_of ?d' 1)"
    using bspec [OF all i(1)] i(2) by (simp only: Let_def)
  then show ?thesis using e i(3) by (intro exI [of _ events] exI [of _ ran]) simp
qed

end
