(* ===== verification/Wakeup.thy ===== *)
theory Wakeup
  imports Prelude
begin

text \<open>
  The hand-shake between the dispatcher loop and a thread that adds events: \<open>Dispatcher::init\<close>,
  \<open>__mergeEvents\<close>, \<open>checkPendingTasks\<close>, \<open>addEvent\<close> and \<open>notify\<close> of \<^verbatim>\<open>src/game/scheduling/dispatcher.cpp\<close> and
  \<^verbatim>\<open>dispatcher.hpp\<close>, as an interleaving of their atomic steps.  The adding thread holds the mutex of its
  queue from the push to the end of \<open>notify\<close>, so its queue is merged only while it is idle; the flag
  \<open>hasPendingTasks\<close> and the condition variable are not protected by any mutex.  Queues are counted;
  what the events do and the other threads are left out.
\<close>

section \<open>The steps\<close>

text \<open>Where the loop is: merging the queue, at the two writes of \<open>checkPendingTasks\<close>, executing, reading the
  flag, between the read and the wait, or waiting on the condition variable.\<close>

datatype loop_pc = Merging | Resetting | Checking | Executing | Deciding | GoingToWait | Waiting

datatype adder_pc = Idle | Pushed | Setting | Notifying

record handshake =
  loop :: loop_pc
  adder :: adder_pc
  queue_len :: nat
  merged :: nat
  hasPendingTasks :: bool

definition start :: handshake where
  "start = \<lparr>loop = Merging, adder = Idle, queue_len = 0, merged = 0, hasPendingTasks = False\<rparr>"

inductive step :: "handshake \<Rightarrow> handshake \<Rightarrow> bool" where
  Merge: "loop s = Merging \<Longrightarrow> adder s = Idle \<Longrightarrow>
    step s (s\<lparr>loop := Resetting, merged := merged s + queue_len s, queue_len := 0\<rparr>)"
| Reset: "loop s = Resetting \<Longrightarrow> step s (s\<lparr>loop := Checking, hasPendingTasks := False\<rparr>)"
| Check: "loop s = Checking \<Longrightarrow>
    step s (s\<lparr>loop := Executing, hasPendingTasks := (if merged s > 0 then True else hasPendingTasks s)\<rparr>)"
| Execute: "loop s = Executing \<Longrightarrow> step s (s\<lparr>loop := Deciding, merged := 0\<rparr>)"
| Decide: "loop s = Deciding \<Longrightarrow> step s (s\<lparr>loop := (if hasPendingTasks s then Merging else GoingToWait)\<rparr>)"
| Wait: "loop s = GoingToWait \<Longrightarrow> step s (s\<lparr>loop := Waiting\<rparr>)"
| Timeout: "loop s = Waiting \<Longrightarrow> step s (s\<lparr>loop := Merging\<rparr>)"
| Push: "adder s = Idle \<Longrightarrow> step s (s\<lparr>adder := Pushed, queue_len := queue_len s + 1\<rparr>)"
| Test: "adder s = Pushed \<Longrightarrow> step s (s\<lparr>adder := (if hasPendingTasks s then Idle else Setting)\<rparr>)"
| SetFlag: "adder s = Setting \<Longrightarrow> step s (s\<lparr>adder := Notifying, hasPendingTasks := True\<rparr>)"
| Notify: "adder s = Notifying \<Longrightarrow>
    step s (s\<lparr>adder := Idle, loop := (if loop s = Waiting then Merging else loop s)\<rparr>)"

abbreviation reachable :: "handshake \<Rightarrow> bool" where
  "reachable s \<equiv> step\<^sup>*\<^sup>* start s"


section \<open>What holds of every run\<close>

text \<open>No merged event is left when the loop sleeps, and a set flag means that somebody will look again.\<close>

definition hs_inv :: "handshake \<Rightarrow> bool" where
  "hs_inv s \<longleftrightarrow>
     (loop s \<in> {Merging, Deciding, GoingToWait, Waiting} \<longrightarrow> merged s = 0) \<and>
     (loop s = Executing \<and> merged s > 0 \<longrightarrow> hasPendingTasks s)"

lemma hs_inv_step: "step s t \<Longrightarrow> hs_inv s \<Longrightarrow> hs_inv t"
  by (induction rule: step.induct) (simp_all add: hs_inv_def)

lemma hs_inv_reachable: "reachable s \<Longrightarrow> hs_inv s"
proof (induction rule: rtranclp_induct)
  case base
  show ?case by (simp add: hs_inv_def start_def)
qed (rule hs_inv_step)

text \<open>An event added while the loop waits, with the flag down, wakes it.\<close>

lemma waiting_is_woken:
  assumes "loop s = Waiting" and "adder s = Idle" and "\<not> hasPendingTasks s"
  shows "\<exists>t. step\<^sup>*\<^sup>* s t \<and> loop t = Merging \<and> adder t = Idle \<and> queue_len t = queue_len s + 1"
proof -
  let ?a = "s\<lparr>adder := Pushed, queue_len := queue_len s + 1\<rparr>"
  let ?b = "?a\<lparr>adder := Setting\<rparr>" and ?c = "?a\<lparr>adder := Notifying, hasPendingTasks := True\<rparr>"
  have "step s ?a" using assms by (intro Push)
  moreover have "step ?a ?b" using Test [of ?a] assms(3) by simp
  moreover have "step ?b ?c" using SetFlag [of ?b] by simp
  moreover have "step ?c (?c\<lparr>adder := Idle, loop := Merging\<rparr>)" using Notify [of ?c] assms(1) by simp
  ultimately have "step\<^sup>*\<^sup>* s (?c\<lparr>adder := Idle, loop := Merging\<rparr>)"
    by (meson rtranclp.rtrancl_into_rtrancl rtranclp.rtrancl_refl)
  then show ?thesis by (intro exI conjI) (assumption, simp_all)
qed

section \<open>Properties\<close>


end
