(* ===== verification/Waiting_List.thy ===== *)
theory Waiting_List
  imports Prelude "HOL-Library.Multiset"
begin

text \<open>
  The waiting list of a full server: \<^verbatim>\<open>src/creatures/players/management/waitlist.cpp\<close>.  A list entry has a
  node number, its identity, and an iterator is the number of its node.  What the standard leaves
  undefined (the distance to an iterator of another list, the removal of a node from a list it is not
  in, the use of an end iterator) is the result \<open>None\<close>.  The clock, the number of players online and
  the limit are arguments; logging is left out.
\<close>

section \<open>State\<close>

record Wait =
  w_timeout :: nat
  playerGUID :: nat
  w_node :: nat

record WaitListInfo =
  priorityWaitList :: "Wait list"
  waitList :: "Wait list"
  playerReferences :: "nat \<Rightarrow> (nat \<times> nat) option"
  next_node :: nat

record login =
  guid :: nat
  isPremium :: bool
  canAlwaysLogin :: bool

definition new_waitlist :: WaitListInfo where
  "new_waitlist = \<lparr>priorityWaitList = [], waitList = [], playerReferences = Map.empty, next_node = 0\<rparr>"

section \<open>Operations\<close>

text \<open>One list is cleaned at a time; the references of the entries it drops go too.\<close>

fun cleanupList :: "nat \<Rightarrow> Wait list \<Rightarrow> (nat \<Rightarrow> (nat \<times> nat) option) \<Rightarrow> Wait list \<times> (nat \<Rightarrow> (nat \<times> nat) option)" where
  "cleanupList time [] refs = ([], refs)"
| "cleanupList time (w # ws) refs =
     (if int (w_timeout w) - int time \<le> 0 then cleanupList time ws (refs(playerGUID w := None))
      else let (ws', refs') = cleanupList time ws refs in (w # ws', refs'))"

definition getTime :: "nat \<Rightarrow> nat" where
  "getTime slot = (if slot < 5 then 5 else if slot < 10 then 10 else if slot < 20 then 20 else if slot < 50 then 60 else 120)"

definition getTimeout :: "nat \<Rightarrow> nat" where
  "getTimeout slot = getTime slot + 15"

text \<open>\<^verbatim>\<open>std::distance\<close> from the beginning of a list to a node.\<close>

fun node_index :: "nat \<Rightarrow> Wait list \<Rightarrow> nat option" where
  "node_index n [] = None"
| "node_index n (w # ws) = (if w_node w = n then Some 0 else map_option Suc (node_index n ws))"

definition slot_of :: "bool \<Rightarrow> nat \<Rightarrow> WaitListInfo \<Rightarrow> nat option" where
  "slot_of premium n info =
     (if premium then map_option (\<lambda>d. d + 1) (node_index n (priorityWaitList info))
      else map_option (\<lambda>d. length (priorityWaitList info) + d + 1) (node_index n (waitList info)))"

definition set_timeout :: "nat \<Rightarrow> nat \<Rightarrow> Wait list \<Rightarrow> Wait list" where
  "set_timeout n t ws = map (\<lambda>w. if w_node w = n then w\<lparr>w_timeout := t\<rparr> else w) ws"

definition addPlayerToList :: "nat \<Rightarrow> login \<Rightarrow> WaitListInfo \<Rightarrow> WaitListInfo option" where
  "addPlayerToList now player info =
     (case playerReferences info (guid player) of
        Some (n, old) \<Rightarrow>
          (case slot_of (isPremium player) n info of
             None \<Rightarrow> None
           | Some slot \<Rightarrow>
               let t = now + getTimeout slot * 1000
               in Some (info\<lparr>playerReferences := (playerReferences info)(guid player \<mapsto> (n, slot)),
                    priorityWaitList := set_timeout n t (priorityWaitList info),
                    waitList := set_timeout n t (waitList info)\<rparr>))
      | None \<Rightarrow>
          let n = next_node info;
              slot = length (priorityWaitList info) + (if isPremium player then 0 else length (waitList info));
              entry = \<lparr>w_timeout = now + getTimeout (slot + 1) * 1000, playerGUID = guid player, w_node = n\<rparr>;
              info1 = info\<lparr>playerReferences := (playerReferences info)(guid player \<mapsto> (n, slot + 1)), next_node := n + 1\<rparr>
          in if isPremium player
             then Some (info1\<lparr>priorityWaitList := priorityWaitList info @ [entry]\<rparr>)
             else Some (info1\<lparr>waitList := waitList info @ [entry]\<rparr>))"

definition cleanup :: "nat \<Rightarrow> WaitListInfo \<Rightarrow> WaitListInfo" where
  "cleanup time info =
     (let (p, refs) = cleanupList time (priorityWaitList info) (playerReferences info);
          (w, refs') = cleanupList time (waitList info) refs
      in info\<lparr>priorityWaitList := p, waitList := w, playerReferences := refs'\<rparr>)"

text \<open>The node of an admitted client is removed from \<open>waitList\<close>, whichever list it is in.\<close>

definition clientLogin :: "nat \<Rightarrow> nat \<Rightarrow> nat \<Rightarrow> login \<Rightarrow> WaitListInfo \<Rightarrow> (bool \<times> WaitListInfo) option" where
  "clientLogin now online maxPlayers player info =
     (if canAlwaysLogin player then Some (True, info)
      else if maxPlayers = 0 \<or> priorityWaitList info = [] \<and> waitList info = [] \<and> online < maxPlayers then Some (True, info)
      else
        (case addPlayerToList now player (cleanup now info) of
           None \<Rightarrow> None
         | Some info2 \<Rightarrow>
             (case playerReferences info2 (guid player) of
                None \<Rightarrow> None
              | Some (n, slot) \<Rightarrow>
                  if online + slot \<le> maxPlayers then
                    (if n \<in> w_node ` set (waitList info2)
                     then Some (True, info2\<lparr>waitList := filter (\<lambda>w. w_node w \<noteq> n) (waitList info2),
                            playerReferences := (playerReferences info2)(guid player := None)\<rparr>)
                     else None)
                  else Some (False, info2))))"

definition getClientSlot :: "login \<Rightarrow> WaitListInfo \<Rightarrow> nat option" where
  "getClientSlot player info =
     (case playerReferences info (guid player) of
        None \<Rightarrow> Some 0
      | Some (n, slot) \<Rightarrow> slot_of (isPremium player) n info)"

section \<open>The invariant\<close>

text \<open>\<open>premium\<close> says who is premium; it does not change while somebody waits.\<close>

abbreviation entries :: "WaitListInfo \<Rightarrow> Wait list" where
  "entries info \<equiv> priorityWaitList info @ waitList info"

definition wl_inv :: "(nat \<Rightarrow> bool) \<Rightarrow> WaitListInfo \<Rightarrow> bool" where
  "wl_inv premium info \<longleftrightarrow>
     distinct (map w_node (entries info)) \<and> distinct (map playerGUID (entries info)) \<and>
     (\<forall>w \<in> set (entries info). w_node w < next_node info \<and> (\<exists>slot. playerReferences info (playerGUID w) = Some (w_node w, slot))) \<and>
     dom (playerReferences info) \<subseteq> playerGUID ` set (entries info) \<and>
     (\<forall>w \<in> set (priorityWaitList info). premium (playerGUID w)) \<and> (\<forall>w \<in> set (waitList info). \<not> premium (playerGUID w))"

lemma distinct_map_eq: "distinct (map f xs) \<Longrightarrow> x \<in> set xs \<Longrightarrow> y \<in> set xs \<Longrightarrow> f x = f y \<Longrightarrow> x = y"
  by (simp add: distinct_map inj_on_def)

lemma cleanupList_eq:
  "cleanupList time ws refs =
     (filter (\<lambda>w. time < w_timeout w) ws,
      \<lambda>g. if g \<in> playerGUID ` set (filter (\<lambda>w. w_timeout w \<le> time) ws) then None else refs g)"
  by (induction ws arbitrary: refs) (auto simp: fun_eq_iff)

lemma cleanup_eq:
  "cleanup time info = info\<lparr>priorityWaitList := filter (\<lambda>w. time < w_timeout w) (priorityWaitList info),
     waitList := filter (\<lambda>w. time < w_timeout w) (waitList info),
     playerReferences := (\<lambda>g. if g \<in> playerGUID ` set (filter (\<lambda>w. w_timeout w \<le> time) (entries info)) then None
       else playerReferences info g)\<rparr>"
  by (auto simp: cleanup_def cleanupList_eq fun_eq_iff intro!: arg_cong [where f = "\<lambda>r. info\<lparr>priorityWaitList := _, waitList := _, playerReferences := r\<rparr>"])

lemma wl_reference:
  "wl_inv premium info \<Longrightarrow> w \<in> set (entries info) \<Longrightarrow>
     w_node w < next_node info \<and> (\<exists>slot. playerReferences info (playerGUID w) = Some (w_node w, slot))"
  unfolding wl_inv_def by blast

lemma wl_entry:
  assumes "wl_inv premium info" and "playerReferences info g = Some (n, slot)"
  shows "\<exists>w \<in> set (entries info). playerGUID w = g \<and> w_node w = n"
proof -
  have "g \<in> playerGUID ` set (entries info)" using assms unfolding wl_inv_def by blast
  then obtain w where "w \<in> set (entries info)" "g = playerGUID w" by blast
  then show ?thesis using wl_reference [OF assms(1)] assms(2) by force
qed

lemma cleanup_inv: "wl_inv premium info \<Longrightarrow> wl_inv premium (cleanup time info)"
proof -
  assume inv: "wl_inv premium info"
  let ?es = "entries info" and ?info = "cleanup time info"
  have es: "entries ?info = filter (\<lambda>w. time < w_timeout w) ?es" by (simp add: cleanup_eq)
  have d: "distinct (map w_node ?es)" "distinct (map playerGUID ?es)" using inv by (simp_all add: wl_inv_def)
  have refs: "playerReferences ?info (playerGUID w) = playerReferences info (playerGUID w)" if "w \<in> set (entries ?info)" for w
  proof -
    have "playerGUID w \<notin> playerGUID ` set (filter (\<lambda>w. w_timeout w \<le> time) ?es)"
    proof
      assume "playerGUID w \<in> playerGUID ` set (filter (\<lambda>w. w_timeout w \<le> time) ?es)"
      then obtain v where v: "v \<in> set ?es" "w_timeout v \<le> time" "playerGUID w = playerGUID v" by auto
      moreover have "w \<in> set ?es" "time < w_timeout w" using that unfolding es by auto
      ultimately show False using distinct_map_eq [OF d(2)] by fastforce
    qed
    then show ?thesis by (simp add: cleanup_eq)
  qed
  have "dom (playerReferences ?info) \<subseteq> playerGUID ` set (entries ?info)"
  proof
    fix g assume "g \<in> dom (playerReferences ?info)"
    then have "g \<in> dom (playerReferences info)" "g \<notin> playerGUID ` set (filter (\<lambda>w. w_timeout w \<le> time) ?es)"
      by (auto simp: cleanup_eq dom_def split: if_splits)
    moreover from this(1) obtain w where "w \<in> set ?es" "playerGUID w = g" using wl_entry [OF inv] by force
    ultimately show "g \<in> playerGUID ` set (entries ?info)" unfolding es by (force simp: linorder_not_le)
  qed
  moreover have "distinct (map w_node (entries ?info))" "distinct (map playerGUID (entries ?info))"
    unfolding es using d by (simp_all add: distinct_map_filter del: map_append filter_append)
  moreover have "\<forall>w \<in> set (entries ?info). w_node w < next_node ?info \<and> (\<exists>slot. playerReferences ?info (playerGUID w) = Some (w_node w, slot))"
    using inv refs unfolding es by (auto simp: wl_inv_def cleanup_eq)
  moreover have "\<forall>w \<in> set (priorityWaitList ?info). premium (playerGUID w)" "\<forall>w \<in> set (waitList ?info). \<not> premium (playerGUID w)"
    using inv by (auto simp: wl_inv_def cleanup_eq)
  ultimately show ?thesis unfolding wl_inv_def by blast
qed

lemma node_index_Some: "n \<in> w_node ` set ws \<longleftrightarrow> (\<exists>i. node_index n ws = Some i)"
  by (induction ws) auto

lemma node_index_nth: "node_index n ws = Some i \<Longrightarrow> i < length ws \<and> w_node (ws ! i) = n"
  by (induction ws arbitrary: i) (auto split: if_splits)

lemma node_index_snoc: "n \<notin> w_node ` set ws \<Longrightarrow> node_index n (ws @ [w]) = (if w_node w = n then Some (length ws) else None)"
  by (induction ws) auto

lemma set_timeout_fields [simp]:
  "map w_node (set_timeout n t ws) = map w_node ws" "map playerGUID (set_timeout n t ws) = map playerGUID ws"
  "length (set_timeout n t ws) = length ws"
  by (auto simp: set_timeout_def)

lemma set_timeout_nodes [simp]:
  "w_node ` set (set_timeout n t ws) = w_node ` set ws" "playerGUID ` set (set_timeout n t ws) = playerGUID ` set ws"
  by (metis list.set_map set_timeout_fields)+

lemma node_index_timeout [simp]: "node_index m (set_timeout n t ws) = node_index m ws"
  by (induction ws) (auto simp: set_timeout_def)

lemma in_set_timeout: "v \<in> set (set_timeout n t ws) \<Longrightarrow> \<exists>w \<in> set ws. w_node v = w_node w \<and> playerGUID v = playerGUID w \<and>
    (w_timeout v = w_timeout w \<or> w_timeout v = t)"
  by (auto simp: set_timeout_def)

text \<open>Somebody who has a reference is in the list of his kind.\<close>

lemma reference_node:
  assumes "wl_inv premium info" and "playerReferences info g = Some (n, slot)"
  shows "n \<in> w_node ` set (if premium g then priorityWaitList info else waitList info)"
proof -
  obtain w where w: "w \<in> set (entries info)" "playerGUID w = g" "w_node w = n" using wl_entry [OF assms] by blast
  moreover have "w \<in> set (priorityWaitList info) \<Longrightarrow> premium g" "w \<in> set (waitList info) \<Longrightarrow> \<not> premium g"
    using assms(1) w(2) by (auto simp: wl_inv_def)
  ultimately show ?thesis by auto
qed

text \<open>The invariant for a new entry \<open>w\<close> and for a new slot of an old entry.\<close>

lemma wl_inv_new:
  assumes inv: "wl_inv premium info" and new: "playerReferences info (playerGUID w) = None"
    and node: "w_node w = next_node info"
    and lists: "priorityWaitList info' = priorityWaitList info @ (if premium (playerGUID w) then [w] else [])"
      "waitList info' = waitList info @ (if premium (playerGUID w) then [] else [w])"
    and refs: "playerReferences info' = (playerReferences info)(playerGUID w \<mapsto> (w_node w, slot))"
    and next_node': "next_node info' = next_node info + 1"
  shows "wl_inv premium info'"
proof -
  have set': "set (entries info') = insert w (set (entries info))" by (auto simp: lists)
  have fresh: "w_node w \<notin> w_node ` set (entries info)" "playerGUID w \<notin> playerGUID ` set (entries info)"
    using wl_reference [OF inv] new node by (force, force)
  have "mset (entries info') = mset (w # entries info)" by (simp add: lists)
  then have m: "mset (map f (entries info')) = mset (map f (w # entries info))" for f :: "Wait \<Rightarrow> nat" by (metis mset_map)
  have "distinct (map f (entries info')) \<longleftrightarrow> f w \<notin> f ` set (entries info) \<and> distinct (map f (entries info))" for f :: "Wait \<Rightarrow> nat"
    using mset_eq_imp_distinct_iff [OF m [of f]] by (simp only: list.map distinct.simps set_map)
  moreover have "\<exists>s. playerReferences info' (playerGUID v) = Some (w_node v, s)" if "v \<in> set (entries info')" for v
    using that new wl_reference [OF inv, of v] unfolding set' refs by auto
  moreover have "w_node v < next_node info'" if "v \<in> set (entries info')" for v
    using that wl_reference [OF inv, of v] unfolding set' by (auto simp: next_node' node)
  moreover have "dom (playerReferences info') \<subseteq> playerGUID ` set (entries info')"
    using inv unfolding set' refs wl_inv_def by auto
  moreover have "\<forall>v \<in> set (priorityWaitList info'). premium (playerGUID v)" "\<forall>v \<in> set (waitList info'). \<not> premium (playerGUID v)"
    using inv by (auto simp: wl_inv_def lists)
  ultimately show ?thesis using inv fresh unfolding wl_inv_def by blast
qed

lemma wl_inv_slot:
  assumes inv: "wl_inv premium info" and old: "playerReferences info g = Some (n, old)"
    and lists: "priorityWaitList info' = set_timeout n t (priorityWaitList info)" "waitList info' = set_timeout n t (waitList info)"
    and refs: "playerReferences info' = (playerReferences info)(g \<mapsto> (n, slot))"
    and next_node': "next_node info' = next_node info"
  shows "wl_inv premium info'"
proof -
  have maps: "map w_node (entries info') = map w_node (entries info)" "map playerGUID (entries info') = map playerGUID (entries info)"
    by (simp_all add: lists)
  have ex: "\<exists>w \<in> set (entries info). w_node v = w_node w \<and> playerGUID v = playerGUID w" if "v \<in> set (entries info')" for v
    using that in_set_timeout unfolding lists by fastforce
  have "w_node v < next_node info' \<and> (\<exists>s. playerReferences info' (playerGUID v) = Some (w_node v, s))" if v: "v \<in> set (entries info')" for v
  proof -
    obtain w where w: "w \<in> set (entries info)" "w_node v = w_node w" "playerGUID v = playerGUID w" using ex [OF v] by blast
    from wl_reference [OF inv w(1)] show ?thesis using old by (cases "playerGUID w = g") (auto simp: refs w next_node')
  qed
  moreover have "dom (playerReferences info') \<subseteq> playerGUID ` set (entries info')"
  proof -
    have "playerGUID ` set (entries info') = playerGUID ` set (entries info)" using maps(2) by (metis list.set_map)
    then show ?thesis using inv old unfolding refs wl_inv_def by auto
  qed
  moreover have "\<forall>v \<in> set (priorityWaitList info'). premium (playerGUID v)" "\<forall>v \<in> set (waitList info'). \<not> premium (playerGUID v)"
    using inv in_set_timeout unfolding lists wl_inv_def by fastforce+
  ultimately show ?thesis using inv unfolding wl_inv_def maps by blast
qed

lemma addPlayerToList_inv:
  assumes inv: "wl_inv premium info" and prem: "isPremium player = premium (guid player)"
  shows "\<exists>info' n slot. addPlayerToList now player info = Some info' \<and> wl_inv premium info' \<and>
    playerReferences info' (guid player) = Some (n, slot) \<and> slot_of (isPremium player) n info' = Some slot \<and>
    (\<forall>w \<in> set (entries info'). w_timeout w \<le> now + 135000 \<or> w \<in> set (entries info)) \<and>
    length (entries info') \<le> length (entries info) + 1 \<and>
    (playerReferences info (guid player) = None \<longrightarrow> slot = (if isPremium player then length (priorityWaitList info) else length (entries info)) + 1)"
proof -
  have bound: "now + getTimeout k * 1000 \<le> now + 135000" for k by (simp add: getTimeout_def getTime_def)
  show ?thesis
  proof (cases "playerReferences info (guid player)")
    case None
    let ?n = "next_node info"
    have fresh: "?n \<notin> w_node ` set (entries info)" using wl_reference [OF inv] by force
    then have fresh': "?n \<notin> w_node ` set (priorityWaitList info)" "?n \<notin> w_node ` set (waitList info)"
      by (simp_all add: image_Un)
    obtain info' where i: "addPlayerToList now player info = Some info'" using None by (cases "isPremium player") (simp_all add: addPlayerToList_def Let_def)
    let ?slot = "(if isPremium player then length (priorityWaitList info) else length (entries info)) + 1"
    have "wl_inv premium info'"
      by (rule wl_inv_new [OF inv, of "\<lparr>w_timeout = now + getTimeout ?slot * 1000, playerGUID = guid player, w_node = ?n\<rparr>" _ ?slot])
        (use None prem i in \<open>auto simp: addPlayerToList_def Let_def\<close>)
    moreover have "slot_of (isPremium player) ?n info' =
        Some ((if isPremium player then length (priorityWaitList info) else length (entries info)) + 1)"
      using i None by (cases "isPremium player") (auto simp: addPlayerToList_def Let_def slot_of_def node_index_snoc [OF fresh'(1)] node_index_snoc [OF fresh'(2)])
    moreover have "playerReferences info' (guid player) =
        Some (?n, (if isPremium player then length (priorityWaitList info) else length (entries info)) + 1)"
      using i None by (cases "isPremium player") (auto simp: addPlayerToList_def Let_def)
    moreover have "\<forall>w \<in> set (entries info'). w_timeout w \<le> now + 135000 \<or> w \<in> set (entries info)"
      "length (entries info') \<le> length (entries info) + 1"
      using i None bound by (cases "isPremium player"; auto simp: addPlayerToList_def Let_def)+
    ultimately show ?thesis using i by blast
  next
    case (Some r)
    obtain n old where r: "r = (n, old)" by fastforce
    have node: "n \<in> w_node ` set (if premium (guid player) then priorityWaitList info else waitList info)"
      using reference_node [OF inv] Some r by blast
    then obtain slot where slot: "slot_of (isPremium player) n info = Some slot"
      using prem by (auto simp: slot_of_def node_index_Some split: if_splits)
    let ?t = "now + getTimeout slot * 1000"
    let ?info = "info\<lparr>playerReferences := (playerReferences info)(guid player \<mapsto> (n, slot)),
      priorityWaitList := set_timeout n ?t (priorityWaitList info), waitList := set_timeout n ?t (waitList info)\<rparr>"
    have add: "addPlayerToList now player info = Some ?info"
      using Some r slot by (simp add: addPlayerToList_def Let_def)
    have "wl_inv premium ?info"
      by (rule wl_inv_slot [OF inv, of "guid player" n old _ ?t slot]) (use Some r in simp_all)
    moreover have "slot_of (isPremium player) n ?info = Some slot" using slot by (simp add: slot_of_def split: if_splits)
    moreover have "\<forall>w \<in> set (entries ?info). w_timeout w \<le> now + 135000 \<or> w \<in> set (entries info)"
      using bound by (auto simp: set_timeout_def)
    ultimately show ?thesis using add Some by (intro exI [of _ ?info]) auto
  qed
qed

section \<open>Logging in\<close>

text \<open>A login that goes through the lists.\<close>

definition queues :: "nat \<Rightarrow> nat \<Rightarrow> login \<Rightarrow> WaitListInfo \<Rightarrow> bool" where
  "queues online maxPlayers player info \<longleftrightarrow> \<not> canAlwaysLogin player \<and> maxPlayers \<noteq> 0 \<and>
     (entries info \<noteq> [] \<or> maxPlayers \<le> online)"

lemma clientLogin_direct: "\<not> queues online maxPlayers player info \<Longrightarrow> clientLogin now online maxPlayers player info = Some (True, info)"
  by (auto simp: queues_def clientLogin_def)

lemma remove_inv:
  assumes inv: "wl_inv premium info" and ref: "playerReferences info g = Some (n, slot)" and free: "\<not> premium g"
  shows "wl_inv premium (info\<lparr>waitList := filter (\<lambda>w. w_node w \<noteq> n) (waitList info),
      playerReferences := (playerReferences info)(g := None)\<rparr>)" (is "wl_inv premium ?info")
proof -
  obtain w where w: "w \<in> set (entries info)" "playerGUID w = g" "w_node w = n" using wl_entry [OF inv ref] by blast
  have d: "distinct (map w_node (entries info))" "distinct (map playerGUID (entries info))"
    using inv unfolding wl_inv_def by blast+
  have prio: "\<forall>v \<in> set (priorityWaitList info). w_node v \<noteq> n"
  proof
    fix v assume v: "v \<in> set (priorityWaitList info)"
    then have "premium (playerGUID v)" using inv by (simp add: wl_inv_def)
    then show "w_node v \<noteq> n" using distinct_map_eq [OF d(1), of v w] v w free by auto
  qed
  then have es: "entries ?info = filter (\<lambda>v. w_node v \<noteq> n) (entries info)" by simp
  have mem: "v \<in> set (entries ?info) \<longleftrightarrow> v \<in> set (entries info) \<and> playerGUID v \<noteq> g" for v
    unfolding es using distinct_map_eq [OF d(1), of v w] distinct_map_eq [OF d(2), of v w] w by auto
  have "\<forall>v \<in> set (entries ?info). w_node v < next_node ?info \<and> (\<exists>s. playerReferences ?info (playerGUID v) = Some (w_node v, s))"
  proof
    fix v assume "v \<in> set (entries ?info)"
    then have v: "v \<in> set (entries info)" "playerGUID v \<noteq> g" using mem by blast+
    from wl_reference [OF inv v(1)] v(2) show "w_node v < next_node ?info \<and> (\<exists>s. playerReferences ?info (playerGUID v) = Some (w_node v, s))"
      by simp
  qed
  moreover have "dom (playerReferences ?info) \<subseteq> playerGUID ` set (entries ?info)"
  proof
    fix h assume "h \<in> dom (playerReferences ?info)"
    then obtain m s where h: "playerReferences info h = Some (m, s)" "h \<noteq> g" by (auto split: if_splits)
    obtain v where "v \<in> set (entries info)" "playerGUID v = h" using wl_entry [OF inv h(1)] by blast
    then show "h \<in> playerGUID ` set (entries ?info)" using mem h(2) by blast
  qed
  moreover have "distinct (map w_node (entries ?info))" "distinct (map playerGUID (entries ?info))"
    unfolding es using d by (blast intro: distinct_map_filter)+
  moreover have "\<forall>v \<in> set (priorityWaitList ?info). premium (playerGUID v)" "\<forall>v \<in> set (waitList ?info). \<not> premium (playerGUID v)"
    using inv by (simp_all add: wl_inv_def)
  ultimately show ?thesis unfolding wl_inv_def by blast
qed

lemma clientLogin_queued:
  assumes inv: "wl_inv premium info" and prem: "isPremium player = premium (guid player)"
    and q: "queues online maxPlayers player info"
  obtains info2 n slot where "addPlayerToList now player (cleanup now info) = Some info2"
    and "wl_inv premium info2" and "playerReferences info2 (guid player) = Some (n, slot)"
    and "slot_of (isPremium player) n info2 = Some slot"
    and "\<forall>w \<in> set (entries info2). w_timeout w \<le> now + 135000 \<or> w \<in> set (entries info)"
    and "clientLogin now online maxPlayers player info =
      (if online + slot \<le> maxPlayers then
         (if isPremium player then None
          else Some (True, info2\<lparr>waitList := filter (\<lambda>w. w_node w \<noteq> n) (waitList info2),
             playerReferences := (playerReferences info2)(guid player := None)\<rparr>))
       else Some (False, info2))"
    and "playerReferences (cleanup now info) (guid player) = None \<Longrightarrow>
      slot = (if isPremium player then length (priorityWaitList (cleanup now info)) else length (entries (cleanup now info))) + 1"
proof -
  note inv1 = cleanup_inv [OF inv, of now]
  from addPlayerToList_inv [OF inv1 prem, of now] obtain info2 n slot where a:
    "addPlayerToList now player (cleanup now info) = Some info2" "wl_inv premium info2"
    "playerReferences info2 (guid player) = Some (n, slot)" "slot_of (isPremium player) n info2 = Some slot"
    "\<forall>w \<in> set (entries info2). w_timeout w \<le> now + 135000 \<or> w \<in> set (entries (cleanup now info))"
    "playerReferences (cleanup now info) (guid player) = None \<longrightarrow>
      slot = (if isPremium player then length (priorityWaitList (cleanup now info)) else length (entries (cleanup now info))) + 1" by (elim exE conjE) (rule that)
  have "n \<in> w_node ` set (waitList info2) \<longleftrightarrow> \<not> isPremium player"
  proof
    assume "n \<in> w_node ` set (waitList info2)"
    then obtain v where v: "v \<in> set (waitList info2)" "w_node v = n" by blast
    obtain w where w: "w \<in> set (entries info2)" "playerGUID w = guid player" "w_node w = n" using wl_entry [OF a(2,3)] by blast
    have "distinct (map w_node (entries info2))" using a(2) by (simp only: wl_inv_def)
    from distinct_map_eq [OF this, of v w] v w have "w \<in> set (waitList info2)" by simp
    then show "\<not> isPremium player" using a(2) w(2) prem by (auto simp: wl_inv_def)
  next
    assume "\<not> isPremium player"
    then show "n \<in> w_node ` set (waitList info2)" using reference_node [OF a(2,3)] prem by simp
  qed
  then have login: "clientLogin now online maxPlayers player info =
      (if online + slot \<le> maxPlayers then
         (if isPremium player then None
          else Some (True, info2\<lparr>waitList := filter (\<lambda>w. w_node w \<noteq> n) (waitList info2),
             playerReferences := (playerReferences info2)(guid player := None)\<rparr>))
       else Some (False, info2))"
    using q a(1,3) by (auto simp: clientLogin_def queues_def)
  have "\<forall>w \<in> set (entries info2). w_timeout w \<le> now + 135000 \<or> w \<in> set (entries info)"
    using a(5) by (auto simp: cleanup_eq)
  from that [OF a(1-4) this login] a(6) show thesis by simp
qed

section \<open>Runs\<close>

fun logins :: "nat \<Rightarrow> (nat \<times> nat \<times> login) list \<Rightarrow> WaitListInfo \<Rightarrow> WaitListInfo option" where
  "logins maxPlayers [] info = Some info"
| "logins maxPlayers ((now, online, player) # es) info =
     Option.bind (clientLogin now online maxPlayers player info) (\<lambda>(ok, info'). logins maxPlayers es info')"

lemma login_step:
  assumes inv: "wl_inv premium info" and prem: "isPremium player = premium (guid player)" and free: "\<not> isPremium player"
    and bound: "\<forall>w \<in> set (entries info). w_timeout w \<le> t0 + 135000" and "now \<le> t0"
  shows "\<exists>ok info'. clientLogin now online maxPlayers player info = Some (ok, info') \<and> wl_inv premium info' \<and>
    (\<forall>w \<in> set (entries info'). w_timeout w \<le> t0 + 135000)"
proof (cases "queues online maxPlayers player info")
  case True
  from clientLogin_queued [OF inv prem True, of now] obtain info2 n slot where c: "wl_inv premium info2"
    "playerReferences info2 (guid player) = Some (n, slot)"
    "\<forall>w \<in> set (entries info2). w_timeout w \<le> now + 135000 \<or> w \<in> set (entries info)"
    "clientLogin now online maxPlayers player info =
      (if online + slot \<le> maxPlayers then
         (if isPremium player then None
          else Some (True, info2\<lparr>waitList := filter (\<lambda>w. w_node w \<noteq> n) (waitList info2),
             playerReferences := (playerReferences info2)(guid player := None)\<rparr>))
       else Some (False, info2))" by metis
  have b: "\<forall>w \<in> set (entries info2). w_timeout w \<le> t0 + 135000" using c(3) bound assms(5) by fastforce
  have "\<not> premium (guid player)" using prem free by simp
  from remove_inv [OF c(1,2) this] c b free show ?thesis by auto
qed (use assms in \<open>auto simp: clientLogin_direct\<close>)

lemma logins_safe:
  assumes "wl_inv premium info" and "\<forall>w \<in> set (entries info). w_timeout w \<le> t0 + 135000"
    and "\<forall>(now, online, player) \<in> set es. now \<le> t0 \<and> \<not> isPremium player \<and> \<not> premium (guid player)"
  shows "\<exists>info'. logins maxPlayers es info = Some info' \<and> wl_inv premium info' \<and> (\<forall>w \<in> set (entries info'). w_timeout w \<le> t0 + 135000)"
  using assms
proof (induction es arbitrary: info)
  case (Cons e es)
  obtain now online player where e: "e = (now, online, player)" by (cases e) auto
  have p: "now \<le> t0" "\<not> isPremium player" "\<not> premium (guid player)" using Cons.prems(3) e by auto
  obtain ok info' where "clientLogin now online maxPlayers player info = Some (ok, info')" "wl_inv premium info'"
    "\<forall>w \<in> set (entries info'). w_timeout w \<le> t0 + 135000"
    using login_step [OF Cons.prems(1) _ p(2) Cons.prems(2) p(1)] p by blast
  then show ?case using Cons.IH [of info'] Cons.prems(3) e by auto
qed auto

lemma node_index_append: "n \<notin> w_node ` set us \<Longrightarrow> node_index n (us @ w # vs) = (if w_node w = n then Some (length us) else
    map_option (\<lambda>i. length us + 1 + i) (node_index n vs))"
  by (induction us; cases "node_index n vs") (auto simp: option.map_comp comp_def)

lemma waiting_slot:
  assumes inv: "wl_inv premium info" and wait: "waitList (cleanup now info) = us @ w # vs"
    and player: "guid player = playerGUID w" "\<not> isPremium player" "\<not> canAlwaysLogin player" and "maxPlayers \<noteq> 0"
  shows "\<exists>info'. clientLogin now online maxPlayers player info =
    Some (online + (length (priorityWaitList (cleanup now info)) + length us + 1) \<le> maxPlayers, info')"
proof -
  let ?c = "cleanup now info"
  note inv1 = cleanup_inv [OF inv, of now]
  have w: "w \<in> set (waitList ?c)" by (simp add: wait)
  then obtain s where ref: "playerReferences ?c (guid player) = Some (w_node w, s)"
    using wl_reference [OF inv1, of w] player(1) by auto
  have "w \<in> set (waitList info)" using w by (simp add: cleanup_eq)
  then have q: "queues online maxPlayers player info" using assms(5,6) by (auto simp: queues_def)
  have "distinct (map w_node (waitList ?c))" using inv1 by (auto simp: wl_inv_def)
  then have "node_index (w_node w) (waitList ?c) = Some (length us)" by (simp add: wait node_index_append image_iff)
  then have "slot_of False (w_node w) ?c = Some (length (priorityWaitList ?c) + length us + 1)" by (simp add: slot_of_def)
  then obtain info2 where "addPlayerToList now player ?c = Some info2"
    "playerReferences info2 (guid player) = Some (w_node w, length (priorityWaitList ?c) + length us + 1)"
    "w_node ` set (waitList info2) = w_node ` set (waitList ?c)"
    using ref player(2) by (auto simp: addPlayerToList_def Let_def)
  then show ?thesis using q w by (auto simp: clientLogin_def queues_def)
qed

section \<open>Properties\<close>

text \<open>C18: Whatever the logins, the waiting list stays consistent and nothing undefined happens as long as only
  free accounts wait; and nobody waits behind clients who gave up: if for 135 seconds no other login
  was tried and a place is free, the next client is let in.\<close>

theorem waiting_ends:
  assumes "\<forall>(time, online, player) \<in> set es. time \<le> t0 \<and> \<not> isPremium player"
    and "t0 + 135000 \<le> now" and "online < maxPlayers" and "\<not> isPremium player"
  shows "\<exists>info. logins maxPlayers es new_waitlist = Some info \<and> wl_inv (\<lambda>_. False) info \<and>
    (\<exists>info'. clientLogin now online maxPlayers player info = Some (True, info'))"
proof -
  have "wl_inv (\<lambda>_. False) new_waitlist" by (simp add: wl_inv_def new_waitlist_def)
  moreover have "\<forall>w \<in> set (entries new_waitlist). w_timeout w \<le> t0 + 135000" by (simp add: new_waitlist_def)
  ultimately obtain info where i: "logins maxPlayers es new_waitlist = Some info" "wl_inv (\<lambda>_. False) info"
    "\<forall>w \<in> set (entries info). w_timeout w \<le> t0 + 135000"
    using logins_safe [of "\<lambda>_. False" new_waitlist t0 es maxPlayers] assms(1) by fastforce
  have "\<exists>info'. clientLogin now online maxPlayers player info = Some (True, info')"
  proof (cases "queues online maxPlayers player info")
    case True
    have "\<forall>w \<in> set (entries info). \<not> now < w_timeout w" using i(3) assms(2) by (fastforce simp: not_less)
    then have none: "entries (cleanup now info) = []" by (simp add: cleanup_eq filter_empty_conv)
    have "isPremium player = (\<lambda>_. False) (guid player)" using assms(4) by simp
    moreover have "playerReferences (cleanup now info) (guid player) = None"
      using wl_entry [OF cleanup_inv [OF i(2)], of now "guid player"] none
      by (cases "playerReferences (cleanup now info) (guid player)") auto
    ultimately have p: "isPremium player = (\<lambda>_. False) (guid player)" and r: "playerReferences (cleanup now info) (guid player) = None" .
    obtain info2 n slot where "clientLogin now online maxPlayers player info =
      (if online + slot \<le> maxPlayers then
         (if isPremium player then None
          else Some (True, info2\<lparr>waitList := filter (\<lambda>w. w_node w \<noteq> n) (waitList info2),
             playerReferences := (playerReferences info2)(guid player := None)\<rparr>))
       else Some (False, info2))" and "slot = 1"
      by (rule clientLogin_queued [OF i(2) p True, of now], rule that, assumption) (use none assms(4) r in simp)
    then show ?thesis using assms(3,4) by simp
  qed (simp add: clientLogin_direct)
  then show ?thesis using i(1,2) by blast
qed

definition free_client :: "nat \<Rightarrow> login" where
  "free_client g = \<lparr>guid = g, isPremium = False, canAlwaysLogin = False\<rparr>"

theorem waiting_ends_witness:
  "\<exists>info. logins 10 [(0, 10, free_client 1), (5, 10, free_client 2)] new_waitlist = Some info \<and>
    (\<exists>info'. clientLogin 200000 9 10 (free_client 3) info = Some (True, info'))"
  using waiting_ends [of "[(0, 10, free_client 1), (5, 10, free_client 2)]" 5 200000 9 10 "free_client 3"]
  by (auto simp: free_client_def)

text \<open>C19: Nobody is overtaken in the queue: if a client is let in, a client before him in the list whose entry has
  not expired would have been let in as well.\<close>

theorem no_overtaking:
  assumes "wl_inv premium info" and "waitList info = us @ p # vs @ q # ws"
    and "now < w_timeout p" and "now < w_timeout q" and "maxPlayers \<noteq> 0"
    and "clientLogin now online maxPlayers \<lparr>guid = playerGUID q, isPremium = False, canAlwaysLogin = False\<rparr> info = Some (True, info1)"
  shows "\<exists>info2. clientLogin now online maxPlayers \<lparr>guid = playerGUID p, isPremium = False, canAlwaysLogin = False\<rparr> info = Some (True, info2)"
proof -
  let ?f = "filter (\<lambda>w. now < w_timeout w)"
  have p: "waitList (cleanup now info) = ?f us @ p # (?f vs @ q # ?f ws)" using assms(2-4) by (simp add: cleanup_eq)
  then have q: "waitList (cleanup now info) = (?f us @ p # ?f vs) @ q # ?f ws" by simp
  note slots = waiting_slot [OF assms(1) p] waiting_slot [OF assms(1) q]
  show ?thesis
    using slots(1) [of "\<lparr>guid = playerGUID p, isPremium = False, canAlwaysLogin = False\<rparr>" maxPlayers online]
      slots(2) [of "\<lparr>guid = playerGUID q, isPremium = False, canAlwaysLogin = False\<rparr>" maxPlayers online] assms(5,6)
    by auto
qed

definition two_waiting :: WaitListInfo where
  "two_waiting = \<lparr>priorityWaitList = [], waitList = [\<lparr>w_timeout = 100, playerGUID = 1, w_node = 0\<rparr>, \<lparr>w_timeout = 100, playerGUID = 2, w_node = 1\<rparr>],
     playerReferences = [1 \<mapsto> (0, 1), 2 \<mapsto> (1, 2)], next_node = 2\<rparr>"

theorem no_overtaking_witness:
  "\<exists>info2. clientLogin 50 8 10 \<lparr>guid = 1, isPremium = False, canAlwaysLogin = False\<rparr> two_waiting = Some (True, info2)"
proof -
  have "wl_inv (\<lambda>_. False) two_waiting" by (auto simp: wl_inv_def two_waiting_def)
  moreover have "\<exists>info1. clientLogin 50 8 10 \<lparr>guid = 2, isPremium = False, canAlwaysLogin = False\<rparr> two_waiting = Some (True, info1)"
    by (simp add: clientLogin_def two_waiting_def cleanup_def addPlayerToList_def slot_of_def set_timeout_def Let_def)
  ultimately show ?thesis
    using no_overtaking [of "\<lambda>_. False" two_waiting "[]" "\<lparr>w_timeout = 100, playerGUID = 1, w_node = 0\<rparr>" "[]"
        "\<lparr>w_timeout = 100, playerGUID = 2, w_node = 1\<rparr>" "[]" 50 10 8]
    by (auto simp: two_waiting_def)
qed

text \<open>The defect of the priority queue: a premium client whose turn has come is removed from \<open>waitList\<close>, a list
  he is not in, which is undefined behaviour; it happens to every premium client let in through the
  queue.\<close>

theorem premium_admission_undefined:
  assumes "wl_inv premium info" and "isPremium player" and "premium (guid player)"
    and "queues online maxPlayers player info" and "online + length (priorityWaitList info) < maxPlayers"
  shows "clientLogin now online maxPlayers player info = None"
proof -
  have "isPremium player = premium (guid player)" using assms(2,3) by simp
  from clientLogin_queued [OF assms(1) this assms(4), of now] obtain info2 n slot where c:
    "slot_of (isPremium player) n info2 = Some slot" "addPlayerToList now player (cleanup now info) = Some info2"
    "clientLogin now online maxPlayers player info =
      (if online + slot \<le> maxPlayers then
         (if isPremium player then None
          else Some (True, info2\<lparr>waitList := filter (\<lambda>w. w_node w \<noteq> n) (waitList info2),
             playerReferences := (playerReferences info2)(guid player := None)\<rparr>))
       else Some (False, info2))" by metis
  have "length (priorityWaitList info2) \<le> length (priorityWaitList (cleanup now info)) + 1"
    using c(2) by (auto simp: addPlayerToList_def Let_def split: option.splits if_splits)
  also have "\<dots> \<le> length (priorityWaitList info) + 1" by (simp add: cleanup_eq)
  finally have "slot \<le> length (priorityWaitList info) + 1"
    using c(1) assms(2) node_index_nth [of n "priorityWaitList info2"] by (fastforce simp: slot_of_def)
  then show ?thesis using c(3) assms(2,5) by simp
qed

theorem premium_admission_undefined_witness:
  "clientLogin 50 8 10 \<lparr>guid = 3, isPremium = True, canAlwaysLogin = False\<rparr> two_waiting = None"
proof -
  have "wl_inv (\<lambda>g. g = 3) two_waiting" by (auto simp: wl_inv_def two_waiting_def)
  then show ?thesis
    using premium_admission_undefined [of "\<lambda>g. g = 3" two_waiting "\<lparr>guid = 3, isPremium = True, canAlwaysLogin = False\<rparr>" 8 10 50]
    by (simp add: queues_def two_waiting_def)
qed

end
