(* ===== verification/AStar_Nodes.thy ===== *)
theory AStar_Nodes
  imports Geometry
begin

text \<open>
  The node store of the path finder, \<^verbatim>\<open>src/map/utils/astarnodes.cpp\<close>.  The array \<open>nodes\<close> with the count
  \<open>curNode\<close> is a list of that length, pointers into it are indices; \<open>openNodes\<close> and \<open>calculatedNodes\<close> are
  arrays of the full size.  The code picks the search for the best node at compile time: a scalar loop,
  or one for 4, 8 or 16 lanes of a vector register.  Both are modelled, the vector ones as
  one definition with the number of lanes; the array \<open>calculatedNodes\<close> only they read is kept in every case.
  Costs are \<^verbatim>\<open>int_fast32_t\<close>, unbounded here; where the code narrows them to 32 bits, so does the model,
  and the invariant shows that nothing is lost.
\<close>

section \<open>Nodes and their operations\<close>

record AStarNode =
  parent :: "nat option"
  node_f :: int
  node_g :: int
  node_c :: int
  node_x :: u16
  node_y :: u16

record AStarNodes =
  nodes :: "AStarNode list"
  nodesTable :: "u32 list"
  calculatedNodes :: "nat \<Rightarrow> int"
  closedNodes :: int
  openNodes :: "nat \<Rightarrow> bool"

definition MAX_NODES :: nat where "MAX_NODES = 512"
definition MAP_NORMALWALKCOST :: int where "MAP_NORMALWALKCOST = 10"
definition MAP_DIAGONALWALKCOST :: int where "MAP_DIAGONALWALKCOST = 25"

definition int32_max :: int where "int32_max = 2147483647"

definition table_key :: "u16 \<Rightarrow> u16 \<Rightarrow> u32" where
  "table_key x y = push_bit 16 (ucast x) OR ucast y"

definition new_nodes :: "u16 \<Rightarrow> u16 \<Rightarrow> int \<Rightarrow> AStarNodes" where
  "new_nodes x y extraCost =
     \<lparr>nodes = [\<lparr>parent = None, node_f = 0, node_g = 0, node_c = extraCost, node_x = x, node_y = y\<rparr>],
      nodesTable = [table_key x y], calculatedNodes = (\<lambda>_. int32_max)(0 := 0), closedNodes = 0,
      openNodes = (\<lambda>_. False)(0 := True)\<rparr>"

definition createOpenNode :: "nat \<Rightarrow> u16 \<Rightarrow> u16 \<Rightarrow> int \<Rightarrow> int \<Rightarrow> int \<Rightarrow> AStarNodes \<Rightarrow> AStarNodes option" where
  "createOpenNode par x y f heuristic extraCost s =
     (if length (nodes s) \<ge> MAX_NODES then None
      else
        let retNode = length (nodes s) in
        Some (s\<lparr>nodes := nodes s @ [\<lparr>parent = Some par, node_f = f, node_g = heuristic, node_c = extraCost,
                node_x = x, node_y = y\<rparr>],
             nodesTable := nodesTable s @ [table_key x y],
             calculatedNodes := (calculatedNodes s)(retNode := int32 (f + heuristic)),
             openNodes := (openNodes s)(retNode := True)\<rparr>))"

definition total_cost :: "AStarNode \<Rightarrow> int" where
  "total_cost n = int32 (node_f n + node_g n)"

fun best_scan :: "AStarNodes \<Rightarrow> nat list \<Rightarrow> int \<times> nat option \<Rightarrow> int \<times> nat option" where
  "best_scan s [] b = b"
| "best_scan s (i # is) (best_f, best) =
     (if \<not> openNodes s i then best_scan s is (best_f, best)
      else if total_cost (nodes s ! i) < best_f then best_scan s is (total_cost (nodes s ! i), Some i)
      else best_scan s is (best_f, best))"

definition getBestNode_scalar :: "AStarNodes \<Rightarrow> nat option" where
  "getBestNode_scalar s = snd (best_scan s [0..<length (nodes s)] (int32_max, None))"

text \<open>One lane looks at every \<open>lanes\<close>-th entry; the first lane with the least value wins.\<close>

definition lane_min :: "nat \<Rightarrow> AStarNodes \<Rightarrow> nat \<Rightarrow> int \<times> nat" where
  "lane_min lanes s l =
     foldl (\<lambda>(v, i) p. if calculatedNodes s (p + l) < v then (calculatedNodes s (p + l), p + l) else (v, i))
       (calculatedNodes s l, l) (map (\<lambda>k. k * lanes) [1..<(length (nodes s) + lanes - 1) div lanes])"

definition getBestNode_simd :: "nat \<Rightarrow> AStarNodes \<Rightarrow> nat option" where
  "getBestNode_simd lanes s =
     (let (v, best) = foldl (\<lambda>(v, i) l. if fst (lane_min lanes s l) < v then lane_min lanes s l else (v, i))
            (lane_min lanes s 0) [1..<lanes]
      in if openNodes s best then Some best else None)"

definition closeNode :: "nat \<Rightarrow> AStarNodes \<Rightarrow> AStarNodes" where
  "closeNode i s = s\<lparr>calculatedNodes := (calculatedNodes s)(i := int32_max), openNodes := (openNodes s)(i := False),
     closedNodes := closedNodes s + 1\<rparr>"

definition openNode :: "nat \<Rightarrow> AStarNodes \<Rightarrow> AStarNodes" where
  "openNode i s = s\<lparr>calculatedNodes := (calculatedNodes s)(i := total_cost (nodes s ! i)),
     closedNodes := closedNodes s - (if openNodes s i then 0 else 1), openNodes := (openNodes s)(i := True)\<rparr>"

text \<open>The search by position: from 1, with 0 last; or block by block (the first index of the first block that
  holds the key).\<close>

fun first_index :: "u32 \<Rightarrow> u32 list \<Rightarrow> nat option" where
  "first_index key [] = None"
| "first_index key (k # ks) = (if k = key then Some 0 else map_option Suc (first_index key ks))"

definition getNodeByPosition_scalar :: "u16 \<Rightarrow> u16 \<Rightarrow> AStarNodes \<Rightarrow> nat option" where
  "getNodeByPosition_scalar x y s =
     (case first_index (table_key x y) (tl (nodesTable s)) of
        Some i \<Rightarrow> Some (i + 1)
      | None \<Rightarrow> if hd (nodesTable s) = table_key x y then Some 0 else None)"

function search_blocks :: "u32 \<Rightarrow> nat \<Rightarrow> u32 list \<Rightarrow> nat option" where
  "search_blocks key pos table =
     (if pos + 16 \<le> length table then
        (case first_index key (take 16 (drop pos table)) of
           Some i \<Rightarrow> Some (pos + i) | None \<Rightarrow> search_blocks key (pos + 16) table)
      else if pos + 8 \<le> length table then
        (case first_index key (take 8 (drop pos table)) of
           Some i \<Rightarrow> Some (pos + i) | None \<Rightarrow> map_option (\<lambda>i. pos + 8 + i) (first_index key (drop (pos + 8) table)))
      else map_option (\<lambda>i. pos + i) (first_index key (drop pos table)))"
  by pat_completeness auto
termination
  by (relation "measure (\<lambda>(key, pos, table). length table - pos)") auto

declare search_blocks.simps [simp del]

definition getNodeByPosition_simd :: "u16 \<Rightarrow> u16 \<Rightarrow> AStarNodes \<Rightarrow> nat option" where
  "getNodeByPosition_simd x y s = search_blocks (table_key x y) 0 (nodesTable s)"

definition getMapWalkCost :: "AStarNode \<Rightarrow> Position \<Rightarrow> int" where
  "getMapWalkCost n p =
     (\<bar>uint (node_x n) - getX p\<bar> + \<bar>uint (node_y n) - getY p\<bar> - 1) * MAP_DIAGONALWALKCOST + MAP_NORMALWALKCOST"

section \<open>Finding a position\<close>

lemma table_key_fields: "x = ucast (drop_bit 16 (table_key x y))" "y = ucast (table_key x y)"
  by (rule bit_word_eqI, auto simp: table_key_def bit_simps dest: bit_imp_le_length)+

lemma table_key_inj: "table_key x y = table_key x' y' \<longleftrightarrow> x = x' \<and> y = y'"
  using table_key_fields [where x = x and y = y] table_key_fields [where x = x' and y = y'] by metis

lemma first_index_Some: "first_index key ks = Some i \<Longrightarrow> i < length ks \<and> ks ! i = key"
  by (induction ks arbitrary: i) (auto split: if_splits)

lemma first_index_None: "first_index key ks = None \<longleftrightarrow> key \<notin> set ks"
  by (induction ks) auto

lemma first_index_append:
  "first_index key (xs @ ys) = (case first_index key xs of Some i \<Rightarrow> Some i | None \<Rightarrow> map_option (\<lambda>i. length xs + i) (first_index key ys))"
  by (induction xs; cases "first_index key ys") (auto split: option.splits)

lemma first_index_drop:
  assumes "pos + n \<le> length table"
  shows "map_option (\<lambda>i. pos + i) (first_index key (drop pos table)) =
    (case first_index key (take n (drop pos table)) of Some i \<Rightarrow> Some (pos + i)
     | None \<Rightarrow> map_option (\<lambda>i. pos + n + i) (first_index key (drop (pos + n) table)))"
proof -
  have "drop pos table = take n (drop pos table) @ drop (pos + n) table"
    by (simp add: add.commute flip: drop_drop)
  then have "first_index key (drop pos table) = first_index key (take n (drop pos table) @ drop (pos + n) table)" by simp
  then show ?thesis using assms
    by (simp add: first_index_append option.map_comp comp_def add.assoc min_def split: option.splits)
qed

lemma search_blocks_eq: "search_blocks key pos table = map_option (\<lambda>i. pos + i) (first_index key (drop pos table))"
proof (induction key pos table rule: search_blocks.induct)
  case (1 key pos table)
  show ?case
    using 1 first_index_drop [of pos 16 table key] first_index_drop [of pos 8 table key]
    by (subst search_blocks.simps) (auto split: option.splits)
qed

text \<open>The positions of the nodes are distinct, and the table holds their keys.\<close>

definition table_ok :: "AStarNodes \<Rightarrow> bool" where
  "table_ok s \<longleftrightarrow> nodes s \<noteq> [] \<and> nodesTable s = map (\<lambda>n. table_key (node_x n) (node_y n)) (nodes s) \<and> distinct (nodesTable s)"

lemma table_nth: "table_ok s \<Longrightarrow> i < length (nodes s) \<Longrightarrow> nodesTable s ! i = table_key (node_x (nodes s ! i)) (node_y (nodes s ! i))"
  by (simp add: table_ok_def)

lemma table_nth_inj:
  assumes "table_ok s" and "i < length (nodes s)" "j < length (nodes s)" and "nodesTable s ! i = nodesTable s ! j"
  shows "i = j"
proof -
  have "length (nodesTable s) = length (nodes s)" "distinct (nodesTable s)" using assms(1) by (auto simp: table_ok_def)
  then show ?thesis using assms(2-4) by (simp add: nth_eq_iff_index_eq)
qed

text \<open>What the path finder expects of a search by position.\<close>

locale position_search =
  fixes look :: "u16 \<Rightarrow> u16 \<Rightarrow> AStarNodes \<Rightarrow> nat option"
  assumes look_Some: "table_ok s \<Longrightarrow> look x y s = Some i \<Longrightarrow>
      i < length (nodes s) \<and> node_x (nodes s ! i) = x \<and> node_y (nodes s ! i) = y"
    and look_None: "table_ok s \<Longrightarrow> look x y s = None \<Longrightarrow> table_key x y \<notin> set (nodesTable s)"
begin

lemma look_unique:
  assumes "table_ok s" and "i < length (nodes s)"
  shows "look (node_x (nodes s ! i)) (node_y (nodes s ! i)) s = Some i"
proof (cases "look (node_x (nodes s ! i)) (node_y (nodes s ! i)) s")
  case None
  from look_None [OF assms(1) this] assms show ?thesis by (auto simp: table_ok_def)
next
  case (Some j)
  from look_Some [OF assms(1) this] have j: "j < length (nodes s)"
    "nodesTable s ! j = nodesTable s ! i" using assms by (auto simp: table_nth)
  from table_nth_inj [OF assms(1) j(1) assms(2) j(2)] have "j = i" .
  then show ?thesis using Some by simp
qed

end

lemma first_index_node:
  "table_ok s \<Longrightarrow> first_index (table_key x y) (nodesTable s) = Some i \<Longrightarrow>
    i < length (nodes s) \<and> node_x (nodes s ! i) = x \<and> node_y (nodes s ! i) = y"
  by (drule first_index_Some) (auto simp: table_ok_def table_key_inj)

interpretation scalar_search: position_search getNodeByPosition_scalar
proof
  fix s x y i
  assume t: "table_ok s" and r: "getNodeByPosition_scalar x y s = Some i"
  have ne: "nodesTable s \<noteq> []" using t by (auto simp: table_ok_def)
  have "i < length (nodesTable s) \<and> nodesTable s ! i = table_key x y"
  proof (cases "first_index (table_key x y) (tl (nodesTable s))")
    case None
    then show ?thesis using r ne by (auto simp: getNodeByPosition_scalar_def hd_conv_nth split: if_splits)
  next
    case (Some j)
    from first_index_Some [OF Some] show ?thesis using r Some by (auto simp: getNodeByPosition_scalar_def nth_tl)
  qed
  then show "i < length (nodes s) \<and> node_x (nodes s ! i) = x \<and> node_y (nodes s ! i) = y"
    using t by (auto simp: table_ok_def table_key_inj)
next
  fix s x y
  assume t: "table_ok s" and r: "getNodeByPosition_scalar x y s = None"
  then have "table_key x y \<notin> set (tl (nodesTable s))" "hd (nodesTable s) \<noteq> table_key x y"
    by (auto simp: getNodeByPosition_scalar_def first_index_None split: option.splits if_splits)
  then show "table_key x y \<notin> set (nodesTable s)" using t by (cases "nodesTable s") (auto simp: table_ok_def)
qed

interpretation simd_search: position_search getNodeByPosition_simd
proof
  fix s x y i
  assume "table_ok s" and "getNodeByPosition_simd x y s = Some i"
  then show "i < length (nodes s) \<and> node_x (nodes s ! i) = x \<and> node_y (nodes s ! i) = y"
    by (auto simp: getNodeByPosition_simd_def search_blocks_eq dest: first_index_node)
next
  fix s x y
  assume "table_ok s" and "getNodeByPosition_simd x y s = None"
  then show "table_key x y \<notin> set (nodesTable s)"
    by (auto simp: getNodeByPosition_simd_def search_blocks_eq first_index_None)
qed

section \<open>The best open node\<close>

text \<open>Exactly the existing nodes may be open, the array of costs agrees with them, and every cost is below
  the mark of a closed node.\<close>

definition open_ok :: "AStarNodes \<Rightarrow> bool" where
  "open_ok s \<longleftrightarrow> nodes s \<noteq> [] \<and>
     (\<forall>i. openNodes s i \<longrightarrow> i < length (nodes s) \<and> total_cost (nodes s ! i) < int32_max) \<and>
     (\<forall>i. calculatedNodes s i = (if openNodes s i then total_cost (nodes s ! i) else int32_max))"

locale best_first =
  fixes best :: "AStarNodes \<Rightarrow> nat option"
  assumes best_Some: "open_ok s \<Longrightarrow> best s = Some i \<Longrightarrow>
      openNodes s i \<and> (\<forall>j. openNodes s j \<longrightarrow> total_cost (nodes s ! i) \<le> total_cost (nodes s ! j))"
    and best_None: "open_ok s \<Longrightarrow> best s = None \<Longrightarrow> \<not> openNodes s j"

lemma best_scan_min:
  "best_scan s is (m, b) = (m', b') \<Longrightarrow>
    m' \<le> m \<and> (\<forall>i \<in> set is. openNodes s i \<longrightarrow> m' \<le> total_cost (nodes s ! i)) \<and>
    (m' = m \<and> b' = b \<or> (\<exists>i \<in> set is. openNodes s i \<and> b' = Some i \<and> m' = total_cost (nodes s ! i)))"
proof (induction "is" arbitrary: m b)
  case (Cons i "is")
  show ?case
  proof (cases "openNodes s i \<and> total_cost (nodes s ! i) < m")
    case True
    with Cons.prems have "best_scan s is (total_cost (nodes s ! i), Some i) = (m', b')" by simp
    from Cons.IH [OF this] True show ?thesis by auto
  next
    case False
    with Cons.prems have "best_scan s is (m, b) = (m', b')" by (auto split: if_splits)
    from Cons.IH [OF this] False show ?thesis by auto
  qed
qed simp

interpretation scalar_best: best_first getBestNode_scalar
proof
  fix s i
  assume ok: "open_ok s" and r: "getBestNode_scalar s = Some i"
  obtain m b where mb: "best_scan s [0..<length (nodes s)] (int32_max, None) = (m, b)" by fastforce
  have "b = Some i" using r mb by (simp add: getBestNode_scalar_def)
  with best_scan_min [OF mb] ok
  show "openNodes s i \<and> (\<forall>j. openNodes s j \<longrightarrow> total_cost (nodes s ! i) \<le> total_cost (nodes s ! j))"
    by (auto simp: open_ok_def)
next
  fix s j
  assume ok: "open_ok s" and r: "getBestNode_scalar s = None"
  obtain m b where mb: "best_scan s [0..<length (nodes s)] (int32_max, None) = (m, b)" by fastforce
  have "b = None" using r mb by (simp add: getBestNode_scalar_def)
  then have "m = int32_max" using best_scan_min [OF mb] by auto
  with best_scan_min [OF mb] ok show "\<not> openNodes s j" by (fastforce simp: open_ok_def)
qed

lemma fold_min:
  "foldl (\<lambda>(v, i) p. if c p < v then (c p, e p) else (v, i)) (v0, i0) ps = (v, i) \<Longrightarrow>
    (v :: int) \<le> v0 \<and> (\<forall>p \<in> set ps. v \<le> c p) \<and> ((v, i) = (v0, i0) \<or> (\<exists>p \<in> set ps. (v, i) = (c p, e p)))"
proof (induction ps arbitrary: v0 i0)
  case (Cons p ps)
  show ?case
  proof (cases "c p < v0")
    case True
    with Cons.prems Cons.IH [of "c p" "e p"] show ?thesis by auto
  next
    case False
    with Cons.prems Cons.IH [of v0 i0] show ?thesis by auto
  qed
qed simp

lemma lane_min_bounds:
  assumes "lane_min lanes s l = (v, i)"
  shows "v = calculatedNodes s i \<and> (\<forall>k. k * lanes < length (nodes s) \<longrightarrow> v \<le> calculatedNodes s (k * lanes + l))"
proof
  note m = fold_min [where c = "\<lambda>p. calculatedNodes s (p + l)" and e = "\<lambda>p. p + l", OF assms [unfolded lane_min_def]]
  show "v = calculatedNodes s i" using m by auto
  show "\<forall>k. k * lanes < length (nodes s) \<longrightarrow> v \<le> calculatedNodes s (k * lanes + l)"
  proof (intro allI impI)
    fix k assume k: "k * lanes < length (nodes s)"
    show "v \<le> calculatedNodes s (k * lanes + l)"
    proof (cases k)
      case (Suc k')
      show ?thesis
      proof (cases "lanes = 0")
        case False
        then have "k < (length (nodes s) + lanes - 1) div lanes"
          using k by (simp add: less_eq_div_iff_mult_less_eq Suc_le_eq [symmetric])
        then have "k \<in> {1..<(length (nodes s) + lanes - 1) div lanes}" using Suc by simp
        then have "k * lanes \<in> set (map (\<lambda>k. k * lanes) [1..<(length (nodes s) + lanes - 1) div lanes])" by (simp only: set_map set_upt) blast
        then show ?thesis using m by blast
      qed (use m in auto)
    qed (use m in auto)
  qed
qed

lemma getBestNode_simd_min:
  assumes "0 < lanes" and "foldl (\<lambda>(v, i) l. if fst (lane_min lanes s l) < v then lane_min lanes s l else (v, i))
      (lane_min lanes s 0) [1..<lanes] = (v, b)" and "j < length (nodes s)"
  shows "v = calculatedNodes s b \<and> v \<le> calculatedNodes s j"
proof -
  note m = fold_min [where c = "\<lambda>l. fst (lane_min lanes s l)" and e = "\<lambda>l. snd (lane_min lanes s l)"
      and ?v0.0 = "fst (lane_min lanes s 0)" and ?i0.0 = "snd (lane_min lanes s 0)", simplified prod.collapse, OF assms(2)]
  have "v \<le> fst (lane_min lanes s (j mod lanes))" using m assms(1) by (cases "j mod lanes = 0") auto
  also have "\<dots> \<le> calculatedNodes s (j div lanes * lanes + j mod lanes)"
    using lane_min_bounds [of lanes s "j mod lanes", OF prod.collapse [symmetric]] assms(3)
    by (metis div_mult_mod_eq le_add1 le_less_trans)
  finally have "v \<le> calculatedNodes s j" by simp
  moreover have "v = calculatedNodes s b"
    using m lane_min_bounds [OF prod.collapse [symmetric]] by (metis fst_conv prod.collapse snd_conv)
  ultimately show ?thesis by simp
qed

lemma simd_best_first: "0 < lanes \<Longrightarrow> best_first (getBestNode_simd lanes)"
proof
  fix s i
  assume l: "0 < lanes" and ok: "open_ok s" and r: "getBestNode_simd lanes s = Some i"
  then have b: "openNodes s i" by (auto simp: getBestNode_simd_def Let_def split: prod.splits if_splits)
  moreover have "calculatedNodes s i \<le> calculatedNodes s j" if "j < length (nodes s)" for j
    using r getBestNode_simd_min [where s = s, OF l _ that] by (auto simp: getBestNode_simd_def Let_def split: prod.splits if_splits)
  ultimately show "openNodes s i \<and> (\<forall>j. openNodes s j \<longrightarrow> total_cost (nodes s ! i) \<le> total_cost (nodes s ! j))"
    using ok by (fastforce simp: open_ok_def)
next
  fix s j
  assume l: "0 < lanes" and ok: "open_ok s" and r: "getBestNode_simd lanes s = None"
  show "\<not> openNodes s j"
  proof
    assume j: "openNodes s j"
    then have "j < length (nodes s)" using ok by (simp add: open_ok_def)
    then obtain b where "\<not> openNodes s b" "calculatedNodes s b \<le> calculatedNodes s j"
      using r getBestNode_simd_min [where s = s, OF l] by (auto simp: getBestNode_simd_def Let_def split: prod.splits if_splits)
    then show False using ok j by (fastforce simp: open_ok_def)
  qed
qed

interpretation sse_best: best_first "getBestNode_simd 4" by (rule simd_best_first) simp
interpretation avx2_best: best_first "getBestNode_simd 8" by (rule simd_best_first) simp
interpretation avx512_best: best_first "getBestNode_simd 16" by (rule simd_best_first) simp

end
