(* ===== verification/Path_Finding.thy ===== *)
theory Path_Finding
  imports AStar_Nodes
begin

text \<open>
  The path finder: \<open>Map::canWalkTo\<close>, \<open>getPathMatching\<close> and \<open>getPathMatchingCond\<close> of \<^verbatim>\<open>src/map/map.cpp\<close>,
  \<open>AStarNodes::getTileWalkCost\<close>, \<open>FrozenPathingConditionCall\<close> and \<open>Creature::getPathTo\<close> of
  \<^verbatim>\<open>src/creatures/creature.cpp\<close>.  The map, what a creature may enter and the line of sight are
  parameters.  The two searches share one loop; it is a partial function, and that it returns is proved.
  The lemmas show that every build of the node store serves, and that the directions returned lead
  over tiles the creature can enter to a position that meets the condition.
\<close>

section \<open>Who searches, and what for\<close>

record 't walker =
  isRemoved :: bool
  own_position :: Position
  own_tile :: "'t option"
  tileAdmits :: "'t \<Rightarrow> bool"
  seesCreatureOn :: "'t \<Rightarrow> bool"
  fieldCombat :: "'t \<Rightarrow> nat option"
  isImmune :: "nat \<Rightarrow> bool"
  hasFieldCondition :: "nat \<Rightarrow> bool"
  isMonster :: bool
  canWalkOnFieldType :: "nat \<Rightarrow> bool"

definition canWalkTo :: "(Position \<Rightarrow> 't option) \<Rightarrow> 't walker option \<Rightarrow> Position \<Rightarrow> 't option" where
  "canWalkTo getTile creature pos =
     (case creature of
        None \<Rightarrow> None
      | Some c \<Rightarrow>
          if isRemoved c then None
          else if own_tile c \<noteq> getTile pos then
            (case getTile pos of None \<Rightarrow> None | Some t \<Rightarrow> if tileAdmits c t then Some t else None)
          else getTile pos)"

text \<open>\<open>COMBAT_NONE\<close> is 0.\<close>

definition getTileWalkCost :: "'t walker option \<Rightarrow> 't option \<Rightarrow> int" where
  "getTileWalkCost creature tile =
     (case (creature, tile) of
        (Some c, Some t) \<Rightarrow>
          (if seesCreatureOn c t then MAP_NORMALWALKCOST * 4 else 0) +
          (case fieldCombat c t of
             None \<Rightarrow> 0
           | Some ct \<Rightarrow>
               if ct \<noteq> 0 \<and> \<not> isImmune c ct \<and> \<not> hasFieldCondition c ct \<and> isMonster c \<and> \<not> canWalkOnFieldType c ct
               then MAP_NORMALWALKCOST * 18 else 0)
      | _ \<Rightarrow> 0)"

record FindPathParams =
  fullPathSearch :: bool
  clearSight :: bool
  allowDiagonal :: bool
  keepDistance :: bool
  maxSearchDist :: int
  minTargetDist :: int
  maxTargetDist :: int

definition isInRange :: "Position \<Rightarrow> Position \<Rightarrow> Position \<Rightarrow> FindPathParams \<Rightarrow> bool" where
  "isInRange targetPos startPos testPos fpp =
     (if fullPathSearch fpp then
        \<not> getX testPos > getX targetPos + maxTargetDist fpp \<and> \<not> getX testPos < getX targetPos - maxTargetDist fpp \<and>
        \<not> getY testPos > getY targetPos + maxTargetDist fpp \<and> \<not> getY testPos < getY targetPos - maxTargetDist fpp
      else
        let dx = getOffsetX startPos targetPos; dy = getOffsetY startPos targetPos in
        \<not> getX testPos > getX targetPos + (if dx \<ge> 0 then maxTargetDist fpp else 0) \<and>
        \<not> getX testPos < getX targetPos - (if dx \<le> 0 then maxTargetDist fpp else 0) \<and>
        \<not> getY testPos > getY targetPos + (if dy \<ge> 0 then maxTargetDist fpp else 0) \<and>
        \<not> getY testPos < getY targetPos - (if dy \<le> 0 then maxTargetDist fpp else 0))"

text \<open>The call operator: the answer and the new value of \<open>bestMatchDist\<close>.\<close>

definition path_condition ::
    "(Position \<Rightarrow> Position \<Rightarrow> bool) \<Rightarrow> Position \<Rightarrow> Position \<Rightarrow> Position \<Rightarrow> FindPathParams \<Rightarrow> int \<Rightarrow> bool \<times> int" where
  "path_condition isSightClear targetPos startPos testPos fpp bestMatchDist =
     (if \<not> isInRange targetPos startPos testPos fpp then (False, bestMatchDist)
      else if clearSight fpp \<and> \<not> isSightClear testPos targetPos then (False, bestMatchDist)
      else
        let testDist = max (getDistanceX targetPos testPos) (getDistanceY targetPos testPos) in
        if maxTargetDist fpp = 1 then
          (if testDist < minTargetDist fpp \<or> testDist > maxTargetDist fpp then (False, bestMatchDist) else (True, bestMatchDist))
        else if testDist \<le> maxTargetDist fpp then
          (if testDist < minTargetDist fpp then (False, bestMatchDist)
           else if testDist = maxTargetDist fpp then (True, 0)
           else if testDist > bestMatchDist then (True, testDist)
           else (False, bestMatchDist))
        else (False, bestMatchDist))"

section \<open>The search\<close>

definition allNeighbors :: "(int \<times> int) list" where
  "allNeighbors = [(-1, 0), (0, 1), (1, 0), (0, -1), (-1, -1), (1, -1), (1, 1), (-1, 1)]"

fun dirNeighbors :: "Direction \<Rightarrow> (int \<times> int) list" where
  "dirNeighbors DIRECTION_NORTH = [(-1, 0), (0, 1), (1, 0), (1, 1), (-1, 1)]"
| "dirNeighbors DIRECTION_EAST = [(-1, 0), (0, 1), (0, -1), (-1, -1), (-1, 1)]"
| "dirNeighbors DIRECTION_SOUTH = [(-1, 0), (1, 0), (0, -1), (-1, -1), (1, -1)]"
| "dirNeighbors DIRECTION_WEST = [(0, 1), (1, 0), (0, -1), (1, -1), (1, 1)]"
| "dirNeighbors DIRECTION_SOUTHWEST = [(1, 0), (0, -1), (-1, -1), (1, -1), (1, 1)]"
| "dirNeighbors DIRECTION_SOUTHEAST = [(-1, 0), (0, -1), (-1, -1), (1, -1), (-1, 1)]"
| "dirNeighbors DIRECTION_NORTHWEST = [(0, 1), (1, 0), (1, -1), (1, 1), (-1, 1)]"
| "dirNeighbors DIRECTION_NORTHEAST = [(-1, 0), (0, 1), (-1, -1), (1, 1), (-1, 1)]"
| "dirNeighbors DIRECTION_NONE = []"

text \<open>The neighbours looked at depend on the side the parent is on.\<close>

definition neighbors_of :: "AStarNodes \<Rightarrow> AStarNode \<Rightarrow> (int \<times> int) list" where
  "neighbors_of s n =
     (case parent n of
        None \<Rightarrow> allNeighbors
      | Some p \<Rightarrow>
          let offset_x = uint (node_x (nodes s ! p)) - uint (node_x n);
              offset_y = uint (node_y (nodes s ! p)) - uint (node_y n) in
          dirNeighbors
            (if offset_y = 0 then (if offset_x = -1 then DIRECTION_WEST else DIRECTION_EAST)
             else if offset_x = 0 then (if offset_y = -1 then DIRECTION_NORTH else DIRECTION_SOUTH)
             else if offset_y = -1 then (if offset_x = -1 then DIRECTION_NORTHWEST else DIRECTION_NORTHEAST)
             else if offset_x = -1 then DIRECTION_SOUTHWEST else DIRECTION_SOUTHEAST))"

text \<open>What distinguishes the two searches: the condition on a position, neighbours passed over, the cost of a tile
  that can be entered, and the limit of the loop.\<close>

record finder =
  f_accepts :: "Position \<Rightarrow> int \<Rightarrow> bool \<times> int"
  f_skips :: "Position \<Rightarrow> bool"
  f_tileCost :: "Position \<Rightarrow> int option"
  f_target :: Position
  f_start :: Position
  f_unlimited :: bool

definition node_position :: "finder \<Rightarrow> AStarNode \<Rightarrow> Position" where
  "node_position F n = mkPosition (node_x n) (node_y n) (pos_z (f_start F))"

definition neighbor_position :: "finder \<Rightarrow> AStarNode \<Rightarrow> int \<times> int \<Rightarrow> Position" where
  "neighbor_position F n d =
     mkPosition (word_of_int (uint (node_x n) + fst d)) (word_of_int (uint (node_y n) + snd d)) (pos_z (f_start F))"

definition heuristic :: "finder \<Rightarrow> Position \<Rightarrow> int" where
  "heuristic F pos =
     (let sX = \<bar>getX (f_target F) - getX (f_start F)\<bar>; sY = \<bar>getY (f_target F) - getY (f_start F)\<bar>;
          dX = \<bar>getX (f_target F) - getX pos\<bar>; dY = \<bar>getY (f_target F) - getY pos\<bar>
      in (dX - sX) * 8 + (dY - sY) * 8 + max dX dY * 8)"

text \<open>One neighbour of node \<open>n\<close>; \<open>None\<close> when the store is full.\<close>

definition visit :: "(u16 \<Rightarrow> u16 \<Rightarrow> AStarNodes \<Rightarrow> nat option) \<Rightarrow> finder \<Rightarrow> nat \<Rightarrow> int \<Rightarrow> Position \<Rightarrow> AStarNodes \<Rightarrow> AStarNodes option" where
  "visit look F n f pos s =
     (if f_skips F pos then Some s
      else
        case look (pos_x pos) (pos_y pos) s of
          Some m \<Rightarrow>
            let newf = f + getMapWalkCost (nodes s ! n) pos + node_c (nodes s ! m) in
            if node_f (nodes s ! m) \<le> newf then Some s
            else Some (openNode m (s\<lparr>nodes := (nodes s)[m := (nodes s ! m)\<lparr>node_f := newf, parent := Some n\<rparr>]\<rparr>))
        | None \<Rightarrow>
            (case f_tileCost F pos of
               None \<Rightarrow> Some s
             | Some extraCost \<Rightarrow>
                 createOpenNode n (pos_x pos) (pos_y pos) (f + getMapWalkCost (nodes s ! n) pos + extraCost)
                   (heuristic F pos) extraCost s))"

text \<open>The loop over the neighbours; a full store ends the search with \<open>false\<close> unless something was found.\<close>

fun expand :: "(u16 \<Rightarrow> u16 \<Rightarrow> AStarNodes \<Rightarrow> nat option) \<Rightarrow> finder \<Rightarrow> nat \<Rightarrow> int \<Rightarrow> bool \<Rightarrow> Position list \<Rightarrow> AStarNodes \<Rightarrow> AStarNodes option" where
  "expand look F n f found [] s = Some s"
| "expand look F n f found (pos # ps) s =
     (case visit look F n f pos s of
        Some s' \<Rightarrow> expand look F n f found ps s'
      | None \<Rightarrow> if found then Some s else None)"

text \<open>The main loop: \<open>Some None\<close> is \<open>return false\<close>, otherwise the nodes and the one found.\<close>

partial_function (option) search_loop ::
    "(AStarNodes \<Rightarrow> nat option) \<Rightarrow> (u16 \<Rightarrow> u16 \<Rightarrow> AStarNodes \<Rightarrow> nat option) \<Rightarrow> finder \<Rightarrow> AStarNodes \<Rightarrow> nat option \<Rightarrow> int \<Rightarrow>
     (AStarNodes \<times> nat) option option" where
  "search_loop best look F s found bestMatch =
     (case best s of
        None \<Rightarrow> Some (map_option (Pair s) found)
      | Some n \<Rightarrow>
          let node = nodes s ! n; ok = fst (f_accepts F (node_position F node) bestMatch);
              bestMatch1 = snd (f_accepts F (node_position F node) bestMatch);
              found1 = (if ok then Some n else found)
          in if ok \<and> bestMatch1 = 0 then Some (Some (s, n))
             else
               case expand look F n (node_f node) (found1 \<noteq> None) (map (neighbor_position F node) (neighbors_of s node)) s of
                 None \<Rightarrow> Some None
               | Some s1 \<Rightarrow>
                   if f_unlimited F \<or> closedNodes (closeNode n s1) < 100
                   then search_loop best look F (closeNode n s1) found1 bestMatch1
                   else Some (map_option (Pair (closeNode n s1)) found1))"

section \<open>From the nodes to directions\<close>

definition step_direction :: "int \<Rightarrow> int \<Rightarrow> Direction list" where
  "step_direction dx dy =
     (if dx = 1 then
        [if dy = 1 then DIRECTION_NORTHWEST else if dy = -1 then DIRECTION_SOUTHWEST else DIRECTION_WEST]
      else if dx = -1 then
        [if dy = 1 then DIRECTION_NORTHEAST else if dy = -1 then DIRECTION_SOUTHEAST else DIRECTION_EAST]
      else if dy = 1 then [DIRECTION_NORTH]
      else if dy = -1 then [DIRECTION_SOUTH]
      else [])"

partial_function (option) path_back :: "AStarNodes \<Rightarrow> int \<Rightarrow> int \<Rightarrow> nat option \<Rightarrow> Direction list \<Rightarrow> Direction list option" where
  "path_back s prevx prevy found dirList =
     (case found of
        None \<Rightarrow> Some dirList
      | Some i \<Rightarrow>
          let x = uint (node_x (nodes s ! i)); y = uint (node_y (nodes s ! i)) in
          path_back s x y (parent (nodes s ! i)) (dirList @ step_direction (x - prevx) (y - prevy)))"

definition run_finder ::
    "(AStarNodes \<Rightarrow> nat option) \<Rightarrow> (u16 \<Rightarrow> u16 \<Rightarrow> AStarNodes \<Rightarrow> nat option) \<Rightarrow> finder \<Rightarrow> int \<Rightarrow> Direction list \<Rightarrow> (bool \<times> Direction list) option" where
  "run_finder best look F startCost dirList =
     (case search_loop best look F (new_nodes (pos_x (f_start F)) (pos_y (f_start F)) startCost) None 0 of
        None \<Rightarrow> None
      | Some None \<Rightarrow> Some (False, dirList)
      | Some (Some (s, n)) \<Rightarrow>
          map_option (Pair True)
            (path_back s (uint (node_x (nodes s ! n))) (uint (node_y (nodes s ! n))) (parent (nodes s ! n)) dirList))"

text \<open>The builds of the node store.\<close>

datatype build = Scalar | SSE | AVX2 | AVX512

fun getBestNode :: "build \<Rightarrow> AStarNodes \<Rightarrow> nat option" where
  "getBestNode Scalar = getBestNode_scalar"
| "getBestNode SSE = getBestNode_simd 4"
| "getBestNode AVX2 = getBestNode_simd 8"
| "getBestNode AVX512 = getBestNode_simd 16"

fun getNodeByPosition :: "build \<Rightarrow> u16 \<Rightarrow> u16 \<Rightarrow> AStarNodes \<Rightarrow> nat option" where
  "getNodeByPosition Scalar = getNodeByPosition_scalar"
| "getNodeByPosition _ = getNodeByPosition_simd"

text \<open>In \<open>getPathMatching\<close> the name \<open>startPos\<close> is a reference to \<open>pos\<close>, the position under test.\<close>

definition getPathMatching ::
    "build \<Rightarrow> (Position \<Rightarrow> 't option) \<Rightarrow> (Position \<Rightarrow> Position \<Rightarrow> bool) \<Rightarrow> 't walker option \<Rightarrow> Position \<Rightarrow> Position \<Rightarrow>
     FindPathParams \<Rightarrow> Direction list \<Rightarrow> (bool \<times> Direction list) option" where
  "getPathMatching b getTile isSightClear creature targetPos0 conditionTarget fpp dirList =
     (let pos = (case creature of None \<Rightarrow> targetPos0 | Some c \<Rightarrow> own_position c);
          targetPos = (case creature of None \<Rightarrow> conditionTarget | Some c \<Rightarrow> targetPos0);
          tile = (\<lambda>p. case creature of None \<Rightarrow> getTile p | Some c \<Rightarrow> canWalkTo getTile creature p)
      in run_finder (getBestNode b) (getNodeByPosition b)
           \<lparr>f_accepts = (\<lambda>p. path_condition isSightClear conditionTarget p p fpp), f_skips = (\<lambda>_. False),
            f_tileCost = (\<lambda>p. map_option (\<lambda>t. getTileWalkCost creature (Some t)) (tile p)),
            f_target = targetPos, f_start = pos, f_unlimited = False\<rparr>
           (getTileWalkCost creature (getTile pos)) dirList)"

definition getPathMatchingCond ::
    "build \<Rightarrow> (Position \<Rightarrow> 't option) \<Rightarrow> (Position \<Rightarrow> Position \<Rightarrow> bool) \<Rightarrow> 't walker \<Rightarrow> Position \<Rightarrow> Position \<Rightarrow>
     FindPathParams \<Rightarrow> Direction list \<Rightarrow> (bool \<times> Direction list) option" where
  "getPathMatchingCond b getTile isSightClear creature targetPos conditionTarget fpp dirList =
     (let startPos = own_position creature
      in run_finder (getBestNode b) (getNodeByPosition b)
           \<lparr>f_accepts = (\<lambda>p. path_condition isSightClear conditionTarget startPos p fpp),
            f_skips = (\<lambda>p. maxSearchDist fpp \<noteq> 0 \<and> (getDistanceX startPos p > maxSearchDist fpp \<or> getDistanceY startPos p > maxSearchDist fpp) \<or>
              keepDistance fpp \<and> \<not> isInRange conditionTarget startPos p fpp),
            f_tileCost = (\<lambda>p. map_option (\<lambda>t. getTileWalkCost (Some creature) (Some t)) (canWalkTo getTile (Some creature) p)),
            f_target = targetPos, f_start = startPos, f_unlimited = maxSearchDist fpp \<noteq> 0\<rparr>
           (getTileWalkCost (Some creature) (getTile startPos)) dirList)"

definition getPathTo ::
    "build \<Rightarrow> (Position \<Rightarrow> 't option) \<Rightarrow> (Position \<Rightarrow> Position \<Rightarrow> bool) \<Rightarrow> 't walker \<Rightarrow> Position \<Rightarrow> FindPathParams \<Rightarrow>
     Direction list \<Rightarrow> (bool \<times> Direction list) option" where
  "getPathTo b getTile isSightClear creature targetPos fpp dirList =
     (if maxSearchDist fpp \<noteq> 0 \<or> keepDistance fpp
      then getPathMatchingCond b getTile isSightClear creature targetPos targetPos fpp dirList
      else getPathMatching b getTile isSightClear (Some creature) targetPos targetPos fpp dirList)"

section \<open>Costs and positions of neighbours\<close>

lemma best_first_build: "best_first (getBestNode b)"
  by (cases b) (simp_all add: scalar_best.best_first_axioms sse_best.best_first_axioms avx2_best.best_first_axioms
      avx512_best.best_first_axioms)

lemma position_search_build: "position_search (getNodeByPosition b)"
  by (cases b) (simp_all add: scalar_search.position_search_axioms simd_search.position_search_axioms)

declare getBestNode.simps [simp del] getNodeByPosition.simps [simp del]

lemma getTileWalkCost_bounds: "0 \<le> getTileWalkCost c t \<and> getTileWalkCost c t \<le> 220"
  by (simp add: getTileWalkCost_def MAP_NORMALWALKCOST_def split: option.split)

lemma neighbors_of_all: "set (neighbors_of s n) \<subseteq> set allNeighbors"
  by (simp add: neighbors_of_def allNeighbors_def Let_def split: option.split)

lemma uint_u16: "0 \<le> uint (w :: u16)" "uint (w :: u16) \<le> 65535"
  using unsigned_less [of w, where 'a = int] by simp_all

definition walk_cost_max :: int where "walk_cost_max = 3276955"

lemma neighbor_shift:
  assumes "a \<in> {-1, 0, 1}"
  shows "uint (word_of_int (uint (x :: u16) + a) :: u16) =
    (if uint x + a = -1 then 65535 else if uint x + a = 65536 then 0 else uint x + a)"
proof -
  have m: "uint (word_of_int z :: u16) = z mod 65536" for z by (simp add: unsigned_of_int take_bit_eq_mod)
  obtain k where k: "uint x = int k" using uint_u16(1) [of x] nonneg_int_cases by blast
  show ?thesis unfolding m k using assms uint_u16(2) [of x] by (auto simp: k mod_pos_pos_trivial)
qed

lemma coordinate_bounds: "0 \<le> getX p" "getX p \<le> 65535" "0 \<le> getY p" "getY p \<le> 65535"
  using uint_u16 [of "pos_x p"] uint_u16 [of "pos_y p"] by (simp_all add: getX_def getY_def)

lemma neighbor_cost:
  assumes "d \<in> set allNeighbors"
  shows "10 \<le> getMapWalkCost n (neighbor_position F n d)" "getMapWalkCost n (neighbor_position F n d) \<le> 3276735"
proof -
  let ?p = "neighbor_position F n d"
  have d: "fst d \<in> {-1, 0, 1}" "snd d \<in> {-1, 0, 1}" "fst d \<noteq> 0 \<or> snd d \<noteq> 0"
    using assms by (auto simp: allNeighbors_def)
  have x: "getX ?p = (if uint (node_x n) + fst d = -1 then 65535 else if uint (node_x n) + fst d = 65536 then 0 else uint (node_x n) + fst d)"
    using neighbor_shift [OF d(1), of "node_x n"] by (simp add: neighbor_position_def getX_def mkPosition_def)
  have y: "getY ?p = (if uint (node_y n) + snd d = -1 then 65535 else if uint (node_y n) + snd d = 65536 then 0 else uint (node_y n) + snd d)"
    using neighbor_shift [OF d(2), of "node_y n"] by (simp add: neighbor_position_def getY_def mkPosition_def)
  let ?a = "\<bar>uint (node_x n) - getX ?p\<bar>" and ?b = "\<bar>uint (node_y n) - getY ?p\<bar>"
  have "?a \<le> 65535" "?b \<le> 65535" using uint_u16 [of "node_x n"] uint_u16 [of "node_y n"] coordinate_bounds [of ?p] by linarith+
  then show "getMapWalkCost n ?p \<le> 3276735"
    by (simp add: getMapWalkCost_def MAP_DIAGONALWALKCOST_def MAP_NORMALWALKCOST_def)
  have "?a \<noteq> 0 \<or> ?b \<noteq> 0"
    using d uint_u16 [of "node_x n"] uint_u16 [of "node_y n"] unfolding x y by (auto split: if_splits)
  then have "1 \<le> ?a + ?b" by auto
  then show "10 \<le> getMapWalkCost n ?p"
    by (simp add: getMapWalkCost_def MAP_DIAGONALWALKCOST_def MAP_NORMALWALKCOST_def)
qed

lemma heuristic_arith:
  fixes a b c d :: int
  assumes "0 \<le> a" "a \<le> 65535" "0 \<le> b" "b \<le> 65535" "0 \<le> c" "c \<le> 65535" "0 \<le> d" "d \<le> 65535"
  shows "- 1048560 \<le> (c - a) * 8 + (d - b) * 8 + max c d * 8 \<and> (c - a) * 8 + (d - b) * 8 + max c d * 8 \<le> 1572840"
  using assms by (auto simp: max_def)

lemma heuristic_bounds: "- 1048560 \<le> heuristic F p" "heuristic F p \<le> 1572840"
proof -
  have "0 \<le> \<bar>getX (f_target F) - getX q\<bar> \<and> \<bar>getX (f_target F) - getX q\<bar> \<le> 65535 \<and>
    0 \<le> \<bar>getY (f_target F) - getY q\<bar> \<and> \<bar>getY (f_target F) - getY q\<bar> \<le> 65535" for q
    using coordinate_bounds [of "f_target F"] coordinate_bounds [of q] by linarith
  from this [of "f_start F"] this [of p] show "- 1048560 \<le> heuristic F p" "heuristic F p \<le> 1572840"
    unfolding heuristic_def Let_def using heuristic_arith by blast+
qed

section \<open>The invariant of the search\<close>

text \<open>Every node but the start has a cheaper parent next to it, and its tile can be entered; the costs are
  bounded by the number of the node.\<close>

definition node_ok :: "finder \<Rightarrow> AStarNodes \<Rightarrow> nat \<Rightarrow> AStarNode \<Rightarrow> bool" where
  "node_ok F s i n \<longleftrightarrow>
     0 \<le> node_f n \<and> node_f n \<le> walk_cost_max * int i \<and> - 1048560 \<le> node_g n \<and> node_g n \<le> 1572840 \<and>
     0 \<le> node_c n \<and> node_c n \<le> 220 \<and>
     (case parent n of
        None \<Rightarrow> i = 0 \<and> node_position F n = f_start F
      | Some j \<Rightarrow> i > 0 \<and> j < length (nodes s) \<and> node_f (nodes s ! j) + 10 \<le> node_f n \<and>
          (\<exists>d \<in> set allNeighbors. node_position F n = neighbor_position F (nodes s ! j) d) \<and>
          f_tileCost F (node_position F n) \<noteq> None \<and> \<not> f_skips F (node_position F n))"

definition search_inv :: "finder \<Rightarrow> AStarNodes \<Rightarrow> bool" where
  "search_inv F s \<longleftrightarrow> table_ok s \<and> open_ok s \<and> length (nodes s) \<le> MAX_NODES \<and>
     (\<forall>i < length (nodes s). node_ok F s i (nodes s ! i))"

definition costs_ok :: "finder \<Rightarrow> bool" where
  "costs_ok F \<longleftrightarrow> (\<forall>p c. f_tileCost F p = Some c \<longrightarrow> 0 \<le> c \<and> c \<le> 220)"

lemma total_cost_exact:
  assumes "node_ok F s i n" and "i < MAX_NODES"
  shows "total_cost n = node_f n + node_g n" "node_f n + node_g n < int32_max"
proof -
  have "walk_cost_max * int i \<le> walk_cost_max * 511"
    using assms(2) by (simp add: MAX_NODES_def walk_cost_max_def)
  then have "- 1048560 \<le> node_f n + node_g n" "node_f n + node_g n \<le> walk_cost_max * 511 + 1572840"
    using assms(1) by (auto simp: node_ok_def)
  then show "total_cost n = node_f n + node_g n" "node_f n + node_g n < int32_max"
    by (simp_all add: total_cost_def int32_id int32_max_def walk_cost_max_def)
qed

text \<open>How a store may change while a node is expanded: nodes keep their places, costs only fall.\<close>

definition evolves :: "AStarNodes \<Rightarrow> AStarNodes \<Rightarrow> bool" where
  "evolves s s' \<longleftrightarrow> length (nodes s) \<le> length (nodes s') \<and>
     (\<forall>i < length (nodes s). node_x (nodes s' ! i) = node_x (nodes s ! i) \<and> node_y (nodes s' ! i) = node_y (nodes s ! i) \<and>
        node_f (nodes s' ! i) \<le> node_f (nodes s ! i) \<and> (openNodes s i \<longrightarrow> openNodes s' i))"

definition sum_f :: "AStarNodes \<Rightarrow> nat" where
  "sum_f s = (\<Sum>n\<leftarrow>nodes s. nat (node_f n))"

definition progress :: "AStarNodes \<Rightarrow> AStarNodes \<Rightarrow> bool" where
  "progress s s' \<longleftrightarrow> s' = s \<or> length (nodes s) < length (nodes s') \<or> length (nodes s) = length (nodes s') \<and> sum_f s' < sum_f s"

lemma evolvesD:
  assumes "evolves s s'" and "i < length (nodes s)"
  shows "i < length (nodes s')" "node_x (nodes s' ! i) = node_x (nodes s ! i)" "node_y (nodes s' ! i) = node_y (nodes s ! i)"
    "node_f (nodes s' ! i) \<le> node_f (nodes s ! i)" "openNodes s i \<longrightarrow> openNodes s' i"
  using assms by (auto simp: evolves_def)

lemma evolves_refl: "evolves s s"
  by (simp add: evolves_def)

lemma evolves_trans:
  assumes "evolves s t" and "evolves t u" shows "evolves s u"
proof -
  have "node_x (nodes u ! i) = node_x (nodes s ! i) \<and> node_y (nodes u ! i) = node_y (nodes s ! i) \<and>
      node_f (nodes u ! i) \<le> node_f (nodes s ! i) \<and> (openNodes s i \<longrightarrow> openNodes u i)" if "i < length (nodes s)" for i
    using evolvesD [OF assms(1) that] evolvesD [OF assms(2) evolvesD(1) [OF assms(1) that]] by auto
  moreover have "length (nodes s) \<le> length (nodes u)" using assms by (simp add: evolves_def)
  ultimately show ?thesis by (simp add: evolves_def)
qed

lemma progress_trans: "progress s t \<Longrightarrow> progress t u \<Longrightarrow> progress s u"
  by (auto simp: progress_def)

lemma position_cong:
  assumes "node_x m = node_x n" and "node_y m = node_y n"
  shows "node_position F m = node_position F n" "neighbor_position F m d = neighbor_position F n d"
    "getMapWalkCost m q = getMapWalkCost n q"
  using assms by (simp_all add: node_position_def neighbor_position_def getMapWalkCost_def)

lemma node_ok_cong: "nodes s' = nodes s \<Longrightarrow> node_ok F s' i m = node_ok F s i m"
  by (cases "parent m") (simp_all add: node_ok_def)

lemma node_ok_evolves:
  assumes "evolves s s'" and "node_ok F s i n" shows "node_ok F s' i n"
proof (cases "parent n")
  case (Some j)
  then have "j < length (nodes s)" using assms(2) by (simp add: node_ok_def)
  note j = evolvesD [OF assms(1) this]
  show ?thesis using assms(2) j(1,4) Some by (auto simp: node_ok_def position_cong(2) [OF j(2,3)])
next
  case None
  then show ?thesis using assms(2) by (auto simp: node_ok_def)
qed

lemma sum_list_update_less:
  "i < length xs \<Longrightarrow> f y < f (xs ! i) \<Longrightarrow> (\<Sum>x\<leftarrow>xs[i := y]. f x) < (\<Sum>x\<leftarrow>xs. (f x :: nat))"
  by (induction xs arbitrary: i) (auto split: nat.split)

lemma search_inv_start: "costs_ok F \<Longrightarrow> 0 \<le> c \<Longrightarrow> c \<le> 220 \<Longrightarrow> search_inv F (new_nodes (pos_x (f_start F)) (pos_y (f_start F)) c)"
  by (simp add: search_inv_def new_nodes_def table_ok_def open_ok_def node_ok_def node_position_def mkPosition_def
      walk_cost_max_def MAX_NODES_def total_cost_def int32_def int32_max_def)

lemma search_inv_close:
  assumes "search_inv F s" shows "search_inv F (closeNode n s)"
proof -
  have ns: "nodes (closeNode n s) = nodes s" by (simp add: closeNode_def)
  have "table_ok (closeNode n s)" "open_ok (closeNode n s)"
    using assms by (auto simp: search_inv_def closeNode_def table_ok_def open_ok_def)
  then show ?thesis using assms by (simp add: search_inv_def ns node_ok_cong [OF ns])
qed

lemma search_inv_improve:
  assumes inv: "search_inv F s" and n: "n < length (nodes s)" and m: "m < length (nodes s)"
    and low: "node_f (nodes s ! n) + 10 \<le> newf" "newf < node_f (nodes s ! m)"
    and d: "d \<in> set allNeighbors" "node_position F (nodes s ! m) = neighbor_position F (nodes s ! n) d"
  shows "search_inv F (openNode m (s\<lparr>nodes := (nodes s)[m := (nodes s ! m)\<lparr>node_f := newf, parent := Some n\<rparr>]\<rparr>)) \<and>
    evolves s (openNode m (s\<lparr>nodes := (nodes s)[m := (nodes s ! m)\<lparr>node_f := newf, parent := Some n\<rparr>]\<rparr>)) \<and>
    progress s (openNode m (s\<lparr>nodes := (nodes s)[m := (nodes s ! m)\<lparr>node_f := newf, parent := Some n\<rparr>]\<rparr>))"
proof (intro conjI)
  let ?v = "(nodes s ! m)\<lparr>node_f := newf, parent := Some n\<rparr>"
  let ?s = "openNode m (s\<lparr>nodes := (nodes s)[m := ?v]\<rparr>)"
  have ns: "nodes ?s = (nodes s)[m := ?v]" by (simp add: openNode_def)
  show ev: "evolves s ?s" using low(2) by (auto simp: evolves_def openNode_def nth_list_update)
  have ok: "node_ok F s i (nodes s ! i)" if "i < length (nodes s)" for i using inv that by (simp add: search_inv_def)
  have "0 \<le> node_f (nodes s ! n)" using ok [OF n] by (simp add: node_ok_def)
  then have "0 < node_f (nodes s ! m)" using low by linarith
  then have "m \<noteq> 0" using ok [OF m] by (cases "m = 0") (auto simp: node_ok_def)
  then have "parent (nodes s ! m) \<noteq> None" using ok [OF m] by (auto simp: node_ok_def split: option.splits)
  then have v: "node_ok F s m ?v"
    using ok [OF m] n low d \<open>0 \<le> node_f (nodes s ! n)\<close> \<open>m \<noteq> 0\<close>
    by (auto simp: node_ok_def node_position_def split: option.splits)
  have all: "node_ok F ?s i (nodes ?s ! i)" if "i < length (nodes s)" for i
    using node_ok_evolves [OF ev] ok [OF that] v that by (cases "i = m") (simp_all add: ns)
  have "table_ok ?s"
  proof -
    have "map (\<lambda>n. table_key (node_x n) (node_y n)) ((nodes s)[m := ?v]) = map (\<lambda>n. table_key (node_x n) (node_y n)) (nodes s)"
      using m by (simp add: map_update list_update_same_conv)
    then show ?thesis using inv by (auto simp: search_inv_def table_ok_def openNode_def)
  qed
  moreover have "open_ok ?s"
  proof -
    have "m < MAX_NODES" using m inv by (simp add: search_inv_def)
    from total_cost_exact [OF v this] have "total_cost ?v < int32_max" by simp
    moreover have "open_ok s" using inv by (simp add: search_inv_def)
    ultimately show ?thesis using m by (auto simp: open_ok_def openNode_def nth_list_update)
  qed
  ultimately show "search_inv F ?s" using all inv by (simp add: search_inv_def ns)
  have "(\<Sum>x\<leftarrow>(nodes s)[m := ?v]. nat (node_f x)) < (\<Sum>x\<leftarrow>nodes s. nat (node_f x))"
    using low(2) \<open>0 < node_f (nodes s ! m)\<close> by (intro sum_list_update_less m) simp
  then show "progress s ?s" by (simp add: progress_def sum_f_def ns)
qed

lemma search_inv_create:
  assumes inv: "search_inv F s" and n: "n < length (nodes s)" and costs: "costs_ok F"
    and f: "node_f (nodes s ! n) \<le> f" "f \<le> walk_cost_max * int n"
    and d: "d \<in> set allNeighbors" and p: "p = neighbor_position F (nodes s ! n) d"
    and new: "table_key (pos_x p) (pos_y p) \<notin> set (nodesTable s)" "f_tileCost F p = Some c" "\<not> f_skips F p"
    and create: "createOpenNode n (pos_x p) (pos_y p) (f + getMapWalkCost (nodes s ! n) p + c) (heuristic F p) c s = Some s'"
  shows "search_inv F s' \<and> evolves s s' \<and> progress s s'"
proof (intro conjI)
  let ?v = "\<lparr>parent = Some n, node_f = f + getMapWalkCost (nodes s ! n) p + c, node_g = heuristic F p, node_c = c,
    node_x = pos_x p, node_y = pos_y p\<rparr>"
  let ?l = "length (nodes s)"
  have full: "?l < MAX_NODES" using create by (simp add: createOpenNode_def split: if_splits)
  have s': "s' = s\<lparr>nodes := nodes s @ [?v], nodesTable := nodesTable s @ [table_key (pos_x p) (pos_y p)],
      calculatedNodes := (calculatedNodes s)(?l := total_cost ?v), openNodes := (openNodes s)(?l := True)\<rparr>"
    using create by (auto simp: createOpenNode_def Let_def total_cost_def split: if_splits)
  have closed: "\<not> openNodes s ?l" using inv by (auto simp: search_inv_def open_ok_def)
  show ev: "evolves s s'" by (auto simp: evolves_def s' nth_append)
  show "progress s s'" by (simp add: progress_def s')
  have ok: "node_ok F s i (nodes s ! i)" if "i < ?l" for i using inv that by (simp add: search_inv_def)
  have c: "0 \<le> c" "c \<le> 220" using costs new(2) by (auto simp: costs_ok_def)
  have cost: "10 \<le> getMapWalkCost (nodes s ! n) p" "getMapWalkCost (nodes s ! n) p \<le> 3276735"
    using neighbor_cost [OF d] by (auto simp: p)
  have "0 \<le> node_f (nodes s ! n)" using ok [OF n] by (simp add: node_ok_def)
  moreover have "walk_cost_max * int n + walk_cost_max \<le> walk_cost_max * int ?l"
    using n by (simp add: walk_cost_max_def)
  ultimately have fb: "0 \<le> node_f ?v" "node_f ?v \<le> walk_cost_max * int ?l"
    using f c cost by (simp_all add: walk_cost_max_def)
  have pos: "node_position F ?v = p" by (simp add: node_position_def p neighbor_position_def mkPosition_def)
  have v: "node_ok F s ?l ?v"
    using fb f(1) c cost d new n pos heuristic_bounds [of F p] by (auto simp: node_ok_def p)
  have all: "node_ok F s' i (nodes s' ! i)" if "i < length (nodes s')" for i
    using node_ok_evolves [OF ev] ok v that by (cases "i < ?l") (auto simp: s' nth_append less_Suc_eq)
  have "table_ok s'" using inv new(1) by (auto simp: search_inv_def table_ok_def s')
  moreover have "open_ok s'"
    using total_cost_exact [OF v full] inv closed by (auto simp: search_inv_def open_ok_def s' nth_append)
  ultimately show "search_inv F s'" using all full by (simp add: search_inv_def) (simp add: s')
qed

section \<open>The loop returns\<close>

definition accepted :: "finder \<Rightarrow> Position \<Rightarrow> bool" where
  "accepted F p \<longleftrightarrow> (\<exists>bestMatch. fst (f_accepts F p bestMatch))"

definition found_ok :: "finder \<Rightarrow> AStarNodes \<Rightarrow> nat option \<Rightarrow> bool" where
  "found_ok F s found \<longleftrightarrow>
     (\<forall>m. found = Some m \<longrightarrow> m < length (nodes s) \<and> accepted F (node_position F (nodes s ! m)))"

definition open_count :: "AStarNodes \<Rightarrow> nat" where
  "open_count s = card {i. openNodes s i}"

lemma found_ok_evolves:
  assumes "evolves s s'" and "found_ok F s found" shows "found_ok F s' found"
  unfolding found_ok_def
proof (intro allI impI)
  fix m assume m: "found = Some m"
  then have "m < length (nodes s)" using assms(2) by (simp add: found_ok_def)
  note e = evolvesD [OF assms(1) this]
  show "m < length (nodes s') \<and> accepted F (node_position F (nodes s' ! m))"
    using m assms(2) e(1) position_cong(1) [OF e(2,3)] by (simp add: found_ok_def)
qed

lemma open_count_close:
  assumes "open_ok s" and "openNodes s n" shows "open_count (closeNode n s) < open_count s"
proof -
  have "finite {i. openNodes s i}"
    by (rule finite_subset [of _ "{..<length (nodes s)}"]) (use assms(1) in \<open>auto simp: open_ok_def\<close>)
  moreover have "{i. openNodes (closeNode n s) i} = {i. openNodes s i} - {n}" by (auto simp: closeNode_def)
  ultimately show ?thesis unfolding open_count_def using assms(2) card_Diff1_less by (metis mem_Collect_eq)
qed

text \<open>The path finder works with any best-first choice and any search by position.\<close>

locale path_search = best_first best + position_search look
  for best :: "AStarNodes \<Rightarrow> nat option" and look :: "u16 \<Rightarrow> u16 \<Rightarrow> AStarNodes \<Rightarrow> nat option"
begin

lemma visit_ok:
  assumes inv: "search_inv F s" and costs: "costs_ok F" and n: "n < length (nodes s)"
    and f: "node_f (nodes s ! n) \<le> f" "f \<le> walk_cost_max * int n"
    and d: "d \<in> set allNeighbors" and p: "p = neighbor_position F (nodes s ! n) d"
    and v: "visit look F n f p s = Some s'"
  shows "search_inv F s' \<and> evolves s s' \<and> progress s s'"
proof (cases "f_skips F p")
  case False
  have t: "table_ok s" using inv by (simp add: search_inv_def)
  show ?thesis
  proof (cases "look (pos_x p) (pos_y p) s")
    case None
    show ?thesis
    proof (cases "f_tileCost F p")
      case (Some c)
      with v None False
      have "createOpenNode n (pos_x p) (pos_y p) (f + getMapWalkCost (nodes s ! n) p + c) (heuristic F p) c s = Some s'"
        by (simp add: visit_def)
      from search_inv_create [OF inv n costs f d p look_None [OF t None] Some False this] show ?thesis .
    qed (use v None False inv in \<open>simp add: visit_def evolves_refl progress_def\<close>)
  next
    case (Some m)
    note m = look_Some [OF t Some]
    let ?newf = "f + getMapWalkCost (nodes s ! n) p + node_c (nodes s ! m)"
    have pm: "node_position F (nodes s ! m) = neighbor_position F (nodes s ! n) d"
      using m by (simp add: node_position_def p neighbor_position_def mkPosition_def)
    have "0 \<le> node_c (nodes s ! m)" using inv m by (simp add: search_inv_def node_ok_def)
    then have low: "node_f (nodes s ! n) + 10 \<le> ?newf"
      using f(1) neighbor_cost(1) [OF d, of "nodes s ! n" F] by (simp add: p)
    show ?thesis
    proof (cases "node_f (nodes s ! m) \<le> ?newf")
      case False
      then have "s' = openNode m (s\<lparr>nodes := (nodes s)[m := (nodes s ! m)\<lparr>node_f := ?newf, parent := Some n\<rparr>]\<rparr>)"
        using v Some \<open>\<not> f_skips F p\<close> by (simp add: visit_def Let_def)
      then show ?thesis using search_inv_improve [OF inv n _ low _ d pm] m False by simp
    qed (use v Some False inv in \<open>simp add: visit_def Let_def evolves_refl progress_def\<close>)
  qed
qed (use v inv in \<open>simp add: visit_def evolves_refl progress_def\<close>)

lemma expand_ok:
  assumes "search_inv F s" and costs: "costs_ok F" and "n < length (nodes s)"
    and "node_f (nodes s ! n) \<le> f" and f: "f \<le> walk_cost_max * int n"
    and "\<forall>p \<in> set ps. \<exists>d \<in> set allNeighbors. p = neighbor_position F (nodes s ! n) d"
    and "expand look F n f found ps s = Some s'"
  shows "search_inv F s' \<and> evolves s s' \<and> progress s s'"
  using assms(1,3,4,6,7)
proof (induction ps arbitrary: s)
  case (Cons p ps)
  obtain d where d: "d \<in> set allNeighbors" "p = neighbor_position F (nodes s ! n) d" using Cons.prems(4) by auto
  show ?case
  proof (cases "visit look F n f p s")
    case None
    then show ?thesis using Cons.prems by (auto simp: evolves_refl progress_def split: if_splits)
  next
    case (Some t)
    note vis = visit_ok [OF Cons.prems(1) costs Cons.prems(2,3) f d Some]
    note e = evolvesD [OF conjunct1 [OF conjunct2 [OF vis]] Cons.prems(2)]
    have "search_inv F s' \<and> evolves t s' \<and> progress t s'"
    proof (rule Cons.IH)
      show "\<forall>p \<in> set ps. \<exists>d \<in> set allNeighbors. p = neighbor_position F (nodes t ! n) d"
        using Cons.prems(4) by (simp add: position_cong(2) [OF e(2,3)])
    qed (use vis e Cons.prems Some in auto)
    then show ?thesis using vis evolves_trans progress_trans by blast
  qed
qed (simp add: evolves_refl progress_def)

lemma search_loop_returns:
  assumes "search_inv F s" and costs: "costs_ok F" and "found_ok F s found"
  shows "\<exists>r. search_loop best look F s found bestMatch = Some r \<and>
    (\<forall>s' m. r = Some (s', m) \<longrightarrow> search_inv F s' \<and> found_ok F s' (Some m))"
  using assms(1,3)
proof (induction s arbitrary: found bestMatch rule:
    wf_induct_rule [OF wf_measures [of "[\<lambda>s. MAX_NODES - length (nodes s), sum_f, open_count]"]])
  case (1 s)
  show ?case
  proof (cases "best s")
    case None
    then show ?thesis using 1(2,3) by (subst search_loop.simps) (auto simp: found_ok_def)
  next
    case (Some n)
    have ook: "open_ok s" using 1(2) by (simp add: search_inv_def)
    have open_n: "openNodes s n" using best_Some [OF ook Some] by simp
    then have n: "n < length (nodes s)" using ook by (simp add: open_ok_def)
    let ?node = "nodes s ! n"
    let ?ok = "fst (f_accepts F (node_position F ?node) bestMatch)" and ?bm = "snd (f_accepts F (node_position F ?node) bestMatch)"
    let ?found = "if ?ok then Some n else found"
    let ?e = "expand look F n (node_f ?node) (?found \<noteq> None) (map (neighbor_position F ?node) (neighbors_of s ?node)) s"
    have fnd: "found_ok F s ?found" using 1(3) n by (auto simp: found_ok_def accepted_def)
    show ?thesis
    proof (cases "?ok \<and> ?bm = 0 \<or> ?e = None")
      case True
      then show ?thesis using Some 1(2) fnd by (subst search_loop.simps) (auto simp: Let_def)
    next
      case False
      then obtain s1 where e: "?e = Some s1" by auto
      have fn: "node_f ?node \<le> walk_cost_max * int n" using 1(2) n by (simp add: search_inv_def node_ok_def)
      have "search_inv F s1 \<and> evolves s s1 \<and> progress s s1"
        by (rule expand_ok [OF 1(2) costs n order.refl fn _ e]) (use neighbors_of_all in fastforce)
      then have s1: "search_inv F s1" "evolves s s1" "progress s s1" by auto
      let ?s2 = "closeNode n s1"
      note inv2 = search_inv_close [OF s1(1), of n]
      have fnd2: "found_ok F ?s2 ?found"
        using found_ok_evolves [OF s1(2) fnd] by (simp add: found_ok_def closeNode_def)
      have step: "search_loop best look F s found bestMatch =
        (if f_unlimited F \<or> closedNodes ?s2 < 100 then search_loop best look F ?s2 ?found ?bm
         else Some (map_option (Pair ?s2) ?found))"
      proof -
        have "\<not> (?ok \<and> ?bm = 0)" using False by simp
        then show ?thesis by (subst search_loop.simps) (simp only: Some e Let_def option.case if_False)
      qed
      have "open_ok s1" "openNodes s1 n" using s1(1) evolvesD(5) [OF s1(2) n] open_n by (auto simp: search_inv_def)
      note close = open_count_close [OF this]
      have "(?s2, s) \<in> measures [\<lambda>s. MAX_NODES - length (nodes s), sum_f, open_count]"
        using s1(1,3) close by (auto simp: progress_def search_inv_def closeNode_def sum_f_def)
      note IH = 1(1) [OF this inv2 fnd2]
      show ?thesis
      proof (cases "f_unlimited F \<or> closedNodes ?s2 < 100")
        case True
        then show ?thesis using IH [of ?bm] by (simp add: step)
      next
        case False
        then show ?thesis using inv2 fnd2 by (auto simp: step)
      qed
    qed
  qed
qed

end

interpretation builds: path_search "getBestNode b" "getNodeByPosition b" for b
  by (intro path_search.intro best_first_build position_search_build)

section \<open>The directions lead along the nodes\<close>

fun walk :: "Direction list \<Rightarrow> Position \<Rightarrow> Position list" where
  "walk [] p = []"
| "walk (d # ds) p = getNextPosition d p # walk ds (getNextPosition d p)"

lemma walk_append: "walk (xs @ ys) p = walk xs p @ walk ys (last (p # walk xs p))"
  by (induction xs arbitrary: p) auto

definition off_edge :: "AStarNode \<Rightarrow> bool" where
  "off_edge n \<longleftrightarrow> node_x n \<noteq> 65535 \<and> node_y n \<noteq> 65535"

lemma u16_not_max: "w \<noteq> (65535 :: u16) \<Longrightarrow> uint w < 65535"
  using uint_u16 [of w] word_of_int_uint [of w] by (cases "uint w = 65535") auto

lemma step_direction_leads:
  assumes "d \<in> set allNeighbors" and "node_position F n = neighbor_position F m d" and "off_edge n" and "off_edge m"
  shows "\<exists>dir. step_direction (uint (node_x m) - uint (node_x n)) (uint (node_y m) - uint (node_y n)) = [dir] \<and>
    getNextPosition dir (node_position F m) = node_position F n"
proof -
  have d: "fst d \<in> {-1, 0, 1}" "snd d \<in> {-1, 0, 1}" "fst d \<noteq> 0 \<or> snd d \<noteq> 0"
    using assms(1) by (auto simp: allNeighbors_def)
  have w: "node_x n = node_x m + word_of_int (fst d)" "node_y n = node_y m + word_of_int (snd d)"
    using assms(2) by (simp_all add: node_position_def neighbor_position_def mkPosition_def)
  have x: "uint (node_x n) = uint (node_x m) + fst d"
    using neighbor_shift [OF d(1), of "node_x m"] u16_not_max [of "node_x n"] u16_not_max [of "node_x m"] assms(3,4) d(1)
    by (auto simp: w(1) off_edge_def split: if_splits)
  have y: "uint (node_y n) = uint (node_y m) + snd d"
    using neighbor_shift [OF d(2), of "node_y m"] u16_not_max [of "node_y n"] u16_not_max [of "node_y m"] assms(3,4) d(2)
    by (auto simp: w(2) off_edge_def split: if_splits)
  show ?thesis using d unfolding x y
    by (auto simp: step_direction_def node_position_def mkPosition_def w)
qed

lemma path_back_leads:
  assumes inv: "search_inv F s" and edge: "\<And>i. i < length (nodes s) \<Longrightarrow> off_edge (nodes s ! i)" and "i < length (nodes s)"
  shows "\<exists>ds is. path_back s (uint (node_x (nodes s ! i))) (uint (node_y (nodes s ! i))) (parent (nodes s ! i)) dirList = Some (dirList @ ds) \<and>
    walk (rev ds) (f_start F) = map (\<lambda>k. node_position F (nodes s ! k)) is \<and> length is = length ds \<and>
    sorted_wrt (\<lambda>j k. node_f (nodes s ! j) < node_f (nodes s ! k)) is \<and>
    (\<forall>k \<in> set is. 0 < k \<and> k < length (nodes s) \<and> node_f (nodes s ! k) \<le> node_f (nodes s ! i)) \<and> last (0 # is) = i"
  using assms(3)
proof (induction "nat (node_f (nodes s ! i))" arbitrary: i dirList rule: less_induct)
  case less
  have ok: "node_ok F s k (nodes s ! k)" if "k < length (nodes s)" for k using inv that by (simp add: search_inv_def)
  show ?case
  proof (cases "parent (nodes s ! i)")
    case None
    then have "i = 0" using ok [OF less.prems] by (simp add: node_ok_def)
    then show ?thesis using None by (intro exI [of _ "[]"]) (simp add: path_back.simps)
  next
    case (Some j)
    from ok [OF less.prems] Some obtain d where j: "0 < i" "j < length (nodes s)"
      "node_f (nodes s ! j) + 10 \<le> node_f (nodes s ! i)" "0 \<le> node_f (nodes s ! i)"
      "d \<in> set allNeighbors" "node_position F (nodes s ! i) = neighbor_position F (nodes s ! j) d"
      by (auto simp: node_ok_def)
    from step_direction_leads [OF j(5,6) edge [OF less.prems] edge [OF j(2)]] obtain dir where dir:
      "step_direction (uint (node_x (nodes s ! j)) - uint (node_x (nodes s ! i)))
        (uint (node_y (nodes s ! j)) - uint (node_y (nodes s ! i))) = [dir]"
      "getNextPosition dir (node_position F (nodes s ! j)) = node_position F (nodes s ! i)" by blast
    have "nat (node_f (nodes s ! j)) < nat (node_f (nodes s ! i))" using ok [OF j(2)] j(3) by (simp add: node_ok_def)
    from less.hyps [OF this j(2), of "dirList @ [dir]"] obtain ds "is" where IH:
      "path_back s (uint (node_x (nodes s ! j))) (uint (node_y (nodes s ! j))) (parent (nodes s ! j)) (dirList @ [dir]) = Some ((dirList @ [dir]) @ ds)"
      "walk (rev ds) (f_start F) = map (\<lambda>k. node_position F (nodes s ! k)) is" "length is = length ds"
      "sorted_wrt (\<lambda>j k. node_f (nodes s ! j) < node_f (nodes s ! k)) is"
      "\<forall>k \<in> set is. 0 < k \<and> k < length (nodes s) \<and> node_f (nodes s ! k) \<le> node_f (nodes s ! j)" "last (0 # is) = j" by blast
    have "nodes s \<noteq> []" using inv by (simp add: search_inv_def table_ok_def)
    then have "0 < length (nodes s)" by simp
    from ok [OF this] have start: "node_position F (nodes s ! 0) = f_start F" by (auto simp: node_ok_def split: option.splits)
    have "last (f_start F # walk (rev ds) (f_start F)) = node_position F (nodes s ! j)"
      using IH(6) start by (auto simp: IH(2) last_map split: if_splits)
    then have "walk (rev (dir # ds)) (f_start F) = map (\<lambda>k. node_position F (nodes s ! k)) (is @ [i])"
      by (simp add: walk_append IH(2) dir(2))
    moreover have "path_back s (uint (node_x (nodes s ! i))) (uint (node_y (nodes s ! i))) (parent (nodes s ! i)) dirList = Some (dirList @ dir # ds)"
      using IH(1) dir(1) Some by (subst path_back.simps) (simp add: Let_def)
    moreover have "sorted_wrt (\<lambda>j k. node_f (nodes s ! j) < node_f (nodes s ! k)) (is @ [i])"
      using IH(4,5) j(3) by (fastforce simp: sorted_wrt_append)
    moreover have "\<forall>k \<in> set (is @ [i]). 0 < k \<and> k < length (nodes s) \<and> node_f (nodes s ! k) \<le> node_f (nodes s ! i)"
      using IH(5) j(1,3) less.prems by force
    ultimately show ?thesis using IH(3) by (intro exI [of _ "dir # ds"] exI [of _ "is @ [i]"]) simp
  qed
qed

lemma path_back_path:
  assumes inv: "search_inv F s" and edge: "\<And>i. i < length (nodes s) \<Longrightarrow> off_edge (nodes s ! i)" and m: "m < length (nodes s)"
  obtains ds where "path_back s (uint (node_x (nodes s ! m))) (uint (node_y (nodes s ! m))) (parent (nodes s ! m)) dirList = Some (dirList @ ds)"
    and "length ds < MAX_NODES" and "distinct (walk (rev ds) (f_start F))"
    and "\<forall>p \<in> set (walk (rev ds) (f_start F)). f_tileCost F p \<noteq> None \<and> \<not> f_skips F p"
    and "last (f_start F # walk (rev ds) (f_start F)) = node_position F (nodes s ! m)"
proof -
  from path_back_leads [OF inv edge m, of dirList] obtain ds "is" where r:
    "path_back s (uint (node_x (nodes s ! m))) (uint (node_y (nodes s ! m))) (parent (nodes s ! m)) dirList = Some (dirList @ ds)"
    "walk (rev ds) (f_start F) = map (\<lambda>k. node_position F (nodes s ! k)) is" "length is = length ds"
    "sorted_wrt (\<lambda>j k. node_f (nodes s ! j) < node_f (nodes s ! k)) is"
    "\<forall>k \<in> set is. 0 < k \<and> k < length (nodes s) \<and> node_f (nodes s ! k) \<le> node_f (nodes s ! m)" "last (0 # is) = m" by blast
  have ok: "node_ok F s k (nodes s ! k)" if "k < length (nodes s)" for k using inv that by (simp add: search_inv_def)
  have dis: "distinct is" using r(4) by (induction "is") auto
  have "set is \<subseteq> {1..<length (nodes s)}" using r(5) by force
  then have "card (set is) \<le> card {1..<length (nodes s)}" by (intro card_mono) auto
  then have "length ds \<le> length (nodes s) - 1" using dis r(3) by (simp add: distinct_card)
  moreover have "length (nodes s) \<le> MAX_NODES" using inv by (simp add: search_inv_def)
  ultimately have len: "length ds < MAX_NODES" using m by linarith
  have inj: "inj_on (\<lambda>k. node_position F (nodes s ! k)) (set is)"
  proof (rule inj_onI)
    fix j k assume jk: "j \<in> set is" "k \<in> set is" "node_position F (nodes s ! j) = node_position F (nodes s ! k)"
    then have l: "j < length (nodes s)" "k < length (nodes s)" using r(5) by auto
    have "table_ok s" using inv by (simp add: search_inv_def)
    moreover from this have "nodesTable s ! j = nodesTable s ! k"
      using jk(3) l by (simp add: table_nth node_position_def mkPosition_def)
    ultimately show "j = k" using l table_nth_inj by blast
  qed
  have "distinct (walk (rev ds) (f_start F))" using dis inj by (simp add: r(2) distinct_map)
  moreover have "\<forall>p \<in> set (walk (rev ds) (f_start F)). f_tileCost F p \<noteq> None \<and> \<not> f_skips F p"
    using ok r(5) by (fastforce simp: r(2) node_ok_def split: option.splits)
  moreover have "last (f_start F # walk (rev ds) (f_start F)) = node_position F (nodes s ! m)"
  proof (cases "is = []")
    case True
    then have "m = 0" using r(6) by simp
    then show ?thesis using ok [OF m] True by (auto simp: r(2) node_ok_def split: option.splits)
  qed (use r(6) in \<open>simp add: r(2) last_map\<close>)
  ultimately show thesis using that [OF r(1) len] by blast
qed

text \<open>What a run of the finder gives.\<close>

definition good_path :: "finder \<Rightarrow> Direction list \<Rightarrow> bool" where
  "good_path F ds \<longleftrightarrow>
     (let path = walk (rev ds) (f_start F) in
      length ds < MAX_NODES \<and> distinct path \<and> (\<forall>p \<in> set path. f_tileCost F p \<noteq> None \<and> \<not> f_skips F p) \<and>
      accepted F (last (f_start F # path)))"

lemma run_finder_good:
  assumes costs: "costs_ok F" "0 \<le> c" "c \<le> 220"
    and edge: "\<forall>p. f_tileCost F p \<noteq> None \<longrightarrow> pos_x p \<noteq> 65535 \<and> pos_y p \<noteq> 65535"
      "pos_x (f_start F) \<noteq> 65535" "pos_y (f_start F) \<noteq> 65535"
  shows "run_finder (getBestNode b) (getNodeByPosition b) F c dirList = Some (False, dirList) \<or>
    (\<exists>ds. run_finder (getBestNode b) (getNodeByPosition b) F c dirList = Some (True, dirList @ ds) \<and> good_path F ds)"
proof -
  let ?start = "new_nodes (pos_x (f_start F)) (pos_y (f_start F)) c"
  have "found_ok F ?start None" by (simp add: found_ok_def)
  from builds.search_loop_returns [OF search_inv_start [OF costs] costs(1) this, of b 0]
  obtain r where r: "search_loop (getBestNode b) (getNodeByPosition b) F ?start None 0 = Some r"
    "\<And>s m. r = Some (s, m) \<Longrightarrow> search_inv F s \<and> found_ok F s (Some m)" by auto
  show ?thesis
  proof (cases r)
    case None
    then show ?thesis using r(1) by (simp add: run_finder_def)
  next
    case (Some sm)
    then obtain s m where sm: "r = Some (s, m)" by (cases sm) auto
    from r(2) [OF sm] have inv: "search_inv F s" and m: "m < length (nodes s)" "accepted F (node_position F (nodes s ! m))"
      by (simp_all add: found_ok_def)
    have "off_edge (nodes s ! i)" if "i < length (nodes s)" for i
    proof -
      have "node_ok F s i (nodes s ! i)" using inv that by (simp add: search_inv_def)
      then have "f_tileCost F (node_position F (nodes s ! i)) \<noteq> None \<or> node_position F (nodes s ! i) = f_start F"
        by (auto simp: node_ok_def split: option.splits)
      then have "pos_x (node_position F (nodes s ! i)) \<noteq> 65535 \<and> pos_y (node_position F (nodes s ! i)) \<noteq> 65535"
        using edge by metis
      then show ?thesis by (simp add: off_edge_def node_position_def mkPosition_def)
    qed
    from path_back_path [OF inv this m(1), of dirList] obtain ds where
      "path_back s (uint (node_x (nodes s ! m))) (uint (node_y (nodes s ! m))) (parent (nodes s ! m)) dirList = Some (dirList @ ds)"
      "good_path F ds" unfolding good_path_def Let_def using m(2) by metis
    then show ?thesis using r(1) sm by (simp add: run_finder_def)
  qed
qed

section \<open>Properties\<close>

lemma path_condition_meets:
  "fst (path_condition sight target start p fpp bestMatch) \<Longrightarrow>
    minTargetDist fpp \<le> max (getDistanceX target p) (getDistanceY target p) \<and>
    max (getDistanceX target p) (getDistanceY target p) \<le> maxTargetDist fpp \<and> (clearSight fpp \<longrightarrow> sight p target)"
  by (auto simp: path_condition_def Let_def split: if_splits)

text \<open>What a creature asks for: a way over tiles it can enter to a place at the right distance from the target.\<close>

definition leads_to :: "(Position \<Rightarrow> 't option) \<Rightarrow> (Position \<Rightarrow> Position \<Rightarrow> bool) \<Rightarrow> 't walker \<Rightarrow> Position \<Rightarrow> FindPathParams \<Rightarrow> Direction list \<Rightarrow> bool" where
  "leads_to getTile sight creature target fpp ds \<longleftrightarrow>
     (let path = walk (rev ds) (own_position creature); goal = last (own_position creature # path);
          dist = max (getDistanceX target goal) (getDistanceY target goal) in
      length ds < 512 \<and> distinct path \<and> (\<forall>p \<in> set path. canWalkTo getTile (Some creature) p \<noteq> None) \<and>
      minTargetDist fpp \<le> dist \<and> dist \<le> maxTargetDist fpp \<and> (clearSight fpp \<longrightarrow> sight goal target))"

lemma canWalkTo_tile: "canWalkTo getTile creature p \<noteq> None \<Longrightarrow> getTile p \<noteq> None"
  by (auto simp: canWalkTo_def split: option.splits if_splits)

lemma good_path_leads:
  assumes "good_path F ds" and "f_start F = own_position c"
    and "\<And>p. f_tileCost F p \<noteq> None \<Longrightarrow> canWalkTo getTile (Some c) p \<noteq> None"
    and "\<And>p bestMatch. \<exists>start. f_accepts F p bestMatch = path_condition sight target start p fpp bestMatch"
  shows "leads_to getTile sight c target fpp ds"
proof -
  let ?goal = "last (own_position c # walk (rev ds) (own_position c))"
  from assms(1,2) have "accepted F ?goal" by (simp add: good_path_def Let_def)
  then obtain bm start where "fst (path_condition sight target start ?goal fpp bm)"
    using assms(4) unfolding accepted_def by metis
  note path_condition_meets [OF this]
  then show ?thesis using assms(1,2,3) by (simp add: leads_to_def good_path_def MAX_NODES_def Let_def)
qed

lemma finder_leads:
  assumes edge: "\<forall>p. getTile p \<noteq> None \<longrightarrow> pos_x p \<noteq> 65535 \<and> pos_y p \<noteq> 65535"
    "pos_x (own_position c) \<noteq> 65535" "pos_y (own_position c) \<noteq> 65535"
    and run: "result = run_finder (getBestNode b) (getNodeByPosition b) F (getTileWalkCost (Some c) tile) []"
    and F: "f_start F = own_position c"
      "f_tileCost F = (\<lambda>p. map_option (\<lambda>t. getTileWalkCost (Some c) (Some t)) (canWalkTo getTile (Some c) p))"
      "\<And>p bestMatch. \<exists>start. f_accepts F p bestMatch = path_condition sight target start p fpp bestMatch"
  shows "result = Some (False, []) \<or> (\<exists>ds. result = Some (True, ds) \<and> leads_to getTile sight c target fpp ds)"
proof -
  have costs: "costs_ok F" using getTileWalkCost_bounds by (auto simp: costs_ok_def F(2))
  have tiles: "\<forall>p. f_tileCost F p \<noteq> None \<longrightarrow> pos_x p \<noteq> 65535 \<and> pos_y p \<noteq> 65535"
  proof (intro allI impI)
    fix p assume "f_tileCost F p \<noteq> None"
    then have "canWalkTo getTile (Some c) p \<noteq> None" by (simp add: F(2))
    from canWalkTo_tile [OF this] edge(1) show "pos_x p \<noteq> 65535 \<and> pos_y p \<noteq> 65535" by blast
  qed
  note bounds = getTileWalkCost_bounds [of "Some c" tile]
  from run_finder_good [OF costs conjunct1 [OF bounds] conjunct2 [OF bounds] tiles, of b "[]"] edge(2,3)
  consider "result = Some (False, [])" | ds where "result = Some (True, ds)" "good_path F ds"
    by (auto simp: run F(1))
  then show ?thesis
  proof cases
    case 2
    have "leads_to getTile sight c target fpp ds"
      by (rule good_path_leads [OF 2(2) F(1) _ F(3)]) (simp add: F(2))
    with 2(1) show ?thesis by simp
  qed simp
qed

text \<open>C20: The search for a path always returns.  When it succeeds, the directions (the last one first) lead
  from the creature over tiles it can enter, no tile twice and fewer than 512, to a position at the
  wanted distance from the target; otherwise the list is left alone.  No tile may lie
  on the last column or row of the map.\<close>

theorem path_to_target:
  assumes "\<forall>p. getTile p \<noteq> None \<longrightarrow> pos_x p \<noteq> 65535 \<and> pos_y p \<noteq> 65535"
    and "pos_x (own_position creature) \<noteq> 65535" and "pos_y (own_position creature) \<noteq> 65535"
  shows "getPathTo b getTile sight creature target fpp [] = Some (False, []) \<or>
    (\<exists>ds. getPathTo b getTile sight creature target fpp [] = Some (True, ds) \<and> leads_to getTile sight creature target fpp ds)"
proof (cases "maxSearchDist fpp \<noteq> 0 \<or> keepDistance fpp")
  case True
  then have eq: "getPathTo b getTile sight creature target fpp [] = getPathMatchingCond b getTile sight creature target target fpp []"
    by (simp add: getPathTo_def)
  show ?thesis unfolding eq getPathMatchingCond_def Let_def by (rule finder_leads [OF assms refl]) auto
next
  case False
  then have eq: "getPathTo b getTile sight creature target fpp [] = getPathMatching b getTile sight (Some creature) target target fpp []"
    by (simp add: getPathTo_def)
  show ?thesis unfolding eq getPathMatching_def Let_def option.case by (rule finder_leads [OF assms refl]) auto
qed

definition sample_map :: "Position \<Rightarrow> unit option" where
  "sample_map p = (if pos_x p < 20 \<and> pos_y p = 2 then Some () else None)"

definition sample_walker :: "unit walker" where
  "sample_walker = \<lparr>isRemoved = False, own_position = mkPosition 2 2 7, own_tile = None, tileAdmits = (\<lambda>_. True),
     seesCreatureOn = (\<lambda>_. False), fieldCombat = (\<lambda>_. None), isImmune = (\<lambda>_. False), hasFieldCondition = (\<lambda>_. False),
     isMonster = False, canWalkOnFieldType = (\<lambda>_. True)\<rparr>"

definition sample_params :: FindPathParams where
  "sample_params = \<lparr>fullPathSearch = True, clearSight = False, allowDiagonal = True, keepDistance = False,
     maxSearchDist = 0, minTargetDist = 0, maxTargetDist = 1\<rparr>"

lemmas run_simps = getBestNode_scalar_def getNodeByPosition_scalar_def total_cost_def int32_def int32_max_def Let_def node_position_def
  neighbors_of_def allNeighbors_def mkPosition_def neighbor_position_def visit_def table_key_def createOpenNode_def MAX_NODES_def
  getMapWalkCost_def heuristic_def MAP_DIAGONALWALKCOST_def MAP_NORMALWALKCOST_def getX_def getY_def closeNode_def openNode_def

definition sample_finder :: finder where
  "sample_finder = \<lparr>f_accepts = (\<lambda>p. path_condition (\<lambda>_ _. True) (mkPosition 5 2 7) p p sample_params), f_skips = (\<lambda>_. False),
     f_tileCost = (\<lambda>p. map_option (\<lambda>t. getTileWalkCost (Some sample_walker) (Some t)) (canWalkTo sample_map (Some sample_walker) p)),
     f_target = mkPosition 5 2 7, f_start = mkPosition 2 2 7, f_unlimited = False\<rparr>"

lemma sample_finder_simps:
  "f_accepts sample_finder = (\<lambda>p bm. (\<bar>5 - getX p\<bar> \<le> 1 \<and> \<bar>2 - getY p\<bar> \<le> 1, bm))" "f_skips sample_finder p = False"
  "f_tileCost sample_finder = (\<lambda>p. if pos_x p < 20 \<and> pos_y p = 2 then Some 0 else None)" "f_target sample_finder = mkPosition 5 2 7"
  "f_start sample_finder = mkPosition 2 2 7" "f_unlimited sample_finder = False"
proof -
  have t: "getX (mkPosition 5 2 7) = 5" "getY (mkPosition 5 2 7) = 2" by (simp_all add: getX_def getY_def mkPosition_def)
  show "f_accepts sample_finder = (\<lambda>p bm. (\<bar>5 - getX p\<bar> \<le> 1 \<and> \<bar>2 - getY p\<bar> \<le> 1, bm))"
    by (auto simp: sample_finder_def path_condition_def sample_params_def isInRange_def getDistanceX_def getDistanceY_def
        getOffsetX_def getOffsetY_def Let_def fun_eq_iff t)
  show "f_tileCost sample_finder = (\<lambda>p. if pos_x p < 20 \<and> pos_y p = 2 then Some 0 else None)"
    by (auto simp: sample_finder_def canWalkTo_def sample_walker_def sample_map_def getTileWalkCost_def fun_eq_iff)
qed (simp_all add: sample_finder_def)

lemma sample_path:
  "getPathTo Scalar sample_map (\<lambda>_ _. True) sample_walker (mkPosition 5 2 7) sample_params [] = Some (True, [DIRECTION_EAST, DIRECTION_EAST])"
proof -
  have "\<exists>s. search_loop getBestNode_scalar getNodeByPosition_scalar sample_finder (new_nodes 2 2 0) None 0 = Some (Some (s, 3)) \<and>
      map (\<lambda>n. (parent n, node_x n, node_y n)) (nodes s) = [(None, 2, 2), (Some 0, 1, 2), (Some 0, 3, 2), (Some 2, 4, 2)]"
    apply (subst search_loop.simps, simp add: sample_finder_simps run_simps new_nodes_def cong: option.case_cong if_cong)
    apply (subst search_loop.simps, simp add: sample_finder_simps run_simps cong: option.case_cong if_cong)
    apply (subst search_loop.simps, simp add: sample_finder_simps run_simps cong: option.case_cong if_cong)
    done
  then obtain s where s: "search_loop getBestNode_scalar getNodeByPosition_scalar sample_finder (new_nodes 2 2 0) None 0 = Some (Some (s, 3))"
    "map (\<lambda>n. (parent n, node_x n, node_y n)) (nodes s) = [(None, 2, 2), (Some 0, 1, 2), (Some 0, 3, 2), (Some 2, 4, 2)]" by (elim exE conjE) (rule that)
  have "length (nodes s) = 4" using arg_cong [OF s(2), of length] by simp
  then have n: "parent (nodes s ! 0) = None" "node_x (nodes s ! 0) = 2" "node_y (nodes s ! 0) = 2"
    "parent (nodes s ! 2) = Some 0" "node_x (nodes s ! 2) = 3" "node_y (nodes s ! 2) = 2"
    "parent (nodes s ! 3) = Some 2" "node_x (nodes s ! 3) = 4" "node_y (nodes s ! 3) = 2"
    using arg_cong [OF s(2), of "\<lambda>l. l ! 0"] arg_cong [OF s(2), of "\<lambda>l. l ! 2"] arg_cong [OF s(2), of "\<lambda>l. l ! 3"] by simp_all
  have "path_back s 2 2 None ds = Some ds" for ds by (subst path_back.simps) simp
  moreover have "path_back s 3 2 (Some 0) ds = path_back s 2 2 None (ds @ [DIRECTION_EAST])" for ds
    by (subst path_back.simps) (simp add: n step_direction_def)
  moreover have "path_back s 4 2 (Some 2) ds = path_back s 3 2 (Some 0) (ds @ [DIRECTION_EAST])" for ds
    by (subst path_back.simps) (simp add: n step_direction_def)
  ultimately have "path_back s 4 2 (Some 2) [] = Some [DIRECTION_EAST, DIRECTION_EAST]" by simp
  then have "run_finder getBestNode_scalar getNodeByPosition_scalar sample_finder 0 [] = Some (True, [DIRECTION_EAST, DIRECTION_EAST])"
    by (simp add: run_finder_def sample_finder_simps mkPosition_def s(1) n)
  moreover have "getPathTo Scalar sample_map (\<lambda>_ _. True) sample_walker (mkPosition 5 2 7) sample_params [] =
      run_finder getBestNode_scalar getNodeByPosition_scalar sample_finder 0 []"
  proof -
    have "maxSearchDist sample_params = 0" "\<not> keepDistance sample_params" "own_position sample_walker = mkPosition 2 2 7"
      by (simp_all add: sample_params_def sample_walker_def)
    moreover have "getTileWalkCost (Some sample_walker) t = 0" for t
      by (simp add: getTileWalkCost_def sample_walker_def split: option.split)
    ultimately show ?thesis
      by (simp add: getPathTo_def getPathMatching_def sample_finder_def getBestNode.simps getNodeByPosition.simps Let_def)
  qed
  ultimately show ?thesis by simp
qed

theorem path_to_target_witness:
  "getPathTo Scalar sample_map (\<lambda>_ _. True) sample_walker (mkPosition 5 2 7) sample_params [] = Some (True, [DIRECTION_EAST, DIRECTION_EAST]) \<and>
    leads_to sample_map (\<lambda>_ _. True) sample_walker (mkPosition 5 2 7) sample_params [DIRECTION_EAST, DIRECTION_EAST]"
proof -
  have "\<forall>p. sample_map p \<noteq> None \<longrightarrow> pos_x p \<noteq> 65535 \<and> pos_y p \<noteq> 65535"
    by (auto simp: sample_map_def split: if_splits)
  moreover have "pos_x (own_position sample_walker) \<noteq> 65535" "pos_y (own_position sample_walker) \<noteq> 65535"
    by (simp_all add: sample_walker_def mkPosition_def)
  ultimately show ?thesis
    using path_to_target [of sample_map sample_walker Scalar "\<lambda>_ _. True" "mkPosition 5 2 7" sample_params] sample_path by simp
qed

text \<open>Every build of the node store gives the same answers: the node at a position is the same, and the
  best nodes chosen cost the same, namely the least of all open nodes.\<close>

theorem builds_agree:
  assumes "search_inv F s"
  shows "getNodeByPosition b x y s = getNodeByPosition Scalar x y s \<and>
    (case (getBestNode b s, getBestNode Scalar s) of
       (None, None) \<Rightarrow> \<forall>i. \<not> openNodes s i
     | (Some i, Some j) \<Rightarrow> openNodes s i \<and> openNodes s j \<and> node_f (nodes s ! i) + node_g (nodes s ! i) = node_f (nodes s ! j) + node_g (nodes s ! j) \<and>
         (\<forall>k. openNodes s k \<longrightarrow> node_f (nodes s ! i) + node_g (nodes s ! i) \<le> node_f (nodes s ! k) + node_g (nodes s ! k))
     | _ \<Rightarrow> False)"
proof
  have t: "table_ok s" "open_ok s" using assms by (simp_all add: search_inv_def)
  show "getNodeByPosition b x y s = getNodeByPosition Scalar x y s"
  proof (cases "getNodeByPosition Scalar x y s")
    case None
    from builds.look_None [OF t(1) None] builds.look_Some [OF t(1), of b x y] t(1) show ?thesis
      by (cases "getNodeByPosition b x y s") (auto simp: None table_ok_def image_iff in_set_conv_nth)
  next
    case (Some i)
    from builds.look_Some [OF t(1) Some] builds.look_unique [OF t(1), of i b] show ?thesis by (auto simp: Some)
  qed
  have tc: "total_cost (nodes s ! k) = node_f (nodes s ! k) + node_g (nodes s ! k)" if "openNodes s k" for k
  proof -
    have "k < length (nodes s)" "length (nodes s) \<le> MAX_NODES" using t(2) that assms by (simp_all add: open_ok_def search_inv_def)
    moreover from this(1) have "node_ok F s k (nodes s ! k)" using assms by (simp add: search_inv_def)
    ultimately show ?thesis using total_cost_exact(1) [of F s k "nodes s ! k"] by simp
  qed
  note none = builds.best_None [OF t(2)] and some = builds.best_Some [OF t(2)]
  show "case (getBestNode b s, getBestNode Scalar s) of
       (None, None) \<Rightarrow> \<forall>i. \<not> openNodes s i
     | (Some i, Some j) \<Rightarrow> openNodes s i \<and> openNodes s j \<and> node_f (nodes s ! i) + node_g (nodes s ! i) = node_f (nodes s ! j) + node_g (nodes s ! j) \<and>
         (\<forall>k. openNodes s k \<longrightarrow> node_f (nodes s ! i) + node_g (nodes s ! i) \<le> node_f (nodes s ! k) + node_g (nodes s ! k))
     | _ \<Rightarrow> False"
  proof (cases "getBestNode b s")
    case None
    have "getBestNode Scalar s = None" using some [of Scalar] none [OF None] by (cases "getBestNode Scalar s") auto
    then show ?thesis using none [OF None] None by simp
  next
    case (Some i)
    note i = some [OF Some]
    then obtain j where Some': "getBestNode Scalar s = Some j" using none [of Scalar i] by (cases "getBestNode Scalar s") auto
    note j = some [OF Some']
    have "total_cost (nodes s ! i) = total_cost (nodes s ! j)" using i j by (meson order_antisym)
    moreover have "\<forall>k. openNodes s k \<longrightarrow> node_f (nodes s ! i) + node_g (nodes s ! i) \<le> node_f (nodes s ! k) + node_g (nodes s ! k)"
      using i tc by metis
    ultimately show ?thesis using i j tc [of i] tc [of j] by (simp add: Some Some')
  qed
qed

theorem builds_agree_witness:
  "getNodeByPosition AVX2 2 2 (new_nodes 2 2 0) = getNodeByPosition Scalar 2 2 (new_nodes 2 2 0)"
proof -
  let ?F = "\<lparr>f_accepts = (\<lambda>_ b. (False, b)), f_skips = (\<lambda>_. False), f_tileCost = (\<lambda>_. None), f_target = mkPosition 2 2 7,
    f_start = mkPosition 2 2 7, f_unlimited = False\<rparr>"
  have "search_inv ?F (new_nodes 2 2 0)" using search_inv_start [of ?F 0] by (simp add: costs_ok_def mkPosition_def)
  then show ?thesis using builds_agree [of ?F "new_nodes 2 2 0" AVX2 2 2] by blast
qed

lemma isInRange_self: "isInRange target p p fpp = isInRange target p p (fpp\<lparr>fullPathSearch := True\<rparr>)"
  by (auto simp: isInRange_def getOffsetX_def getOffsetY_def Let_def)

lemma path_condition_cong:
  assumes "isInRange target start p fpp = isInRange target start p fpp'" and "clearSight fpp = clearSight fpp'"
    and "minTargetDist fpp = minTargetDist fpp'" and "maxTargetDist fpp = maxTargetDist fpp'"
  shows "path_condition sight target start p fpp bestMatch = path_condition sight target start p fpp' bestMatch"
  by (simp only: path_condition_def assms)

text \<open>\<open>getPathMatching\<close> ignores \<open>fullPathSearch\<close>: what it passes to the condition as the start is a reference to
  the position under test, so every search is a full one.\<close>

theorem getPathMatching_always_full:
  "getPathMatching b getTile sight creature targetPos conditionTarget fpp dirList =
   getPathMatching b getTile sight creature targetPos conditionTarget (fpp\<lparr>fullPathSearch := True\<rparr>) dirList"
proof -
  have "path_condition sight conditionTarget p p fpp = path_condition sight conditionTarget p p (fpp\<lparr>fullPathSearch := True\<rparr>)" for p
    by (rule ext, rule path_condition_cong) (simp_all add: isInRange_self [of conditionTarget p fpp])
  then show ?thesis by (simp add: getPathMatching_def)
qed

end
