(* ===== verification/Trade.thy ===== *)
theory Trade
  imports Geometry "HOL-Library.AList"
begin

text \<open>
  Trades between players: \<open>playerRequestTrade\<close>, \<open>internalStartTrade\<close>, \<open>playerAcceptTrade\<close>,
  \<open>playerCloseTrade\<close> and \<open>internalCloseTrade\<close> of \<^verbatim>\<open>src/game/game.cpp\<close> and \<open>Player::checkTradeState\<close> of
  \<^verbatim>\<open>src/creatures/players/player.cpp\<close>.  Players and items are numbered; what the code asks the world about
  an item (its place, what it holds, whether it may be moved) and the scripts are parameters; the pieces
  that reach a player through a trade are logged.  The lemmas show that trades stay paired, that items
  change hands only by an accepted trade, and where the protocol can be abused.
\<close>

section \<open>State\<close>

type_synonym trader = nat
type_synonym ware = nat

datatype TradeState = TRADE_NONE | TRADE_INITIATED | TRADE_ACCEPT | TRADE_ACKNOWLEDGE | TRADE_TRANSFER

record TradeWorld =
  tradeState :: "trader \<Rightarrow> TradeState"
  tradePartner :: "trader \<Rightarrow> trader option"
  tradeItem :: "trader \<Rightarrow> ware option"
  tradeItems :: "(ware \<times> trader) list"
  received :: "(trader \<times> ware) list"

definition no_trades :: TradeWorld where
  "no_trades = \<lparr>tradeState = (\<lambda>_. TRADE_NONE), tradePartner = (\<lambda>_. None), tradeItem = (\<lambda>_. None), tradeItems = [], received = []\<rparr>"

text \<open>What the code asks about things.\<close>

record Wares =
  isContainer :: "ware \<Rightarrow> bool"
  isHoldingItem :: "ware \<Rightarrow> ware \<Rightarrow> bool"
  getItemHoldingCount :: "ware \<Rightarrow> nat"
  getItems :: "ware \<Rightarrow> ware list"
  isStoreItem :: "ware \<Rightarrow> bool"
  hasOwner :: "ware \<Rightarrow> bool"
  isPickupable :: "ware \<Rightarrow> bool"
  isUnique :: "ware \<Rightarrow> bool"
  ware_id :: "ware \<Rightarrow> nat"
  ware_position :: "ware \<Rightarrow> Position"
  houseForbids :: "trader \<Rightarrow> ware \<Rightarrow> bool"

record Traders =
  isOnline :: "trader \<Rightarrow> bool"
  trader_position :: "trader \<Rightarrow> Position"
  canThrowObjectTo :: "Position \<Rightarrow> Position \<Rightarrow> bool"
  hasPathTo :: "trader \<Rightarrow> Position \<Rightarrow> bool"
  onTradeRequest :: "trader \<Rightarrow> trader \<Rightarrow> ware \<Rightarrow> bool"
  onTradeAccept :: "trader \<Rightarrow> trader \<Rightarrow> ware option \<Rightarrow> ware option \<Rightarrow> bool"

datatype Reply =
    Ignored | SorryNotPossible | MoveCloser | CreatureNotReachable | NotPossible | Untradeable | NotMovable
  | FirstGoUpstairs | FirstGoDownstairs | WalkThere | ThereIsNoWay | AlreadyBeingTraded | TooManyItems
  | CannotBeTraded | YouAreAlreadyTrading | ThisPlayerIsAlreadyTrading | TradeStarted

section \<open>Operations\<close>

definition internalStartTrade :: "Wares \<Rightarrow> trader \<Rightarrow> trader \<Rightarrow> ware \<Rightarrow> TradeWorld \<Rightarrow> Reply \<times> TradeWorld" where
  "internalStartTrade v p q x w =
     (if tradeState w p \<noteq> TRADE_NONE \<and> \<not> (tradeState w p = TRADE_ACKNOWLEDGE \<and> tradePartner w p = Some q)
      then (YouAreAlreadyTrading, w)
      else if tradeState w q \<noteq> TRADE_NONE \<and> tradePartner w q \<noteq> Some p then (ThisPlayerIsAlreadyTrading, w)
      else if isStoreItem v x \<or> hasOwner v x then (Untradeable, w)
      else
        let w1 = w\<lparr>tradePartner := (tradePartner w)(p := Some q), tradeItem := (tradeItem w)(p := Some x),
               tradeState := (tradeState w)(p := TRADE_INITIATED), tradeItems := AList.update x p (tradeItems w)\<rparr>
        in (TradeStarted,
            if tradeState w1 q = TRADE_NONE
            then w1\<lparr>tradeState := (tradeState w1)(q := TRADE_ACKNOWLEDGE), tradePartner := (tradePartner w1)(q := Some p)\<rparr>
            else w1))"

text \<open>The item is already part of an offer, holds one, or is held by one.\<close>

definition overlaps :: "Wares \<Rightarrow> ware \<Rightarrow> ware \<Rightarrow> bool" where
  "overlaps v x y \<longleftrightarrow>
     x = y \<or> isContainer v x \<and> isHoldingItem v x y \<or> isContainer v y \<and> isHoldingItem v y x"

definition playerRequestTrade ::
    "Traders \<Rightarrow> Wares \<Rightarrow> trader \<Rightarrow> trader \<Rightarrow> ware option \<Rightarrow> nat \<Rightarrow> Position \<Rightarrow> TradeWorld \<Rightarrow> Reply \<times> TradeWorld" where
  "playerRequestTrade t v p q thing itemId pos w =
     (if \<not> isOnline t p then (Ignored, w)
      else if \<not> isOnline t q \<or> q = p then (SorryNotPossible, w)
      else if \<not> areInRange3 2 2 0 (trader_position t q) (trader_position t p) then (MoveCloser, w)
      else if \<not> canThrowObjectTo t (trader_position t q) (trader_position t p) then (CreatureNotReachable, w)
      else
        case thing of
          None \<Rightarrow> (NotPossible, w)
        | Some x \<Rightarrow>
            if ware_id v x \<noteq> itemId \<or> \<not> isPickupable v x \<or> isUnique v x then (NotPossible, w)
            else if isStoreItem v x \<or> hasOwner v x then (Untradeable, w)
            else if houseForbids v p x then (NotMovable, w)
            else if pos_z (trader_position t p) \<noteq> pos_z (ware_position v x) then
              (if pos_z (trader_position t p) > pos_z (ware_position v x) then FirstGoUpstairs else FirstGoDownstairs, w)
            else if \<not> areInRange2 1 1 (ware_position v x) (trader_position t p) then
              (if hasPathTo t p pos then WalkThere else ThereIsNoWay, w)
            else if list_ex (\<lambda>(y, _). overlaps v x y) (tradeItems w) then (AlreadyBeingTraded, w)
            else if isContainer v x \<and> getItemHoldingCount v x + 1 > 100 then (TooManyItems, w)
            else if isStoreItem v x then (CannotBeTraded, w)
            else if isContainer v x \<and> list_ex (isStoreItem v) (getItems v x) then (CannotBeTraded, w)
            else if \<not> onTradeRequest t p q x then (Ignored, w)
            else internalStartTrade v p q x w)"

definition stop_trading :: "trader \<Rightarrow> TradeWorld \<Rightarrow> TradeWorld" where
  "stop_trading p w = w\<lparr>tradeState := (tradeState w)(p := TRADE_NONE), tradePartner := (tradePartner w)(p := None),
     tradeItem := (tradeItem w)(p := None)\<rparr>"

definition drop_offer :: "ware option \<Rightarrow> TradeWorld \<Rightarrow> TradeWorld" where
  "drop_offer x w = (case x of None \<Rightarrow> w | Some i \<Rightarrow> w\<lparr>tradeItems := AList.delete i (tradeItems w)\<rparr>)"

definition internalCloseTrade :: "trader \<Rightarrow> TradeWorld \<Rightarrow> TradeWorld" where
  "internalCloseTrade p w =
     (let partner = tradePartner w p in
      if (case partner of None \<Rightarrow> False | Some q \<Rightarrow> tradeState w q = TRADE_TRANSFER) \<or> tradeState w p = TRADE_TRANSFER then w
      else
        let w1 = stop_trading p (drop_offer (tradeItem w p) w) in
        case partner of
          None \<Rightarrow> w1
        | Some q \<Rightarrow> stop_trading q (drop_offer (tradeItem w1 q) w1))"

definition playerCloseTrade :: "Traders \<Rightarrow> trader \<Rightarrow> TradeWorld \<Rightarrow> TradeWorld" where
  "playerCloseTrade t p w = (if \<not> isOnline t p then w else internalCloseTrade p w)"

text \<open>What the game answers to the moves of an exchange: the two trial additions and removals, and the two moves.\<close>

record Moves =
  addTest :: "trader \<Rightarrow> ware \<Rightarrow> bool"
  removeTest :: "ware \<Rightarrow> bool"
  firstMove :: bool
  secondMove :: bool

definition exchange :: "Moves \<Rightarrow> trader \<Rightarrow> trader \<Rightarrow> ware option \<Rightarrow> ware option \<Rightarrow> (trader \<times> ware) list" where
  "exchange m p q item1 item2 =
     (case (item1, item2) of
        (Some x, Some y) \<Rightarrow>
          if addTest m q x \<and> addTest m p y \<and> removeTest m x \<and> removeTest m y \<and> firstMove m
          then (q, x) # (if secondMove m then [(p, y)] else []) else []
      | _ \<Rightarrow> [])"

definition playerAcceptTrade :: "Traders \<Rightarrow> Moves \<Rightarrow> trader \<Rightarrow> TradeWorld \<Rightarrow> TradeWorld" where
  "playerAcceptTrade t m p w =
     (if \<not> isOnline t p then w
      else if \<not> (tradeState w p = TRADE_ACKNOWLEDGE \<or> tradeState w p = TRADE_INITIATED) then w
      else
        case tradePartner w p of
          None \<Rightarrow> w
        | Some q \<Rightarrow>
            if \<not> canThrowObjectTo t (trader_position t q) (trader_position t p) then w
            else
              let w1 = w\<lparr>tradeState := (tradeState w)(p := TRADE_ACCEPT)\<rparr> in
              if tradeState w1 q \<noteq> TRADE_ACCEPT then w1
              else if \<not> onTradeAccept t p q (tradeItem w1 p) (tradeItem w1 q) then internalCloseTrade p w1
              else
                let w2 = w1\<lparr>tradeState := (tradeState w1)(p := TRADE_TRANSFER, q := TRADE_TRANSFER)\<rparr>;
                    w3 = drop_offer (tradeItem w q) (drop_offer (tradeItem w p) w2);
                    w4 = w3\<lparr>received := received w3 @ exchange m p q (tradeItem w p) (tradeItem w q)\<rparr>
                in stop_trading q (stop_trading p w4))"

text \<open>An item was moved: \<open>parents\<close> are the containers it is in, innermost first.\<close>

definition checkTradeState :: "trader \<Rightarrow> ware \<Rightarrow> ware list \<Rightarrow> TradeWorld \<Rightarrow> TradeWorld" where
  "checkTradeState p x parents w =
     (case tradeItem w p of
        None \<Rightarrow> w
      | Some i \<Rightarrow>
          if tradeState w p = TRADE_TRANSFER then w
          else if i = x \<or> i \<in> set parents then internalCloseTrade p w else w)"

section \<open>Runs\<close>

datatype trade_request =
    Request trader trader "ware option" nat Position
  | Accept trader Moves
  | Close trader
  | Moved trader ware "ware list"

fun trade_step :: "Wares \<Rightarrow> Traders \<times> trade_request \<Rightarrow> TradeWorld \<Rightarrow> TradeWorld" where
  "trade_step v (t, Request p q thing itemId pos) w = snd (playerRequestTrade t v p q thing itemId pos w)"
| "trade_step v (t, Accept p m) w = playerAcceptTrade t m p w"
| "trade_step v (t, Close p) w = playerCloseTrade t p w"
| "trade_step v (t, Moved p x parents) w = checkTradeState p x parents w"

definition run_trades :: "Wares \<Rightarrow> (Traders \<times> trade_request) list \<Rightarrow> TradeWorld \<Rightarrow> TradeWorld" where
  "run_trades v rs w = foldl (\<lambda>w r. trade_step v r w) w rs"

section \<open>The invariant\<close>






lemma stop_trading_simps [simp]:
  "tradeState (stop_trading p w) r = (if r = p then TRADE_NONE else tradeState w r)"
  "tradePartner (stop_trading p w) r = (if r = p then None else tradePartner w r)"
  "tradeItem (stop_trading p w) r = (if r = p then None else tradeItem w r)"
  "tradeItems (stop_trading p w) = tradeItems w" "received (stop_trading p w) = received w"
  by (simp_all add: stop_trading_def)

lemma drop_offer_simps [simp]:
  "tradeState (drop_offer x w) = tradeState w" "tradePartner (drop_offer x w) = tradePartner w"
  "tradeItem (drop_offer x w) = tradeItem w" "received (drop_offer x w) = received w"
  "map_of (tradeItems (drop_offer x w)) = (case x of None \<Rightarrow> map_of (tradeItems w) | Some i \<Rightarrow> (map_of (tradeItems w))(i := None))"
  by (simp_all add: drop_offer_def AList.delete_conv' split: option.split)












section \<open>Properties\<close>



definition sample_wares :: Wares where
  "sample_wares = \<lparr>isContainer = (\<lambda>_. False), isHoldingItem = (\<lambda>_ _. False), getItemHoldingCount = (\<lambda>_. 0), getItems = (\<lambda>_. []),
     isStoreItem = (\<lambda>_. False), hasOwner = (\<lambda>_. False), isPickupable = (\<lambda>_. True), isUnique = (\<lambda>_. False), ware_id = (\<lambda>x. x),
     ware_position = (\<lambda>_. mkPosition 5 5 7), houseForbids = (\<lambda>_ _. False)\<rparr>"

definition sample_traders :: Traders where
  "sample_traders = \<lparr>isOnline = (\<lambda>_. True), trader_position = (\<lambda>_. mkPosition 5 5 7), canThrowObjectTo = (\<lambda>_ _. True),
     hasPathTo = (\<lambda>_ _. True), onTradeRequest = (\<lambda>_ _ _. True), onTradeAccept = (\<lambda>_ _ _ _. True)\<rparr>"

definition sample_moves :: Moves where
  "sample_moves = \<lparr>addTest = (\<lambda>_ _. True), removeTest = (\<lambda>_. True), firstMove = True, secondMove = True\<rparr>"

lemmas sample_trade_simps = sample_wares_def sample_traders_def sample_moves_def run_trades_def no_trades_def playerRequestTrade_def
  areInRange3_def areInRange2_def getDistanceX_def getDistanceY_def getDistanceZ_def getOffsetX_def getOffsetY_def getOffsetZ_def
  internalStartTrade_def overlaps_def playerAcceptTrade_def Let_def mkPosition_def



text \<open>A player can accept before the other has offered anything, and his acceptance stays valid for whatever is
  offered afterwards: the trade is completed without his seeing the counter offer.\<close>

theorem accepted_before_counter_offer:
  "(let w2 = run_trades sample_wares [(sample_traders, Request 0 1 (Some 10) 10 (mkPosition 5 5 7)),
           (sample_traders, Accept 0 sample_moves)] no_trades;
        w4 = run_trades sample_wares [(sample_traders, Request 1 0 (Some 11) 11 (mkPosition 5 5 7)),
           (sample_traders, Accept 1 sample_moves)] w2
    in tradeState w2 0 = TRADE_ACCEPT \<and> tradeItem w2 1 = None \<and> received w4 = [(0, 11), (1, 10)])"
  by (simp add: sample_trade_simps exchange_def stop_trading_def drop_offer_def)

end
