(* ===== verification/Advancement.thy ===== *)
theory Advancement
  imports Prelude
begin

text \<open>
  The level of a player: \<open>addExperience\<close>, \<open>removeExperience\<close> and the level loss of \<open>death\<close> of
  \<^verbatim>\<open>src/creatures/players/player.cpp\<close>.  Experience is a 64-bit word.  What scripts make of an amount
  and the losses computed in floating point are parameters; a percentage is the pair of numbers it is
  computed from.  Messages, speed and party updates are left out.  The lemmas give the formula of the
  experience a level needs and the last level whose requirement fits in 64 bits, and show that the
  level always fits the experience, that the loops end, that health, mana and capacity follow the
  level through gains and deaths, and that \<open>removeExperience\<close> does not keep them so.
\<close>

section \<open>Experience and levels\<close>

definition getExpForLevel :: "nat \<Rightarrow> u64" where
  "getExpForLevel level = (((of_nat level - 6) * of_nat level + 17) * of_nat level - 12) div 6 * 100"

record Vocation =
  voc_id :: nat
  hpGain :: int
  manaGain :: int
  capGain :: int

definition VOCATION_NONE :: nat where "VOCATION_NONE = 0"

record Rules =
  rookSystem :: bool
  minLevelLeaveRook :: nat
  noVocation :: "Vocation option"

record Character =
  level :: nat
  experience :: u64
  health :: int
  healthMax :: int
  mana :: u32
  manaMax :: u32
  capacity :: u32
  levelProgress :: "(u64 \<times> u64) option"

text \<open>The gains of a new level; the vocation of the beginners' island counts up to a configured level.\<close>

definition rook_vocation :: "Rules \<Rightarrow> Vocation \<Rightarrow> bool \<Rightarrow> Vocation" where
  "rook_vocation rules voc early =
     (if voc_id voc \<noteq> VOCATION_NONE \<and> rookSystem rules \<and> early
      then (case noVocation rules of Some v \<Rightarrow> v | None \<Rightarrow> voc) else voc)"

definition gain_level :: "Rules \<Rightarrow> Vocation \<Rightarrow> Character \<Rightarrow> Character" where
  "gain_level rules voc p =
     (let p1 = p\<lparr>level := level p + 1\<rparr>; v = rook_vocation rules voc (level p1 \<le> minLevelLeaveRook rules)
      in p1\<lparr>healthMax := int32 (healthMax p1 + hpGain v), health := int32 (health p1 + hpGain v),
            manaMax := manaMax p1 + word_of_int (manaGain v), mana := mana p1 + word_of_int (manaGain v),
            capacity := capacity p1 + word_of_int (capGain v)\<rparr>)"

function level_up :: "Rules \<Rightarrow> Vocation \<Rightarrow> Character \<Rightarrow> u64 \<Rightarrow> u64 \<Rightarrow> Character \<times> u64 \<times> u64" where
  "level_up rules voc p currLevelExp nextLevelExp =
     (if experience p \<ge> nextLevelExp then
        let p1 = gain_level rules voc p; next1 = getExpForLevel (level p1 + 1) in
        if nextLevelExp \<ge> next1 then (p1, nextLevelExp, next1)
        else level_up rules voc p1 nextLevelExp next1
      else (p, currLevelExp, nextLevelExp))"
  by pat_completeness auto
termination
  by (relation "measure (\<lambda>(rules, voc, p, curr, next). 2 ^ 64 - unat next)")
    (simp_all add: not_le rest_decreases [simplified] del: One_nat_def)

declare level_up.simps [simp del]

definition progress_of :: "u64 \<Rightarrow> u64 \<Rightarrow> u64 \<Rightarrow> (u64 \<times> u64) option" where
  "progress_of points current required =
     (if required > current then Some (points - current, required - current) else None)"

text \<open>What the scripts make of the gain: the new amount and the new raw amount; then the bonus of hazards and
  animus mastery.  A raw amount of zero divides by zero.\<close>

record Gain =
  onGain :: "u64 \<Rightarrow> u64"
  rawGain :: "u64 \<Rightarrow> u64"
  bonus :: "u64 \<Rightarrow> u64"

definition addExperience :: "Rules \<Rightarrow> Vocation \<Rightarrow> Gain \<Rightarrow> u64 \<Rightarrow> Character \<Rightarrow> Character option" where
  "addExperience rules voc g exp p =
     (let currLevelExp = getExpForLevel (level p); nextLevelExp = getExpForLevel (level p + 1) in
      if currLevelExp \<ge> nextLevelExp then Some (p\<lparr>levelProgress := None\<rparr>)
      else
        let exp1 = onGain g exp in
        if exp1 = 0 then Some p
        else if rawGain g exp = 0 then None
        else
          case level_up rules voc (p\<lparr>experience := experience p + bonus g exp1\<rparr>) currLevelExp nextLevelExp of
            (p1, cur, nxt) \<Rightarrow>
              Some ((if level p1 \<noteq> level p then p1\<lparr>health := healthMax p1, mana := manaMax p1\<rparr> else p1)
                \<lparr>levelProgress := progress_of (experience p1) cur nxt\<rparr>))"

text \<open>The losses of a level: \<open>std::max<int32_t>(0, _)\<close> of a difference taken in 32 bits.\<close>

definition lose_stats :: "Vocation \<Rightarrow> Character \<Rightarrow> Character" where
  "lose_stats v p =
     p\<lparr>healthMax := max 0 (int32 (healthMax p - hpGain v)), manaMax := word_of_int (max 0 (int32 (uint (manaMax p) - manaGain v))),
       capacity := word_of_int (max 0 (int32 (uint (capacity p) - capGain v)))\<rparr>"

function level_down :: "Vocation \<Rightarrow> Vocation \<Rightarrow> Character \<Rightarrow> Character" where
  "level_down none voc p =
     (if level p > 1 \<and> experience p < getExpForLevel (level p) then
        level_down none voc
          (lose_stats (if voc_id voc \<noteq> VOCATION_NONE \<and> level p - 1 \<le> 8 then none else voc) (p\<lparr>level := level p - 1\<rparr>))
      else p)"
  by pat_completeness auto
termination
  by (relation "measure (\<lambda>(none, voc, p). level p)") (auto simp: lose_stats_def)

declare level_down.simps [simp del]

text \<open>The difference of two 64-bit words, read as signed, is cut off at zero.\<close>

definition removeExperience :: "Vocation \<Rightarrow> Vocation \<Rightarrow> (u64 \<Rightarrow> u64) \<Rightarrow> u64 \<Rightarrow> Character \<Rightarrow> Character" where
  "removeExperience none voc onLose exp p =
     (if experience p = 0 \<or> exp = 0 then p
      else
        let exp1 = onLose exp in
        if exp1 = 0 then p
        else
          let p1 = level_down none voc (p\<lparr>experience := word_of_int (max 0 (sint (experience p - exp1)))\<rparr>);
              p2 = (if level p1 \<noteq> level p then p1\<lparr>health := healthMax p1, mana := manaMax p1\<rparr> else p1)
          in p2\<lparr>levelProgress := progress_of (experience p2) (getExpForLevel (level p2)) (getExpForLevel (level p2 + 1))\<rparr>)"

text \<open>The level loss of \<open>death\<close>.\<close>

function death_levels :: "Rules \<Rightarrow> Vocation \<Rightarrow> Character \<Rightarrow> Character" where
  "death_levels rules voc p =
     (if level p > 1 \<and> experience p < getExpForLevel (level p) then
        death_levels rules voc
          (lose_stats (rook_vocation rules voc (level p - 1 < minLevelLeaveRook rules)) (p\<lparr>level := level p - 1\<rparr>))
      else p)"
  by pat_completeness auto
termination
  by (relation "measure (\<lambda>(rules, voc, p). level p)") (auto simp: lose_stats_def)

declare death_levels.simps [simp del]

definition death_experience :: "Rules \<Rightarrow> Vocation \<Rightarrow> u64 \<Rightarrow> Character \<Rightarrow> Character" where
  "death_experience rules voc expLoss p =
     (if expLoss = 0 then p
      else
        let p1 = death_levels rules voc
              (if voc_id voc = VOCATION_NONE \<or> level p > 7 then p\<lparr>experience := experience p - expLoss\<rparr> else p)
        in p1\<lparr>levelProgress := progress_of (experience p1) (getExpForLevel (level p1)) (getExpForLevel (level p1 + 1))\<rparr>)"

section \<open>The experience formula\<close>

text \<open>Without wrap-around, and the last level whose requirement fits in 64 bits.\<close>

definition exp_poly :: "nat \<Rightarrow> int" where
  "exp_poly n = ((int n - 6) * int n + 17) * int n - 12"

definition exp_for :: "nat \<Rightarrow> int" where
  "exp_for n = exp_poly n div 6 * 100"

definition max_level :: nat where "max_level = 1034406"

lemma exp_poly_Suc: "exp_poly (Suc n) = exp_poly n + 3 * (int n * int n - 3 * int n + 4)"
  by (simp add: exp_poly_def algebra_simps)

lemma even_step: "even (int n * int n - 3 * int n + 4)"
  by simp

lemma six_dvd_exp_poly: "6 dvd exp_poly n"
proof (induction n)
  case (Suc n)
  obtain k where "int n * int n - 3 * int n + 4 = 2 * k" using even_step [of n] by (elim evenE)
  then have "3 * (int n * int n - 3 * int n + 4) = 6 * k" by simp
  then show ?case using Suc.IH exp_poly_Suc [of n] by (metis dvd_add dvd_triv_left)
qed (simp add: exp_poly_def)

lemma exp_for_exact: "6 * exp_for n = 100 * exp_poly n"
  using six_dvd_exp_poly [of n] by (auto simp: exp_for_def elim!: dvdE)

lemma exp_for_Suc: "exp_for (Suc n) = exp_for n + 50 * (int n * int n - 3 * int n + 4)"
  using exp_for_exact [of n] exp_for_exact [of "Suc n"] exp_poly_Suc [of n] by simp

lemma exp_for_less: "exp_for n < exp_for (Suc n)"
proof -
  have "0 \<le> (2 * int n - 3) * (2 * int n - 3)" by (rule zero_le_square)
  then have "0 < int n * int n - 3 * int n + 4" by (simp add: algebra_simps)
  then show ?thesis by (simp add: exp_for_Suc)
qed

lemma exp_for_mono: "m \<le> n \<Longrightarrow> exp_for m \<le> exp_for n"
  by (rule lift_Suc_mono_le [of exp_for]) (simp_all add: order.strict_implies_order exp_for_less)

lemma exp_for_1: "exp_for (Suc 0) = 0" "exp_poly (Suc 0) = 0"
  by (simp_all add: exp_for_def exp_poly_def)

lemma exp_for_nonneg: "1 \<le> n \<Longrightarrow> 0 \<le> exp_for n"
  using exp_for_mono [of 1 n] by (simp add: exp_for_1)

lemma exp_poly_bounds:
  assumes "1 \<le> n" and "n \<le> max_level + 1"
  shows "0 \<le> exp_poly n" "exp_poly n < 2 ^ 64"
proof -
  have "0 \<le> exp_for n" "exp_for n \<le> exp_for (max_level + 1)"
    using assms exp_for_nonneg exp_for_mono by simp_all
  then have "0 \<le> exp_poly n" "exp_poly n \<le> exp_poly (max_level + 1)"
    using exp_for_exact [of n] exp_for_exact [of "max_level + 1"] by simp_all
  then show "0 \<le> exp_poly n" "exp_poly n < 2 ^ 64" by (simp_all add: exp_poly_def max_level_def)
qed

lemma uint_getExpForLevel_wrap:
  assumes "1 \<le> n" and "n \<le> max_level + 1"
  shows "uint (getExpForLevel n) = exp_for n mod 2 ^ 64"
proof -
  have "((of_nat n - 6) * of_nat n + 17) * of_nat n - 12 = (word_of_int (exp_poly n) :: u64)"
    by (simp add: exp_poly_def)
  moreover have "uint (word_of_int (exp_poly n) :: u64) = exp_poly n"
    using exp_poly_bounds [OF assms] by (simp add: unsigned_of_int take_bit_int_eq_self)
  ultimately show ?thesis
    by (simp add: getExpForLevel_def exp_for_def uint_word_ariths uint_div)
qed

lemma uint_getExpForLevel:
  assumes "1 \<le> n" and "n \<le> max_level" shows "uint (getExpForLevel n) = exp_for n"
proof -
  have "exp_for n \<le> exp_for max_level" using assms(2) by (rule exp_for_mono)
  then have "exp_for n < 2 ^ 64" by (simp add: exp_for_def exp_poly_def max_level_def)
  then show ?thesis using uint_getExpForLevel_wrap [of n] exp_for_nonneg [of n] assms by simp
qed

lemma getExpForLevel_beyond: "getExpForLevel (Suc max_level) \<le> getExpForLevel max_level"
proof -
  have "uint (getExpForLevel (Suc max_level)) = exp_for (Suc max_level) mod 2 ^ 64"
    by (rule uint_getExpForLevel_wrap) (simp_all add: max_level_def)
  moreover have "\<dots> \<le> exp_for max_level" by (simp add: exp_for_def exp_poly_def max_level_def)
  moreover have "uint (getExpForLevel max_level) = exp_for max_level"
    by (rule uint_getExpForLevel) (simp_all add: max_level_def)
  ultimately show ?thesis by (simp add: word_le_def)
qed

text \<open>The requirement of the next level exceeds the present one exactly below the last level.\<close>

lemma next_level_greater:
  assumes "1 \<le> n" and "n \<le> max_level"
  shows "getExpForLevel n < getExpForLevel (n + 1) \<longleftrightarrow> n < max_level"
proof (cases "n = max_level")
  case True
  then show ?thesis using getExpForLevel_beyond by (simp add: word_less_def word_le_def)
next
  case False
  then have "uint (getExpForLevel n) < uint (getExpForLevel (n + 1))"
    using assms exp_for_less [of n] by (simp add: uint_getExpForLevel)
  then show ?thesis using False assms by (simp add: word_less_def)
qed

section \<open>Levels fit the experience\<close>

definition level_ok :: "Character \<Rightarrow> bool" where
  "level_ok p \<longleftrightarrow> 1 \<le> level p \<and> level p \<le> max_level \<and> exp_for (level p) \<le> uint (experience p) \<and>
     (level p < max_level \<longrightarrow> uint (experience p) < exp_for (level p + 1))"

lemma gain_level_simps [simp]:
  "level (gain_level rules voc p) = level p + 1" "experience (gain_level rules voc p) = experience p"
  by (simp_all add: gain_level_def Let_def)

lemma lose_stats_simps [simp]: "level (lose_stats v p) = level p" "experience (lose_stats v p) = experience p"
  by (simp_all add: lose_stats_def)

lemma level_up_returns:
  assumes "1 \<le> level p" and "level p < max_level" and "exp_for (level p) \<le> uint (experience p)"
  shows "\<exists>q. level_up rules voc p (getExpForLevel (level p)) (getExpForLevel (level p + 1)) =
      (q, getExpForLevel (level q), getExpForLevel (level q + 1)) \<and> level_ok q \<and> experience q = experience p \<and> level p \<le> level q"
  using assms
proof (induction "max_level - level p" arbitrary: p rule: less_induct)
  case less
  have nx: "uint (getExpForLevel (level p + 1)) = exp_for (level p + 1)"
    using less.prems by (simp add: uint_getExpForLevel)
  show ?case
  proof (cases "experience p \<ge> getExpForLevel (level p + 1)")
    case False
    then have "level_ok p" using less.prems nx by (simp add: level_ok_def word_le_def)
    then show ?thesis using False by (subst level_up.simps) simp
  next
    case True
    let ?p = "gain_level rules voc p"
    have e: "exp_for (level ?p) \<le> uint (experience ?p)" using True nx by (simp add: word_le_def)
    show ?thesis
    proof (cases "level p + 1 = max_level")
      case last: True
      then have "level_ok ?p" using e by (simp add: level_ok_def)
      then show ?thesis using True last getExpForLevel_beyond
        by (subst level_up.simps) (simp add: Let_def)
    next
      case False
      then have "level ?p < max_level" "1 \<le> level ?p" using less.prems by simp_all
      moreover from this have "getExpForLevel (level ?p) < getExpForLevel (level ?p + 1)" using next_level_greater [of "level ?p"] by simp
      moreover have "max_level - level ?p < max_level - level p" using less.prems by simp
      ultimately obtain q where "level_up rules voc ?p (getExpForLevel (level ?p)) (getExpForLevel (level ?p + 1)) =
          (q, getExpForLevel (level q), getExpForLevel (level q + 1))" "level_ok q" "experience q = experience ?p" "level ?p \<le> level q"
        using less.hyps [of ?p] e by blast
      then show ?thesis using True \<open>getExpForLevel (level ?p) < getExpForLevel (level ?p + 1)\<close>
        by (subst level_up.simps) (auto simp: Let_def not_le [symmetric])
    qed
  qed
qed


lemma level_fits:
  assumes "1 \<le> level p" "level p \<le> max_level" "level p < max_level \<longrightarrow> uint (experience p) < exp_for (level p + 1)"
  shows "level_ok p \<longleftrightarrow> \<not> (level p > 1 \<and> experience p < getExpForLevel (level p))"
  using assms uint_getExpForLevel [of "level p"]
  by (cases "level p = 1") (auto simp: level_ok_def word_less_def exp_for_1)

lemma exp_for_pred:
  assumes "1 < n" and "n \<le> max_level" and "x < getExpForLevel n"
  shows "uint x < exp_for (n - 1 + 1)"
  using assms uint_getExpForLevel [of n] by (simp add: word_less_def)

lemma level_down_fits:
  assumes "1 \<le> level p" "level p \<le> max_level" "level p < max_level \<longrightarrow> uint (experience p) < exp_for (level p + 1)"
  shows "level_ok (level_down none voc p) \<and> experience (level_down none voc p) = experience p \<and> level (level_down none voc p) \<le> level p"
  using assms
proof (induction none voc p rule: level_down.induct)
  case (1 none voc p)
  show ?case
  proof (cases "level p > 1 \<and> experience p < getExpForLevel (level p)")
    case True
    define q where "q = lose_stats (if voc_id voc \<noteq> VOCATION_NONE \<and> level p - 1 \<le> 8 then none else voc) (p\<lparr>level := level p - 1\<rparr>)"
    have q: "level q = level p - 1" "experience q = experience p" by (simp_all add: q_def)
    have eq: "level_down none voc p = level_down none voc q" using True by (subst level_down.simps) (simp add: q_def)
    have "1 \<le> level q" "level q \<le> max_level" "level q < max_level \<longrightarrow> uint (experience q) < exp_for (level q + 1)"
      using True 1(3) exp_for_pred [of "level p"] q by auto
    from 1(1) [OF True this [unfolded q_def]] show ?thesis unfolding eq by (fold q_def) (auto simp: q)
  next
    case False
    then have "level_down none voc p = p" by (subst level_down.simps) (simp only: False if_False)
    then show ?thesis using level_fits [OF 1(2-4)] False by simp
  qed
qed

lemma death_levels_fits:
  assumes "1 \<le> level p" "level p \<le> max_level" "level p < max_level \<longrightarrow> uint (experience p) < exp_for (level p + 1)"
  shows "level_ok (death_levels rules voc p) \<and> experience (death_levels rules voc p) = experience p \<and> level (death_levels rules voc p) \<le> level p"
  using assms
proof (induction rules voc p rule: death_levels.induct)
  case (1 rules voc p)
  show ?case
  proof (cases "level p > 1 \<and> experience p < getExpForLevel (level p)")
    case True
    define q where "q = lose_stats (rook_vocation rules voc (level p - 1 < minLevelLeaveRook rules)) (p\<lparr>level := level p - 1\<rparr>)"
    have q: "level q = level p - 1" "experience q = experience p" by (simp_all add: q_def)
    have eq: "death_levels rules voc p = death_levels rules voc q" using True by (subst death_levels.simps) (simp add: q_def)
    have "1 \<le> level q" "level q \<le> max_level" "level q < max_level \<longrightarrow> uint (experience q) < exp_for (level q + 1)"
      using True 1(3) exp_for_pred [of "level p"] q by auto
    from 1(1) [OF True this [unfolded q_def]] show ?thesis unfolding eq by (fold q_def) (auto simp: q)
  next
    case False
    then have "death_levels rules voc p = p" by (subst death_levels.simps) (simp only: False if_False)
    then show ?thesis using level_fits [OF 1(2-4)] False by simp
  qed
qed

section \<open>Health, mana and capacity\<close>

text \<open>What a level brings, and what the levels up to \<open>l\<close> make of a statistic that starts at \<open>b\<close>.\<close>

abbreviation level_voc :: "Rules \<Rightarrow> Vocation \<Rightarrow> nat \<Rightarrow> Vocation" where
  "level_voc rules voc l \<equiv> rook_vocation rules voc (l \<le> minLevelLeaveRook rules)"

definition stat_at :: "(nat \<Rightarrow> int) \<Rightarrow> int \<Rightarrow> nat \<Rightarrow> int" where
  "stat_at g b l = b + (\<Sum>k \<in> {1<..l}. g k)"

lemma stat_at_Suc: "1 \<le> l \<Longrightarrow> stat_at g b (Suc l) = stat_at g b l + g (Suc l)"
proof -
  assume "1 \<le> l"
  then have "{1<..Suc l} = insert (Suc l) {1<..l}" by auto
  then show ?thesis by (simp add: stat_at_def)
qed

lemma stat_at_mono: "(\<And>k. 0 \<le> g k) \<Longrightarrow> l \<le> m \<Longrightarrow> stat_at g b l \<le> stat_at g b m"
  by (simp add: stat_at_def, rule sum_mono2) auto

lemma stat_at_base: "(\<And>k. 0 \<le> g k) \<Longrightarrow> b \<le> stat_at g b l"
  by (simp add: stat_at_def sum_nonneg)

record Base =
  baseHealth :: int
  baseMana :: int
  baseCap :: int

definition stats_ok :: "Rules \<Rightarrow> Vocation \<Rightarrow> Base \<Rightarrow> Character \<Rightarrow> bool" where
  "stats_ok rules voc b p \<longleftrightarrow>
     healthMax p = stat_at (\<lambda>l. hpGain (level_voc rules voc l)) (baseHealth b) (level p) \<and>
     manaMax p = word_of_int (stat_at (\<lambda>l. manaGain (level_voc rules voc l)) (baseMana b) (level p)) \<and>
     capacity p = word_of_int (stat_at (\<lambda>l. capGain (level_voc rules voc l)) (baseCap b) (level p))"

text \<open>No level up to \<open>l\<close> leaves the range of a 32-bit integer.\<close>

definition gains_ok :: "Vocation \<Rightarrow> bool" where
  "gains_ok v \<longleftrightarrow> 0 \<le> hpGain v \<and> 0 \<le> manaGain v \<and> 0 \<le> capGain v"

definition stats_fit :: "Rules \<Rightarrow> Vocation \<Rightarrow> Base \<Rightarrow> nat \<Rightarrow> bool" where
  "stats_fit rules voc b l \<longleftrightarrow> gains_ok voc \<and> pred_option gains_ok (noVocation rules) \<and>
     0 \<le> baseHealth b \<and> 0 \<le> baseMana b \<and> 0 \<le> baseCap b \<and>
     stat_at (\<lambda>l. hpGain (level_voc rules voc l)) (baseHealth b) l < 2 ^ 31 \<and>
     stat_at (\<lambda>l. manaGain (level_voc rules voc l)) (baseMana b) l < 2 ^ 31 \<and>
     stat_at (\<lambda>l. capGain (level_voc rules voc l)) (baseCap b) l < 2 ^ 31"

lemma level_voc_gains: "gains_ok voc \<Longrightarrow> pred_option gains_ok (noVocation rules) \<Longrightarrow> gains_ok (rook_vocation rules voc e)"
  by (auto simp: rook_vocation_def split: option.split)

lemma stats_fit_gains: "stats_fit rules voc b l \<Longrightarrow> gains_ok (rook_vocation rules voc e)"
  by (simp add: stats_fit_def level_voc_gains)

lemma stats_fit_mono:
  assumes "stats_fit rules voc b m" and "l \<le> m"
  shows "stats_fit rules voc b l"
proof -
  note g = stats_fit_gains [OF assms(1), unfolded gains_ok_def]
  have "stat_at (\<lambda>l. hpGain (level_voc rules voc l)) (baseHealth b) l \<le> stat_at (\<lambda>l. hpGain (level_voc rules voc l)) (baseHealth b) m"
    "stat_at (\<lambda>l. manaGain (level_voc rules voc l)) (baseMana b) l \<le> stat_at (\<lambda>l. manaGain (level_voc rules voc l)) (baseMana b) m"
    "stat_at (\<lambda>l. capGain (level_voc rules voc l)) (baseCap b) l \<le> stat_at (\<lambda>l. capGain (level_voc rules voc l)) (baseCap b) m"
    by (rule stat_at_mono [OF _ assms(2)]; use g in blast)+
  then show ?thesis using assms(1) unfolding stats_fit_def by linarith
qed

lemma stats_fit_nonneg:
  assumes "stats_fit rules voc b l"
  shows "0 \<le> stat_at (\<lambda>l. hpGain (level_voc rules voc l)) (baseHealth b) l"
    "0 \<le> stat_at (\<lambda>l. manaGain (level_voc rules voc l)) (baseMana b) l"
    "0 \<le> stat_at (\<lambda>l. capGain (level_voc rules voc l)) (baseCap b) l"
proof -
  note g = stats_fit_gains [OF assms, unfolded gains_ok_def]
  have "baseHealth b \<le> stat_at (\<lambda>l. hpGain (level_voc rules voc l)) (baseHealth b) l"
    "baseMana b \<le> stat_at (\<lambda>l. manaGain (level_voc rules voc l)) (baseMana b) l"
    "baseCap b \<le> stat_at (\<lambda>l. capGain (level_voc rules voc l)) (baseCap b) l"
    by (rule stat_at_base; use g in blast)+
  then show "0 \<le> stat_at (\<lambda>l. hpGain (level_voc rules voc l)) (baseHealth b) l"
    "0 \<le> stat_at (\<lambda>l. manaGain (level_voc rules voc l)) (baseMana b) l"
    "0 \<le> stat_at (\<lambda>l. capGain (level_voc rules voc l)) (baseCap b) l"
    using assms unfolding stats_fit_def by linarith+
qed

lemma gain_level_stats:
  assumes "stats_ok rules voc b p" and "1 \<le> level p" and fit: "stats_fit rules voc b (level p + 1)"
  shows "stats_ok rules voc b (gain_level rules voc p)"
proof -
  show ?thesis
    using assms(1,2) stats_fit_nonneg [OF fit] fit
    by (simp add: stats_ok_def stats_fit_def gain_level_def Let_def stat_at_Suc int32_id)
qed

lemma lose_level_stats:
  assumes "stats_ok rules voc b p" and "level p = Suc l" and "1 \<le> l" and fit: "stats_fit rules voc b (level p)"
  shows "stats_ok rules voc b (lose_stats (level_voc rules voc (level p)) (p\<lparr>level := l\<rparr>))"
proof -
  have fl: "stats_fit rules voc b l" using stats_fit_mono [OF fit] assms(2) by simp
  have "uint (capacity p) = stat_at (\<lambda>l. capGain (level_voc rules voc l)) (baseCap b) (Suc l)"
    "uint (manaMax p) = stat_at (\<lambda>l. manaGain (level_voc rules voc l)) (baseMana b) (Suc l)"
    using assms(1,2) fit stats_fit_nonneg [OF fit]
    by (simp_all add: stats_ok_def stats_fit_def unsigned_of_int take_bit_int_eq_self)
  then show ?thesis
    using assms(1-3) stats_fit_nonneg [OF fl] fl
    by (simp add: stats_ok_def lose_stats_def stats_fit_def stat_at_Suc int32_id)
qed

lemma level_up_level: "level_up rules voc p cur nxt = (q, cur', nxt') \<Longrightarrow> level p \<le> level q"
proof (induction rules voc p cur nxt rule: level_up.induct)
  case (1 rules voc p cur nxt)
  show ?case
  proof (cases "experience p \<ge> nxt \<and> \<not> nxt \<ge> getExpForLevel (level (gain_level rules voc p) + 1)")
    case True
    then have "level_up rules voc p cur nxt = level_up rules voc (gain_level rules voc p) nxt (getExpForLevel (level (gain_level rules voc p) + 1))"
      by (subst level_up.simps) (simp add: Let_def)
    then have "level (gain_level rules voc p) \<le> level q" using True 1 by (intro 1(1) [OF _ refl refl]) simp_all
    then show ?thesis by simp
  next
    case False
    then show ?thesis using 1(2) by (subst (asm) level_up.simps) (auto simp: Let_def split: if_splits)
  qed
qed

lemma level_up_stats:
  assumes "level_up rules voc p cur nxt = (q, cur', nxt')" and "stats_ok rules voc b p" and "1 \<le> level p"
    and "stats_fit rules voc b (level q)"
  shows "stats_ok rules voc b q \<and> level p \<le> level q"
  using assms
proof (induction rules voc p cur nxt rule: level_up.induct)
  case (1 rules voc p cur nxt)
  let ?p = "gain_level rules voc p"
  show ?case
  proof (cases "experience p \<ge> nxt")
    case False
    then show ?thesis using "1.prems" by (subst (asm) level_up.simps) simp
  next
    case more: True
    show ?thesis
    proof (cases "nxt \<ge> getExpForLevel (level ?p + 1)")
      case True
      then have "q = ?p" using more "1.prems"(1) by (subst (asm) level_up.simps) (simp add: Let_def)
      then show ?thesis using "1.prems" by (simp add: gain_level_stats)
    next
      case False
      then have eq: "level_up rules voc ?p nxt (getExpForLevel (level ?p + 1)) = (q, cur', nxt')"
        using more "1.prems"(1) by (subst (asm) level_up.simps) (simp add: Let_def)
      note IH = "1.IH" [OF more refl refl False eq]
      have "level ?p \<le> level q" using level_up_level [OF eq] .
      then have "stats_ok rules voc b ?p"
        using "1.prems" stats_fit_mono [of rules voc b "level q" "level p + 1"] by (intro gain_level_stats) simp_all
      then show ?thesis using IH "1.prems" by simp
    qed
  qed
qed

lemma death_levels_stats:
  assumes "stats_ok rules voc b p" and "stats_fit rules voc b (level p)"
  shows "stats_ok rules voc b (death_levels rules voc p)"
  using assms
proof (induction rules voc p rule: death_levels.induct)
  case (1 rules voc p)
  show ?case
  proof (cases "level p > 1 \<and> experience p < getExpForLevel (level p)")
    case True
    then obtain l where l: "level p = Suc l" "1 \<le> l" by (cases "level p") auto
    let ?q = "lose_stats (rook_vocation rules voc (level p - 1 < minLevelLeaveRook rules)) (p\<lparr>level := level p - 1\<rparr>)"
    have "(level p - 1 < minLevelLeaveRook rules) = (level p \<le> minLevelLeaveRook rules)" using l by auto
    then have "stats_ok rules voc b ?q" using lose_level_stats [OF 1(2) l 1(3)] l by simp
    moreover have "stats_fit rules voc b (level ?q)" using stats_fit_mono [OF 1(3)] l by simp
    moreover have "death_levels rules voc p = death_levels rules voc ?q" using True by (subst death_levels.simps) simp
    ultimately show ?thesis using 1(1) [OF True] by simp
  next
    case False
    then have "death_levels rules voc p = p" by (subst death_levels.simps) (simp only: False if_False)
    then show ?thesis using 1(2) by simp
  qed
qed

section \<open>Properties\<close>

text \<open>The advancement of a player: gains that do not wrap, losses, and deaths that take no more than there is.\<close>

inductive history :: "Rules \<Rightarrow> Vocation \<Rightarrow> Vocation \<Rightarrow> Character \<Rightarrow> Character \<Rightarrow> bool"
  for rules none voc p where
  start: "history rules none voc p p"
| gains: "history rules none voc p q \<Longrightarrow> uint (experience q) + uint (bonus g (onGain g exp)) < 2 ^ 64 \<Longrightarrow>
    addExperience rules voc g exp q = Some r \<Longrightarrow> history rules none voc p r"
| loses: "history rules none voc p q \<Longrightarrow> uint (experience q) < 2 ^ 63 \<Longrightarrow> uint (onLose exp) \<le> 2 ^ 63 \<Longrightarrow>
    history rules none voc p (removeExperience none voc onLose exp q)"
| dies: "history rules none voc p q \<Longrightarrow> expLoss \<le> experience q \<Longrightarrow>
    history rules none voc p (death_experience rules voc expLoss q)"

lemma level_ok_simps [simp]:
  "level_ok (p\<lparr>health := h\<rparr>) = level_ok p" "level_ok (p\<lparr>mana := m\<rparr>) = level_ok p" "level_ok (p\<lparr>levelProgress := x\<rparr>) = level_ok p"
  by (simp_all add: level_ok_def)

lemma level_experience_update: "level (p\<lparr>experience := e\<rparr>) = level p"
  by simp

lemma addExperience_level:
  assumes "level_ok p" and "uint (experience p) + uint (bonus g (onGain g exp)) < 2 ^ 64"
    and "addExperience rules voc g exp p = Some q"
  shows "level_ok q"
proof (cases "getExpForLevel (level p) \<ge> getExpForLevel (level p + 1) \<or> onGain g exp = 0")
  case True
  then show ?thesis using assms by (auto simp: addExperience_def Let_def split: if_splits)
next
  case False
  let ?p = "p\<lparr>experience := experience p + bonus g (onGain g exp)\<rparr>"
  have lt: "level p < max_level" using False assms(1) next_level_greater [of "level p"]
    by (simp add: level_ok_def not_le)
  have "uint (experience ?p) = uint (experience p) + uint (bonus g (onGain g exp))"
    using assms(2) by (simp add: uint_add_lem [THEN iffD1])
  moreover have "uint (experience p) \<le> uint (experience p) + uint (bonus g (onGain g exp))" by (rule add_increasing2 [OF uint_ge_0 order_refl])
  moreover have "exp_for (level p) \<le> uint (experience p)" using assms(1) by (simp add: level_ok_def)
  ultimately have "exp_for (level ?p) \<le> uint (experience ?p)" by (metis order_trans level_experience_update)
  then obtain r where "level_up rules voc ?p (getExpForLevel (level ?p)) (getExpForLevel (level ?p + 1)) =
      (r, getExpForLevel (level r), getExpForLevel (level r + 1))" "level_ok r"
    using level_up_returns [of ?p] lt assms(1) by (auto simp: level_ok_def)
  then show ?thesis using assms(3) False by (auto simp: addExperience_def Let_def split: if_splits)
qed

text \<open>The signed difference is exact or cut off when neither operand reaches \<open>2 ^ 63\<close>.\<close>

lemma cut_off:
  assumes "uint (a :: u64) < 2 ^ 63" and "uint b \<le> 2 ^ 63"
  shows "uint (word_of_int (max 0 (sint (a - b))) :: u64) \<le> uint a"
proof -
  have "a - b = word_of_int (uint a - uint b)" by simp
  then have "sint (a - b) = signed_take_bit 63 (uint a - uint b)" by (simp only: signed_of_int) simp
  moreover have "- (2 ^ 63) \<le> uint a - uint b" "uint a - uint b < 2 ^ 63"
    using assms uint_ge_0 [of a] uint_ge_0 [of b] by linarith+
  ultimately have "sint (a - b) = uint a - uint b" by (simp add: signed_take_bit_int_eq_self)
  moreover have "max 0 (uint a - uint b) \<le> uint a" using uint_ge_0 [of b] uint_ge_0 [of a] by linarith
  moreover from order.strict_trans1 [OF this assms(1)] have "max 0 (uint a - uint b) < 2 ^ LENGTH(64)"
    by (rule order.strict_trans) simp
  then have "uint (word_of_int (max 0 (uint a - uint b)) :: u64) = max 0 (uint a - uint b)"
    by (intro uint_word_of_int_eq [THEN trans] take_bit_int_eq_self) simp_all
  ultimately show ?thesis by simp
qed

lemma removeExperience_level:
  assumes "level_ok p" and "uint (experience p) < 2 ^ 63" and "uint (onLose exp) \<le> 2 ^ 63"
  shows "level_ok (removeExperience none voc onLose exp p)"
proof -
  let ?e = "word_of_int (max 0 (sint (experience p - onLose exp))) :: u64"
  have "uint ?e \<le> uint (experience p)" using assms(2,3) by (rule cut_off)
  then have "level_ok (level_down none voc (p\<lparr>experience := ?e\<rparr>))"
    using assms(1) by (intro level_down_fits [THEN conjunct1]) (auto simp: level_ok_def)
  then show ?thesis using assms(1) by (simp add: removeExperience_def Let_def)
qed

lemma death_experience_level:
  assumes "level_ok p" and "expLoss \<le> experience p"
  shows "level_ok (death_experience rules voc expLoss p)"
proof -
  have "uint (experience p - expLoss) \<le> uint (experience p)"
    using assms(2) by (simp add: uint_minus_simple_alt [THEN iffD1])
  then have "level_ok (death_levels rules voc (p\<lparr>experience := experience p - expLoss\<rparr>))"
    using assms(1) by (intro death_levels_fits [THEN conjunct1]) (auto simp: level_ok_def)
  moreover have "level_ok (death_levels rules voc p)"
    using assms(1) by (intro death_levels_fits [THEN conjunct1]) (auto simp: level_ok_def)
  ultimately show ?thesis using assms(1) by (simp add: death_experience_def Let_def)
qed

text \<open>C23: The level always fits the experience: from a state where it does, any sequence of gains that do not
  wrap the 64-bit word, losses and deaths that take no more than there is ends in a state where the level is
  the one whose requirement the experience reaches and whose next requirement it does not, up to the last
  level whose requirement fits in 64 bits; all loops end.\<close>

theorem levels_follow_experience:
  assumes "history rules none voc p q" and "level_ok p"
  shows "level_ok q"
  using assms
proof (induction rule: history.induct)
  case (gains q g exp r)
  then show ?case using addExperience_level by blast
qed (simp_all add: removeExperience_level death_experience_level)

definition plain_gain :: Gain where
  "plain_gain = \<lparr>onGain = \<lambda>n. n, rawGain = \<lambda>n. n, bonus = \<lambda>n. n\<rparr>"

definition no_rook :: Rules where
  "no_rook = \<lparr>rookSystem = False, minLevelLeaveRook = 8, noVocation = None\<rparr>"

definition knight :: Vocation where
  "knight = \<lparr>voc_id = 4, hpGain = 15, manaGain = 5, capGain = 2500\<rparr>"

definition novice :: Vocation where
  "novice = \<lparr>voc_id = 0, hpGain = 5, manaGain = 5, capGain = 1000\<rparr>"

definition level_9 :: Character where
  "level_9 = \<lparr>level = 9, experience = 6400, health = 305, healthMax = 305, mana = 95, manaMax = 95, capacity = 62000, levelProgress = None\<rparr>"

lemma gained_10: "addExperience no_rook knight plain_gain 3000 level_9 =
    Some (level_9\<lparr>experience := 9400, level := 10, healthMax := 320, health := 320, manaMax := 100, mana := 100, capacity := 64500, levelProgress := Some (100, 3700)\<rparr>)"
  by code_simp

theorem levels_follow_experience_witness:
  "level_ok (death_experience no_rook knight 900 (level_9\<lparr>experience := 9400, level := 10, healthMax := 320, health := 320, manaMax := 100, mana := 100, capacity := 64500, levelProgress := Some (100, 3700)\<rparr>))"
  by (rule levels_follow_experience [OF history.dies [OF history.gains [OF history.start [of no_rook novice knight level_9] _ gained_10]]])
    (simp_all add: level_9_def plain_gain_def level_ok_def max_level_def exp_for_def exp_poly_def)

text \<open>C24: Health, mana and capacity follow the level: where they are the base values plus the gains of every
  level up to the present one (the beginners' vocation up to the configured level, the own one above), they
  still are after gaining experience over any number of levels and after a death that follows, as long as
  the values fit in 31 bits.\<close>

theorem stats_follow_level:
  assumes "stats_ok rules voc b p" and "1 \<le> level p"
    and "addExperience rules voc g exp p = Some q" and "stats_fit rules voc b (level q)"
  shows "stats_ok rules voc b q \<and> stats_ok rules voc b (death_experience rules voc expLoss q)"
proof -
  have keep: "stats_ok rules voc b (r\<lparr>levelProgress := x\<rparr>) = stats_ok rules voc b r"
    "stats_ok rules voc b (r\<lparr>health := h, mana := m\<rparr>) = stats_ok rules voc b r"
    "stats_ok rules voc b (r\<lparr>experience := e\<rparr>) = stats_ok rules voc b r" for r x h m e
    by (simp_all add: stats_ok_def)
  have q: "stats_ok rules voc b q"
  proof (cases "getExpForLevel (level p) \<ge> getExpForLevel (level p + 1) \<or> onGain g exp = 0")
    case True
    then show ?thesis using assms(1,3) keep by (auto simp: addExperience_def Let_def split: if_splits)
  next
    case False
    obtain r cur nxt where r: "level_up rules voc (p\<lparr>experience := experience p + bonus g (onGain g exp)\<rparr>)
        (getExpForLevel (level p)) (getExpForLevel (level p + 1)) = (r, cur, nxt)" by (cases "level_up rules voc (p\<lparr>experience := experience p + bonus g (onGain g exp)\<rparr>)
        (getExpForLevel (level p)) (getExpForLevel (level p + 1))")
    then have "q = (if level r \<noteq> level p then r\<lparr>health := healthMax r, mana := manaMax r\<rparr> else r)\<lparr>levelProgress := progress_of (experience r) cur nxt\<rparr>"
      using assms(3) False by (simp add: addExperience_def Let_def split: if_splits)
    moreover from this have "level q = level r" by simp
    moreover from this have "stats_ok rules voc b r" using level_up_stats [OF r, of b] assms(1,2,4) keep by simp
    ultimately show ?thesis using keep by simp
  qed
  moreover have "stats_ok rules voc b (death_levels rules voc (q\<lparr>experience := e\<rparr>))" for e
    using q assms(4) keep by (intro death_levels_stats) simp_all
  moreover have "stats_ok rules voc b (death_levels rules voc q)"
    using q assms(4) by (intro death_levels_stats)
  ultimately show ?thesis using keep by (simp add: death_experience_def Let_def)
qed

theorem stats_follow_level_witness:
  "stats_ok no_rook knight \<lparr>baseHealth = 185, baseMana = 55, baseCap = 42000\<rparr> (death_experience no_rook knight 900
     (level_9\<lparr>experience := 9400, level := 10, healthMax := 320, health := 320, manaMax := 100, mana := 100, capacity := 64500, levelProgress := Some (100, 3700)\<rparr>))"
proof -
  have at: "stat_at (\<lambda>l. c) b 9 = b + 8 * c" "stat_at (\<lambda>l. c) b 10 = b + 9 * c" for b c
    by (simp_all add: stat_at_def)
  have v: "rook_vocation no_rook knight e = knight" for e by (simp add: rook_vocation_def no_rook_def)
  have k: "hpGain knight = 15" "manaGain knight = 5" "capGain knight = 2500" "noVocation no_rook = None"
    by (simp_all add: knight_def no_rook_def)
  show ?thesis
    by (rule stats_follow_level [OF _ _ gained_10, THEN conjunct2])
      (simp_all add: stats_ok_def stats_fit_def v k at level_9_def gains_ok_def)
qed

text \<open>Losing experience does not undo gaining it: \<open>removeExperience\<close> takes the gains of the beginners'
  vocation for every level left down to the eighth, whatever the configuration, and level 9 counts among
  them.  A knight of level 9 who loses 100 experience points and gains them again is back at level 9
  with ten more hit points.\<close>

theorem remove_and_regain_health:
  "map_option (\<lambda>p. (level p, experience p, healthMax p))
     (addExperience no_rook knight plain_gain 100 (removeExperience novice knight (\<lambda>n. n) 100 (level_9\<lparr>experience := 6450\<rparr>)))
   = Some (9, 6450, healthMax level_9 + 10)"
  by code_simp

text \<open>The experience a level needs, computed in wrapping 64-bit arithmetic, is exactly the cubic formula up to
  level 1034406, and grows from each level to the next; the requirement of the level after that is smaller.\<close>

theorem experience_formula:
  assumes "1 \<le> n" and "n \<le> max_level"
  shows "3 * uint (getExpForLevel n) = 50 * (int n - 1) * (int n * int n - 5 * int n + 12)
    \<and> (getExpForLevel n < getExpForLevel (n + 1)) = (n < max_level)"
proof -
  have "exp_poly n = (int n - 1) * (int n * int n - 5 * int n + 12)" by (simp add: exp_poly_def algebra_simps)
  then show ?thesis
    using assms exp_for_exact [of n] next_level_greater by (simp add: uint_getExpForLevel)
qed

theorem experience_formula_witness:
  "3 * uint (getExpForLevel 8) = 12600 \<and> getExpForLevel 8 < getExpForLevel (8 + 1)"
  using experience_formula [of 8] by (simp add: max_level_def)

end
