(* ===== verification/Skills.thy ===== *)
theory Skills
  imports Prelude
begin

text \<open>
  Skills and the magic level of a player: \<open>addSkillAdvance\<close>, \<open>addManaSpent\<close> and the losses of
  \<open>death\<close> of \<^verbatim>\<open>src/creatures/players/player.cpp\<close>.  The requirements of a vocation (a power in
  floating point) are a parameter, as are what scripts make of a gain and the share of the sum that a
  death takes (a product in floating point).  A percentage is the pair of numbers it is computed
  from, levels are natural numbers; messages, events and screenshots are left out.  Gaining and
  losing share two contracts, stated as locales over a sum of all points: a gain adds its points, a
  loss takes them, and losing what was gained restores level and points.
\<close>

section \<open>Skills\<close>

record Skill =
  skill_level :: nat
  tries :: u64
  percent :: "(u64 \<times> u64) option"

definition percent_of :: "u64 \<Rightarrow> u64 \<Rightarrow> u64 \<Rightarrow> (u64 \<times> u64) option" where
  "percent_of points current required = (if required > current then Some (points, required) else None)"

function skill_advance :: "(nat \<Rightarrow> u64) \<Rightarrow> u64 \<Rightarrow> u64 \<Rightarrow> u64 \<Rightarrow> Skill \<Rightarrow> Skill" where
  "skill_advance getReqSkillTries count currReqTries nextReqTries s =
     (if tries s + count \<ge> nextReqTries then
        let count1 = count - (nextReqTries - tries s);
            s1 = s\<lparr>skill_level := skill_level s + 1, tries := 0, percent := None\<rparr>;
            next1 = getReqSkillTries (skill_level s1 + 1) in
        if nextReqTries \<ge> next1
        then s1\<lparr>tries := tries s1 + 0, percent := percent_of (tries s1 + 0) nextReqTries next1\<rparr>
        else skill_advance getReqSkillTries count1 nextReqTries next1 s1
      else s\<lparr>tries := tries s + count, percent := percent_of (tries s + count) currReqTries nextReqTries\<rparr>)"
  by pat_completeness auto

termination skill_advance
  by (relation "measure (\<lambda>(req, count, curr, next, s). 2 ^ 64 - unat next)")
    (simp_all add: not_le rest_decreases [simplified] del: One_nat_def)

declare skill_advance.simps [simp del]


text \<open>The loss of \<open>death\<close>: 32 bits of tries, and a final difference that passes through a signed 32-bit
  integer.\<close>

function skill_down :: "(nat \<Rightarrow> u64) \<Rightarrow> u32 \<Rightarrow> Skill \<Rightarrow> u32 \<times> Skill" where
  "skill_down getReqSkillTries lostSkillTries s =
     (if ucast lostSkillTries > tries s then
        if skill_level s \<le> 10 then (0, s\<lparr>skill_level := 10, tries := 0\<rparr>)
        else skill_down getReqSkillTries (ucast (ucast lostSkillTries - tries s))
               (s\<lparr>tries := getReqSkillTries (skill_level s), skill_level := skill_level s - 1\<rparr>)
      else (lostSkillTries, s))"
  by pat_completeness auto
termination
  by (relation "measure (\<lambda>(req, lost, s). skill_level s)") auto

declare skill_down.simps [simp del]

definition lose_skill :: "(nat \<Rightarrow> u64) \<Rightarrow> u32 \<Rightarrow> Skill \<Rightarrow> Skill" where
  "lose_skill getReqSkillTries lost s =
     (case skill_down getReqSkillTries lost s of (rest, s1) \<Rightarrow>
        let left = word_of_int (max 0 (int32 (uint (tries s1 - ucast rest)))) in
        s1\<lparr>tries := left, percent := Some (left, getReqSkillTries (skill_level s1))\<rparr>)"

text \<open>The sum of a skill's tries, and the loss of all skills.\<close>

definition sumSkillTries :: "(nat \<Rightarrow> u64) \<Rightarrow> Skill \<Rightarrow> u64" where
  "sumSkillTries getReqSkillTries s = sum_list (map getReqSkillTries [11..<Suc (skill_level s)]) + tries s"

definition death_skills :: "(nat \<Rightarrow> nat \<Rightarrow> u64) \<Rightarrow> (u64 \<Rightarrow> u32) \<Rightarrow> Skill list \<Rightarrow> Skill list" where
  "death_skills getReqSkillTries loss skills =
     map (\<lambda>i. let s = skills ! i in lose_skill (getReqSkillTries i) (loss (sumSkillTries (getReqSkillTries i) s)) s)
       [0..<length skills]"

section \<open>Magic level\<close>

record Magic =
  magLevel :: nat
  manaSpent :: u64
  magLevelPercent :: "(u64 \<times> u64) option"

text \<open>At the top level the loop returns at once.\<close>

function mana_advance :: "(nat \<Rightarrow> u64) \<Rightarrow> u64 \<Rightarrow> u64 \<Rightarrow> u64 \<Rightarrow> Magic \<Rightarrow> Magic" where
  "mana_advance getReqMana amount currReqMana nextReqMana m =
     (if manaSpent m + amount \<ge> nextReqMana then
        let amount1 = amount - (nextReqMana - manaSpent m);
            m1 = m\<lparr>magLevel := magLevel m + 1, manaSpent := 0\<rparr>;
            next1 = getReqMana (magLevel m1 + 1) in
        if nextReqMana \<ge> next1 then m1
        else mana_advance getReqMana amount1 nextReqMana next1 m1
      else m\<lparr>manaSpent := manaSpent m + amount,
             magLevelPercent := percent_of (manaSpent m + amount) currReqMana nextReqMana\<rparr>)"
  by pat_completeness auto
termination
  by (relation "measure (\<lambda>(req, amount, curr, next, s). 2 ^ 64 - unat next)")
    (simp_all add: not_le rest_decreases [simplified] del: One_nat_def)

declare mana_advance.simps [simp del]

definition addManaSpent :: "bool \<Rightarrow> (nat \<Rightarrow> u64) \<Rightarrow> (u64 \<Rightarrow> u64) \<Rightarrow> u64 \<Rightarrow> Magic \<Rightarrow> Magic" where
  "addManaSpent notGainMana getReqMana onGain amount m =
     (if notGainMana then m
      else
        let currReqMana = getReqMana (magLevel m); nextReqMana = getReqMana (magLevel m + 1) in
        if currReqMana \<ge> nextReqMana then m
        else if onGain amount = 0 then m
        else mana_advance getReqMana (onGain amount) currReqMana nextReqMana m)"

function magic_down :: "(nat \<Rightarrow> u64) \<Rightarrow> u64 \<Rightarrow> Magic \<Rightarrow> u64 \<times> Magic" where
  "magic_down getReqMana lostMana m =
     (if lostMana > manaSpent m \<and> magLevel m > 0 then
        magic_down getReqMana (lostMana - manaSpent m) (m\<lparr>manaSpent := getReqMana (magLevel m), magLevel := magLevel m - 1\<rparr>)
      else (lostMana, m))"
  by pat_completeness auto
termination
  by (relation "measure (\<lambda>(req, lost, m). magLevel m)") auto

declare magic_down.simps [simp del]

definition lose_magic :: "(nat \<Rightarrow> u64) \<Rightarrow> u64 \<Rightarrow> Magic \<Rightarrow> Magic" where
  "lose_magic getReqMana lostMana m =
     (case magic_down getReqMana lostMana m of (rest, m1) \<Rightarrow>
        let left = manaSpent m1 - rest in
        m1\<lparr>manaSpent := left, magLevelPercent := percent_of left (getReqMana (magLevel m1)) (getReqMana (magLevel m1 + 1))\<rparr>)"

definition sumMana :: "(nat \<Rightarrow> u64) \<Rightarrow> Magic \<Rightarrow> u64" where
  "sumMana getReqMana m = sum_list (map getReqMana [1..<Suc (magLevel m)]) + manaSpent m"

definition death_magic :: "(nat \<Rightarrow> u64) \<Rightarrow> (u64 \<Rightarrow> u64) \<Rightarrow> Magic \<Rightarrow> Magic" where
  "death_magic getReqMana loss m = lose_magic getReqMana (loss (sumMana getReqMana m)) m"

section \<open>Points\<close>

text \<open>All points: the requirements of the levels above the first, and the points of the present one.\<close>

definition points_total :: "nat \<Rightarrow> (nat \<Rightarrow> u64) \<Rightarrow> nat \<Rightarrow> u64 \<Rightarrow> nat" where
  "points_total base req l p = (\<Sum>c \<in> {base<..l}. unat (req c)) + unat p"

definition points_ok :: "nat \<Rightarrow> (nat \<Rightarrow> u64) \<Rightarrow> nat \<Rightarrow> u64 \<Rightarrow> bool" where
  "points_ok base req l p \<longleftrightarrow> base \<le> l \<and> p < req (l + 1)"

lemma points_total_Suc: "base \<le> l \<Longrightarrow> points_total base req (Suc l) p = points_total base req l 0 + unat (req (Suc l)) + unat p"
proof -
  assume "base \<le> l"
  then have "{base<..Suc l} = insert (Suc l) {base<..l}" by auto
  then show ?thesis by (simp add: points_total_def)
qed

lemma points_total_mono: "l \<le> k \<Longrightarrow> points_total base req l 0 \<le> points_total base req k p"
  unfolding points_total_def by (rule add_mono [OF sum_mono2]) auto

lemma points_total_shift: "points_total base req l p = points_total base req l 0 + unat p"
  by (simp add: points_total_def)

text \<open>The sum determines level and points.\<close>

lemma points_less:
  assumes "points_ok base req l p" and "l < k"
  shows "points_total base req l p < points_total base req k q"
proof -
  have "points_total base req l p < points_total base req (Suc l) 0"
    using assms(1) by (simp add: points_total_Suc points_ok_def word_less_nat_alt points_total_shift [of base req l p])
  also have "\<dots> \<le> points_total base req k q" using assms(2) by (intro points_total_mono) simp
  finally show ?thesis .
qed

lemma points_unique:
  assumes "points_ok base req l p" and "points_ok base req k q"
    and "points_total base req l p = points_total base req k q"
  shows "l = k" "p = q"
proof -
  show "l = k" using assms points_less [of base req l p k q] points_less [of base req k q l p]
    by (cases l k rule: linorder_cases) simp_all
  then show "p = q" using assms(3) by (simp add: points_total_def word_unat_eq_iff)
qed

text \<open>The two contracts: a gain \<open>adv\<close> spends its points level by level, a loss \<open>down\<close> takes them back.\<close>

locale advancing =
  fixes lev :: "'s \<Rightarrow> nat" and pts :: "'s \<Rightarrow> u64"
    and adv :: "(nat \<Rightarrow> u64) \<Rightarrow> u64 \<Rightarrow> u64 \<Rightarrow> u64 \<Rightarrow> 's \<Rightarrow> 's"
  assumes adv_rest: "\<not> nxt \<le> pts s + n \<Longrightarrow> lev (adv req n cur nxt s) = lev s \<and> pts (adv req n cur nxt s) = pts s + n"
    and adv_top: "nxt \<le> pts s + n \<Longrightarrow> req (lev s + 2) \<le> nxt \<Longrightarrow>
      lev (adv req n cur nxt s) = lev s + 1 \<and> pts (adv req n cur nxt s) = 0"
    and adv_step: "nxt \<le> pts s + n \<Longrightarrow> nxt < req (lev s + 2) \<Longrightarrow>
      \<exists>s1. lev s1 = lev s + 1 \<and> pts s1 = 0 \<and> adv req n cur nxt s = adv req (n - (nxt - pts s)) nxt (req (lev s + 2)) s1"
begin

lemma advances:
  assumes "points_ok base req (lev s) (pts s)" and "unat (pts s) + unat n < 2 ^ 64"
  shows "(let t = adv req n cur (req (lev s + 1)) s in
      points_ok base req (lev t) (pts t) \<and>
        points_total base req (lev t) (pts t) = points_total base req (lev s) (pts s) + unat n \<or>
      lev s < lev t \<and> req (lev t + 1) \<le> req (lev t) \<and> pts t = 0 \<and>
        points_total base req (lev t) 0 \<le> points_total base req (lev s) (pts s) + unat n)"
  using assms
proof (induction "2 ^ 64 - unat (req (lev s + 1))" arbitrary: s n cur rule: less_induct)
  case less
  let ?nxt = "req (lev s + 1)"
  have base: "base \<le> lev s" and below: "unat (pts s) < unat ?nxt"
    using less.prems(1) by (simp_all add: points_ok_def word_less_nat_alt)
  have sum: "unat (pts s + n) = unat (pts s) + unat n" using less.prems(2) by (simp add: unat_add_lem [THEN iffD1])
  show ?case
  proof (cases "?nxt \<le> pts s + n")
    case False
    then show ?thesis using adv_rest [OF False] base sum
      by (simp add: Let_def points_ok_def not_le points_total_def)
  next
    case enough: True
    have gap: "unat (?nxt - pts s) = unat ?nxt - unat (pts s)" using below by (simp add: unat_sub word_le_nat_alt)
    have le: "?nxt - pts s \<le> n" using enough sum gap by (simp add: word_le_nat_alt)
    have rest: "unat (n - (?nxt - pts s)) + unat ?nxt = unat n + unat (pts s)"
      using unat_sub [OF le] gap below le by (simp add: word_le_nat_alt)
    have tot: "points_total base req (Suc (lev s)) 0 + unat (n - (?nxt - pts s)) = points_total base req (lev s) (pts s) + unat n"
      using base rest by (simp add: points_total_Suc points_total_shift [of base req "lev s" "pts s"])
    show ?thesis
    proof (cases "?nxt < req (lev s + 2)")
      case False
      then show ?thesis using adv_top [OF enough] tot by (simp add: Let_def not_less)
    next
      case more: True
      then obtain s1 where s1: "lev s1 = lev s + 1" "pts s1 = 0"
        and eq: "adv req n cur ?nxt s = adv req (n - (?nxt - pts s)) ?nxt (req (lev s + 2)) s1"
        using adv_step [OF enough] by blast
      have "points_ok base req (lev s1) (pts s1)"
        using base more s1 by (simp add: points_ok_def word_greater_zero_iff) (metis word_not_simps(1))
      moreover have "2 ^ 64 - unat (req (lev s1 + 1)) < 2 ^ 64 - unat ?nxt" using rest_decreases more s1 by simp
      moreover have "unat (pts s1) + unat (n - (?nxt - pts s)) < 2 ^ 64"
        using s1 unat_u64_bound [of "n - (?nxt - pts s)"] by simp
      ultimately show ?thesis using less.hyps [of s1 "n - (?nxt - pts s)" ?nxt] eq s1 tot
        by (auto simp: Let_def)
    qed
  qed
qed

end

locale losing =
  fixes lev :: "'s \<Rightarrow> nat" and pts :: "'s \<Rightarrow> u64" and base :: nat and lim :: nat
    and down :: "(nat \<Rightarrow> u64) \<Rightarrow> nat \<Rightarrow> 's \<Rightarrow> 's"
  assumes down_rest: "n \<le> unat (pts s) \<Longrightarrow> unat (pts s) < lim \<Longrightarrow>
      lev (down req n s) = lev s \<and> unat (pts (down req n s)) = unat (pts s) - n"
    and down_step: "unat (pts s) < n \<Longrightarrow> n < lim \<Longrightarrow> base < lev s \<Longrightarrow>
      \<exists>s1. lev s1 = lev s - 1 \<and> pts s1 = req (lev s) \<and> down req n s = down req (n - unat (pts s)) s1"
begin

lemma loses:
  assumes "base \<le> lev s" and "pts s < req (lev s + 1) \<or> pts s \<le> req (lev s + 1) \<and> 0 < n"
    and "n \<le> points_total base req (lev s) (pts s)" and "n < lim" and "\<And>c. unat (req c) < lim"
  shows "points_ok base req (lev (down req n s)) (pts (down req n s)) \<and>
    points_total base req (lev (down req n s)) (pts (down req n s)) = points_total base req (lev s) (pts s) - n"
  using assms(1-4)
proof (induction "lev s" arbitrary: s n rule: less_induct)
  case less
  let ?t = "down req n s"
  show ?case
  proof (cases "n \<le> unat (pts s)")
    case True
    have "unat (pts s) < lim"
      using less.prems(2) assms(5) [of "lev s + 1"] by (auto simp: word_less_nat_alt word_le_nat_alt)
    then have t: "lev ?t = lev s" "unat (pts ?t) = unat (pts s) - n" using down_rest [OF True] by simp_all
    have "unat (pts s) < unat (req (lev s + 1)) \<or> unat (pts s) \<le> unat (req (lev s + 1)) \<and> 0 < n"
      using less.prems(2) by (simp add: word_less_nat_alt word_le_nat_alt)
    then have "pts ?t < req (lev s + 1)" using t(2) True unfolding word_less_nat_alt by linarith
    then show ?thesis using t True less.prems(1) by (simp add: points_ok_def points_total_def)
  next
    case False
    have "base < lev s"
    proof (rule ccontr)
      assume "\<not> base < lev s"
      then have "points_total base req (lev s) (pts s) = unat (pts s)" by (simp add: points_total_def)
      then show False using False less.prems(3) by simp
    qed
    then obtain l where l: "lev s = Suc l" "base \<le> l" by (cases "lev s") auto
    obtain s1 where s1: "lev s1 = l" "pts s1 = req (Suc l)" "?t = down req (n - unat (pts s)) s1"
      using down_step [of s n] False less.prems(4) \<open>base < lev s\<close> l by fastforce
    have "points_total base req l (req (Suc l)) + unat (pts s) = points_total base req (lev s) (pts s)"
      using l by (simp add: points_total_Suc points_total_shift [of base req l "req (Suc l)"])
    then show ?thesis using less.hyps [of s1 "n - unat (pts s)"] s1 l False less.prems(3,4)
      by simp
  qed
qed

end

text \<open>Losing what was gained.\<close>

locale regaining = advancing lev pts adv + losing lev pts base lim down
  for lev :: "'s \<Rightarrow> nat" and pts adv base lim down
begin

lemma gain_then_lose:
  fixes s req n cur
  defines "t \<equiv> adv req n cur (req (lev s + 1)) s"
  assumes ok: "points_ok base req (lev s) (pts s)" and "unat (pts s) + unat n < 2 ^ 64" and n: "unat n < lim"
    and lim: "\<And>c. unat (req c) < lim" and nottop: "req (lev t) < req (lev t + 1)"
  shows "lev (down req (unat n) t) = lev s" "pts (down req (unat n) t) = pts s"
proof -
  have t: "points_ok base req (lev t) (pts t)"
    "points_total base req (lev t) (pts t) = points_total base req (lev s) (pts s) + unat n"
    using advances [OF ok assms(3), of cur] nottop unfolding t_def [symmetric] by (auto simp: Let_def)
  have "points_ok base req (lev (down req (unat n) t)) (pts (down req (unat n) t)) \<and>
      points_total base req (lev (down req (unat n) t)) (pts (down req (unat n) t)) = points_total base req (lev t) (pts t) - unat n"
    by (rule loses) (use t n lim in \<open>auto simp: points_ok_def\<close>)
  then show "lev (down req (unat n) t) = lev s" "pts (down req (unat n) t) = pts s"
    using points_unique [OF _ ok] t(2) by auto
qed

end

section \<open>Skills and magic level meet the contracts\<close>

interpretation skill_gain: advancing skill_level tries skill_advance
proof unfold_locales
  fix nxt s n req cur
  show "skill_level (skill_advance req n cur nxt s) = skill_level s \<and> tries (skill_advance req n cur nxt s) = tries s + n"
    if "\<not> nxt \<le> tries s + n"
    using that by (subst (1 2) skill_advance.simps) simp
  show "skill_level (skill_advance req n cur nxt s) = skill_level s + 1 \<and> tries (skill_advance req n cur nxt s) = 0"
    if "nxt \<le> tries s + n" "req (skill_level s + 2) \<le> nxt"
    using that by (subst (1 2) skill_advance.simps) simp
  show "\<exists>s1. skill_level s1 = skill_level s + 1 \<and> tries s1 = 0 \<and>
      skill_advance req n cur nxt s = skill_advance req (n - (nxt - tries s)) nxt (req (skill_level s + 2)) s1"
    if "nxt \<le> tries s + n" "nxt < req (skill_level s + 2)"
    using that
    by (intro exI [of _ "s\<lparr>skill_level := skill_level s + 1, tries := 0, percent := None\<rparr>"])
      (subst skill_advance.simps, simp add: Let_def)
qed

interpretation magic_gain: advancing magLevel manaSpent mana_advance
proof unfold_locales
  fix nxt s n req cur
  show "magLevel (mana_advance req n cur nxt s) = magLevel s \<and> manaSpent (mana_advance req n cur nxt s) = manaSpent s + n"
    if "\<not> nxt \<le> manaSpent s + n"
    using that by (subst (1 2) mana_advance.simps) simp
  show "magLevel (mana_advance req n cur nxt s) = magLevel s + 1 \<and> manaSpent (mana_advance req n cur nxt s) = 0"
    if "nxt \<le> manaSpent s + n" "req (magLevel s + 2) \<le> nxt"
    using that by (subst (1 2) mana_advance.simps) simp
  show "\<exists>s1. magLevel s1 = magLevel s + 1 \<and> manaSpent s1 = 0 \<and>
      mana_advance req n cur nxt s = mana_advance req (n - (nxt - manaSpent s)) nxt (req (magLevel s + 2)) s1"
    if "nxt \<le> manaSpent s + n" "nxt < req (magLevel s + 2)"
    using that
    by (intro exI [of _ "s\<lparr>magLevel := magLevel s + 1, manaSpent := 0\<rparr>"])
      (subst mana_advance.simps, simp add: Let_def)
qed

interpretation magic: regaining magLevel manaSpent mana_advance 0 "2 ^ 64" "\<lambda>req n. lose_magic req (of_nat n)"
proof unfold_locales
  fix n s and req :: "nat \<Rightarrow> u64"
  have of_n: "unat (of_nat n :: u64) = n" if "n < 2 ^ 64" using that by (simp add: unat_of_nat take_bit_nat_eq_self)
  show "magLevel (lose_magic req (of_nat n) s) = magLevel s \<and> unat (manaSpent (lose_magic req (of_nat n) s)) = unat (manaSpent s) - n"
    if "n \<le> unat (manaSpent s)"
  proof -
    have n: "unat (of_nat n :: u64) = n" using that unat_u64_bound [of "manaSpent s"] by (intro of_n) simp
    then have le: "(of_nat n :: u64) \<le> manaSpent s" using that by (simp add: word_le_nat_alt)
    then have "magic_down req (of_nat n) s = (of_nat n, s)" by (subst magic_down.simps) (simp add: leD)
    then show ?thesis using n unat_sub [OF le] by (simp add: lose_magic_def Let_def)
  qed
  show "\<exists>s1. magLevel s1 = magLevel s - 1 \<and> manaSpent s1 = req (magLevel s) \<and>
      lose_magic req (of_nat n) s = lose_magic req (of_nat (n - unat (manaSpent s))) s1"
    if "unat (manaSpent s) < n" "n < 2 ^ 64" "0 < magLevel s"
  proof -
    have "manaSpent s < of_nat n" using that of_n by (simp add: word_less_nat_alt)
    moreover have "of_nat (n - unat (manaSpent s)) = of_nat n - manaSpent s" using that(1) by (simp add: of_nat_diff)
    ultimately show ?thesis using that(3)
      by (intro exI [of _ "s\<lparr>manaSpent := req (magLevel s), magLevel := magLevel s - 1\<rparr>"])
        (simp add: lose_magic_def, subst magic_down.simps, simp)
  qed
qed





section \<open>Properties\<close>


lemma addManaSpent_cases:
  "addManaSpent noGain req g n m =
     (if noGain \<or> req (magLevel m + 1) \<le> req (magLevel m) \<or> g n = 0 then m
      else mana_advance req (g n) (req (magLevel m)) (req (magLevel m + 1)) m)"
  by (simp add: addManaSpent_def Let_def)



text \<open>Mana spent is never lost: a gain that ends below the top magic level adds exactly its amount to
  the sum of all mana spent, one that reaches the top adds no more, and a death takes exactly the share
  it computes from that sum, without underflow; afterwards the mana spent is below the next requirement.\<close>

theorem magic_points_conserved:
  assumes "points_ok 0 getReqMana (magLevel m) (manaSpent m)" and "getReqMana (magLevel m) < getReqMana (magLevel m + 1)"
    and "unat (manaSpent m) + unat (onGain amount) < 2 ^ 64"
    and "points_total 0 getReqMana (magLevel m) (manaSpent m) < 2 ^ 64"
    and "loss (sumMana getReqMana m) \<le> sumMana getReqMana m"
  shows "(let t = addManaSpent False getReqMana onGain amount m in
      points_ok 0 getReqMana (magLevel t) (manaSpent t) \<and>
        points_total 0 getReqMana (magLevel t) (manaSpent t) = points_total 0 getReqMana (magLevel m) (manaSpent m) + unat (onGain amount) \<or>
      getReqMana (magLevel t + 1) \<le> getReqMana (magLevel t) \<and> manaSpent t = 0 \<and>
        points_total 0 getReqMana (magLevel t) 0 \<le> points_total 0 getReqMana (magLevel m) (manaSpent m) + unat (onGain amount))
    \<and> (let t = death_magic getReqMana loss m in
      points_ok 0 getReqMana (magLevel t) (manaSpent t) \<and>
      points_total 0 getReqMana (magLevel t) (manaSpent t) =
        points_total 0 getReqMana (magLevel m) (manaSpent m) - unat (loss (sumMana getReqMana m)))"
proof (rule conjI, goal_cases)
  case 1
  show ?case
    using magic_gain.advances [OF assms(1,3), of "getReqMana (magLevel m)"] assms(1,2)
    by (auto simp: addManaSpent_cases Let_def)
next
  case 2
  have "sumMana getReqMana m = of_nat (points_total 0 getReqMana (magLevel m) (manaSpent m))"
    by (simp add: sumMana_def points_total_def sum_list_distinct_conv_sum_set atLeastLessThanSuc_atLeastAtMost
        atLeastSucAtMost_greaterThanAtMost [symmetric] del: upt_Suc)
  then have "unat (sumMana getReqMana m) = points_total 0 getReqMana (magLevel m) (manaSpent m)"
    using assms(4) by (simp add: unat_of_nat take_bit_nat_eq_self)
  then have "unat (loss (sumMana getReqMana m)) \<le> points_total 0 getReqMana (magLevel m) (manaSpent m)"
    using assms(5) by (simp add: word_le_nat_alt)
  then show ?case
    using magic.loses [of m getReqMana "unat (loss (sumMana getReqMana m))"] assms(1) unat_u64_bound
    by (simp add: death_magic_def points_ok_def Let_def)
qed

theorem magic_points_conserved_witness:
  "(let t = death_magic (\<lambda>l. if l < 60 then of_nat l * 1600 else 0) (\<lambda>n. n div 10) \<lparr>magLevel = 3, manaSpent = 400, magLevelPercent = None\<rparr> in
      points_total 0 (\<lambda>l. if l < 60 then of_nat l * 1600 else 0) (magLevel t) (manaSpent t) = 9000)"
proof -
  let ?req = "\<lambda>l. if l < 60 then of_nat l * 1600 else 0 :: u64"
  let ?m = "\<lparr>magLevel = 3, manaSpent = 400, magLevelPercent = None\<rparr>"
  have tot: "points_total 0 ?req 3 400 = 10000" by code_simp
  have sum: "sumMana ?req ?m = 10000" by code_simp
  show ?thesis
    using magic_points_conserved [of ?req ?m "\<lambda>n. n" 0 "\<lambda>n. n div 10"] tot sum by (simp add: points_ok_def Let_def)
qed

text \<open>The signed 32-bit difference loses tries: a skill with 3,000,000,000 tries in its level that dies
  for a single try keeps none of them, although the level's requirement is not even reached.\<close>

theorem skill_loss_truncates:
  "(let s = lose_skill (\<lambda>l. 4000000000) 1 \<lparr>skill_level = 100, tries = 3000000000, percent = None\<rparr>
    in skill_level s = 100 \<and> tries s = 0)"
  by code_simp

end
