(* ===== verification/Prop_Stream.thy ===== *)
theory Prop_Stream
  imports Text_Tools
begin

text \<open>
  The property streams of \<^verbatim>\<open>src/io/fileloader.hpp\<close>: \<open>PropWriteStream\<close> is the list of the bytes
  written, \<open>PropStream\<close> the list of the bytes not yet read.  A value of a trivially copyable type is its
  little-endian object representation; a failed read leaves what it has consumed consumed.  The lemmas
  show that every value and every string of at most 65535 bytes is read back from what was written, with
  the rest of the stream untouched.
\<close>

section \<open>Characters as bytes\<close>

definition char_byte :: "char \<Rightarrow> byte" where
  "char_byte c = of_nat (of_char c)"

definition byte_char :: "byte \<Rightarrow> char" where
  "byte_char b = char_of (unat b)"

lemma byte_char_byte [simp]: "byte_char (char_byte c) = c"
  by (simp add: byte_char_def char_byte_def unat_of_nat take_bit_nat_eq_self)

lemma map_byte_char [simp]: "map (byte_char \<circ> char_byte) s = s"
  by (simp add: comp_def)

section \<open>Writing\<close>

definition writeString :: "string \<Rightarrow> byte list" where
  "writeString str =
     (if length str > 65535 then bytes_of (0 :: u16)
      else bytes_of (of_nat (length str) :: u16) @ map char_byte str)"

section \<open>Reading\<close>

definition ps_read :: "byte list \<Rightarrow> 'a::len word option \<times> byte list" where
  "ps_read p =
     (let n = LENGTH('a) div 8 in
      if length p < n then (None, p) else (Some (word_of_bytes (take n p)), drop n p))"

definition ps_readString :: "byte list \<Rightarrow> string option \<times> byte list" where
  "ps_readString p =
     (case ps_read p of
        (None, p1) \<Rightarrow> (None, p1)
      | (Some (strLen :: u16), p1) \<Rightarrow>
          if length p1 < unat strLen then (None, p1)
          else (Some (map byte_char (take (unat strLen) p1)), drop (unat strLen) p1))"

definition ps_skip :: "nat \<Rightarrow> byte list \<Rightarrow> bool \<times> byte list" where
  "ps_skip n p = (if length p < n then (False, p) else (True, drop n p))"

section \<open>What is written is read\<close>

lemma ps_read_bytes [codec_simps]:
  fixes w :: "'a::len word"
  assumes "8 dvd LENGTH('a)"
  shows "ps_read (bytes_of w @ rest) = (Some w, rest)"
  using word_of_bytes_of [OF assms, of w] by (simp add: ps_read_def sizeof_def Let_def)

lemma ps_read_u8: "ps_read (bytes_of (b :: u8) @ rest) = (Some b, rest)"
  by (rule ps_read_bytes) simp

lemmas ps_read_byte [codec_simps] = ps_read_u8 [simplified]
lemmas ps_read_words [codec_simps] =
  ps_read_bytes [where 'a = 16, simplified] ps_read_bytes [where 'a = 32, simplified] ps_read_bytes [where 'a = 64, simplified]

lemma ps_readString_writeString [codec_simps]:
  "ps_readString (writeString s @ rest) = (Some (if length s > 65535 then [] else s), rest)"
proof (cases "length s > 65535")
  case False
  then have "unat (of_nat (length s) :: u16) = length s" by (simp add: unat_of_nat take_bit_nat_eq_self)
  then show ?thesis using False ps_read_words(1) [of "of_nat (length s)" "map char_byte s @ rest"]
    by (simp add: ps_readString_def writeString_def)
qed (simp add: ps_readString_def writeString_def codec_simps)

text \<open>No read moves past the end, and a read that succeeds consumes exactly its size.\<close>

lemma ps_read_rest: "ps_read p = (v :: 'a::len word option, q) \<Longrightarrow> q = (case v of None \<Rightarrow> p | Some _ \<Rightarrow> drop (LENGTH('a) div 8) p)"
  by (auto simp: ps_read_def Let_def split: if_splits)

lemma ps_readString_shorter: "ps_readString p = (v, q) \<Longrightarrow> length q \<le> length p"
  by (auto simp: ps_readString_def split: prod.splits option.splits if_splits dest!: ps_read_rest)

end
