(* ===== verification/Item_Attributes.thy ===== *)
theory Item_Attributes
  imports Prop_Stream "HOL-Library.List_Lexorder" "HOL-Library.Multiset"
begin

text \<open>
  The attributes of an item: \<^verbatim>\<open>src/items/functions/item/attribute.hpp\<close>, \<^verbatim>\<open>attribute.cpp\<close>,
  \<^verbatim>\<open>custom_attribute.cpp\<close> and the part of \<open>ItemProperties\<close> of \<^verbatim>\<open>src/items/item.hpp\<close> that uses
  them.  Integers are 64-bit words read as signed, doubles their 64 bits; the map of custom attributes is
  a list sorted by key, and an item whose attribute pointer is null has no attributes.  The lemmas show
  that every attribute holds a value of the type its kind prescribes and that the vector behaves as a map.
\<close>

section \<open>Kinds and values\<close>

datatype ItemAttribute_t =
    NONE | ACTIONID | UNIQUEID | DESCRIPTION | TEXT | DATE | WRITER | NAME | ARTICLE | PLURALNAME
  | WEIGHT | ATTACK | DEFENSE | EXTRADEFENSE | ARMOR | HITCHANCE | SHOOTRANGE | OWNER | DURATION
  | DECAYSTATE | CORPSEOWNER | CHARGES | FLUIDTYPE | DOORID | SPECIAL | IMBUEMENT_SLOT | OPENCONTAINER
  | QUICKLOOTCONTAINER | DURATION_TIMESTAMP | AMOUNT | TIER | STORE | CUSTOM | LOOTMESSAGE_SUFFIX
  | STORE_INBOX_CATEGORY | OBTAINCONTAINER | AUGMENTS

definition isAttributeInteger :: "ItemAttribute_t \<Rightarrow> bool" where
  "isAttributeInteger type \<longleftrightarrow> type \<in> set [STORE, ACTIONID, UNIQUEID, DATE, WEIGHT, ATTACK, DEFENSE, EXTRADEFENSE,
     ARMOR, HITCHANCE, SHOOTRANGE, OWNER, DURATION, DECAYSTATE, CORPSEOWNER, CHARGES, FLUIDTYPE, DOORID,
     IMBUEMENT_SLOT, OPENCONTAINER, QUICKLOOTCONTAINER, OBTAINCONTAINER, DURATION_TIMESTAMP, TIER, AMOUNT]"

definition isAttributeString :: "ItemAttribute_t \<Rightarrow> bool" where
  "isAttributeString type \<longleftrightarrow> type \<in> set [DESCRIPTION, TEXT, WRITER, NAME, ARTICLE, PLURALNAME, SPECIAL,
     LOOTMESSAGE_SUFFIX, STORE_INBOX_CATEGORY]"

datatype AttrValue = IntegerValue u64 | StringValue string

type_synonym Attributes = "ItemAttribute_t \<times> AttrValue"

definition getDefaultValueForType :: "ItemAttribute_t \<Rightarrow> AttrValue" where
  "getDefaultValueForType attributeType =
     (if isAttributeInteger attributeType then IntegerValue 0
      else if isAttributeString attributeType then StringValue []
      else IntegerValue 0)"

definition setValue_integer :: "u64 \<Rightarrow> Attributes \<Rightarrow> Attributes" where
  "setValue_integer newValue a = (case a of (t, IntegerValue _) \<Rightarrow> (t, IntegerValue newValue) | _ \<Rightarrow> a)"

definition setValue_string :: "string \<Rightarrow> Attributes \<Rightarrow> Attributes" where
  "setValue_string newValue a = (case a of (t, StringValue _) \<Rightarrow> (t, StringValue newValue) | _ \<Rightarrow> a)"

fun getInteger :: "Attributes \<Rightarrow> u64" where
  "getInteger (t, IntegerValue i) = i" | "getInteger (t, StringValue s) = 0"

fun getString :: "Attributes \<Rightarrow> string" where
  "getString (t, StringValue s) = s" | "getString (t, IntegerValue i) = []"

section \<open>The vector of attributes\<close>

fun getAttribute :: "ItemAttribute_t \<Rightarrow> Attributes list \<Rightarrow> Attributes option" where
  "getAttribute type [] = None"
| "getAttribute type (a # as) = (if fst a = type then Some a else getAttribute type as)"

definition hasAttribute :: "ItemAttribute_t \<Rightarrow> Attributes list \<Rightarrow> bool" where
  "hasAttribute type attributeVector \<longleftrightarrow> list_ex (\<lambda>attr. fst attr = type) attributeVector"

definition getAttributeString :: "ItemAttribute_t \<Rightarrow> Attributes list \<Rightarrow> string" where
  "getAttributeString type attributeVector =
     (if \<not> isAttributeString type then []
      else case getAttribute type attributeVector of None \<Rightarrow> [] | Some attribute \<Rightarrow> getString attribute)"

definition getAttributeValue :: "ItemAttribute_t \<Rightarrow> Attributes list \<Rightarrow> u64" where
  "getAttributeValue type attributeVector =
     (if \<not> isAttributeInteger type then 0
      else case getAttribute type attributeVector of None \<Rightarrow> 0 | Some attribute \<Rightarrow> getInteger attribute)"

text \<open>The reference that \<open>getAttributesByType\<close> returns is updated by a function.\<close>

fun getAttributesByType :: "ItemAttribute_t \<Rightarrow> (Attributes \<Rightarrow> Attributes) \<Rightarrow> Attributes list \<Rightarrow> Attributes list" where
  "getAttributesByType type f [] = [f (type, getDefaultValueForType type)]"
| "getAttributesByType type f (attribute # as) =
     (if fst attribute = type then f attribute # as else attribute # getAttributesByType type f as)"

definition setAttribute_integer :: "ItemAttribute_t \<Rightarrow> u64 \<Rightarrow> Attributes list \<Rightarrow> Attributes list" where
  "setAttribute_integer type value attributeVector =
     (if \<not> isAttributeInteger type then attributeVector
      else getAttributesByType type (setValue_integer value) attributeVector)"

definition setAttribute_string :: "ItemAttribute_t \<Rightarrow> string \<Rightarrow> Attributes list \<Rightarrow> Attributes list" where
  "setAttribute_string type value attributeVector =
     (if \<not> isAttributeString type then attributeVector
      else if value = [] then attributeVector
      else getAttributesByType type (setValue_string value) attributeVector)"

definition removeAttribute :: "ItemAttribute_t \<Rightarrow> Attributes list \<Rightarrow> bool \<times> Attributes list" where
  "removeAttribute type attributeVector =
     (let i = length (takeWhile (\<lambda>attr. fst attr \<noteq> type) attributeVector) in
      if i = length attributeVector then (False, attributeVector)
      else (True, butlast (attributeVector[i := last attributeVector])))"

section \<open>Custom attributes\<close>

datatype CustomValue = CustomInt u64 | CustomString string | CustomDouble u64 | CustomBool bool

record CustomAttribute =
  stringKey :: string
  custom_value :: CustomValue

fun map_put :: "string \<Rightarrow> 'v \<Rightarrow> (string \<times> 'v) list \<Rightarrow> (string \<times> 'v) list" where
  "map_put k v [] = [(k, v)]"
| "map_put k v ((k', v') # m) =
     (if k = k' then (k, v) # m else if k < k' then (k, v) # (k', v') # m else (k', v') # map_put k v m)"

definition setCustomAttribute :: "string \<Rightarrow> CustomValue \<Rightarrow> (string \<times> CustomAttribute) list \<Rightarrow> (string \<times> CustomAttribute) list" where
  "setCustomAttribute key value m = map_put (asLowerCaseString key) \<lparr>stringKey = key, custom_value = value\<rparr> m"

definition addCustomAttribute :: "string \<Rightarrow> CustomAttribute \<Rightarrow> (string \<times> CustomAttribute) list \<Rightarrow> (string \<times> CustomAttribute) list" where
  "addCustomAttribute key customAttribute m = map_put (asLowerCaseString key) customAttribute m"

definition getCustomAttribute :: "string \<Rightarrow> (string \<times> CustomAttribute) list \<Rightarrow> CustomAttribute option" where
  "getCustomAttribute attributeName m = map_of m (asLowerCaseString attributeName)"

definition removeCustomAttribute :: "string \<Rightarrow> (string \<times> CustomAttribute) list \<Rightarrow> bool \<times> (string \<times> CustomAttribute) list" where
  "removeCustomAttribute attributeName m =
     (let key = asLowerCaseString attributeName in
      if map_of m key = None then (False, m) else (True, filter (\<lambda>e. fst e \<noteq> key) m))"

definition custom_serialize :: "CustomAttribute \<Rightarrow> byte list" where
  "custom_serialize c =
     (case custom_value c of
        CustomString s \<Rightarrow> bytes_of (1 :: u8) @ writeString s
      | CustomInt i \<Rightarrow> bytes_of (2 :: u8) @ bytes_of i
      | CustomDouble d \<Rightarrow> bytes_of (3 :: u8) @ bytes_of d
      | CustomBool b \<Rightarrow> bytes_of (4 :: u8) @ bytes_of (if b then 1 else 0 :: u8))"

text \<open>A byte other than zero is read as true.\<close>

definition custom_unserialize :: "byte list \<Rightarrow> CustomAttribute option \<times> byte list" where
  "custom_unserialize p =
     (case ps_read p of
        (None, p1) \<Rightarrow> (None, p1)
      | (Some (type :: u8), p1) \<Rightarrow>
          if type = 1 then
            (case ps_readString p1 of (None, p2) \<Rightarrow> (None, p2) | (Some s, p2) \<Rightarrow> (Some \<lparr>stringKey = [], custom_value = CustomString s\<rparr>, p2))
          else if type = 2 then
            (case ps_read p1 of (None, p2) \<Rightarrow> (None, p2) | (Some i, p2) \<Rightarrow> (Some \<lparr>stringKey = [], custom_value = CustomInt i\<rparr>, p2))
          else if type = 3 then
            (case ps_read p1 of (None, p2) \<Rightarrow> (None, p2) | (Some d, p2) \<Rightarrow> (Some \<lparr>stringKey = [], custom_value = CustomDouble d\<rparr>, p2))
          else if type = 4 then
            (case ps_read p1 of (None, p2) \<Rightarrow> (None, p2) | (Some (b :: u8), p2) \<Rightarrow> (Some \<lparr>stringKey = [], custom_value = CustomBool (b \<noteq> 0)\<rparr>, p2))
          else (None, p1))"

section \<open>Typed attributes\<close>

definition typed :: "Attributes \<Rightarrow> bool" where
  "typed a \<longleftrightarrow> (case snd a of
     IntegerValue i \<Rightarrow> isAttributeInteger (fst a)
   | StringValue s \<Rightarrow> isAttributeString (fst a) \<and> s \<noteq> [])"

definition attributes_ok :: "Attributes list \<Rightarrow> bool" where
  "attributes_ok as \<longleftrightarrow> distinct (map fst as) \<and> list_all typed as"

lemma kinds_disjoint: "isAttributeInteger t \<Longrightarrow> \<not> isAttributeString t"
  by (cases t) (simp_all add: isAttributeInteger_def isAttributeString_def)

lemma hasAttribute_set: "hasAttribute t as \<longleftrightarrow> t \<in> fst ` set as"
  by (force simp: hasAttribute_def list_ex_iff)

lemma getAttribute_map_of: "getAttribute t as = map_option (Pair t) (map_of as t)"
  by (induction as) auto

lemma getAttributesByType_keys:
  assumes "\<And>v. fst (f (t, v)) = t"
  shows "map fst (getAttributesByType t f as) = (if t \<in> fst ` set as then map fst as else map fst as @ [t])"
  using assms by (induction as) auto

lemma getAttributesByType_typed:
  assumes "\<And>v. typed (t, v) \<or> v = getDefaultValueForType t \<Longrightarrow> typed (f (t, v))" and "list_all typed as"
  shows "list_all typed (getAttributesByType t f as)"
  using assms(2) by (induction as) (auto simp: assms(1))

lemma getAttributesByType_map_of:
  assumes "\<And>v. fst (f (t, v)) = t"
  shows "map_of (getAttributesByType t f as) =
    (map_of as)(t \<mapsto> snd (f (t, case map_of as t of None \<Rightarrow> getDefaultValueForType t | Some v \<Rightarrow> v)))"
proof (induction as)
  case Nil
  show ?case using assms by (auto simp: fun_eq_iff)
next
  case (Cons a as)
  obtain k v where a: "a = (k, v)" by (cases a)
  show ?case
  proof (cases "k = t")
    case True
    have "f (t, v) = (t, snd (f (t, v)))" using assms by (metis prod.collapse)
    then show ?thesis using True a by (simp add: fun_upd_twist) (metis fun_upd_upd map_of_Cons_code(2) map_of.simps(2) fst_conv snd_conv)
  next
    case False
    then show ?thesis using Cons a by (auto simp: fun_eq_iff)
  qed
qed


lemma set_fst [simp]: "fst (setValue_integer i a) = fst a" "fst (setValue_string s a) = fst a"
  by (auto simp: setValue_integer_def setValue_string_def split: prod.split AttrValue.split)

lemma setAttribute_integer_ok: "attributes_ok as \<Longrightarrow> attributes_ok (setAttribute_integer t i as)"
  unfolding attributes_ok_def setAttribute_integer_def
  by (auto simp: getAttributesByType_keys intro!: getAttributesByType_typed)
    (auto simp: typed_def setValue_integer_def getDefaultValueForType_def split: AttrValue.splits dest: kinds_disjoint)

lemma setAttribute_string_ok: "attributes_ok as \<Longrightarrow> attributes_ok (setAttribute_string t s as)"
  unfolding attributes_ok_def setAttribute_string_def
  by (auto simp: getAttributesByType_keys intro!: getAttributesByType_typed)
    (auto simp: typed_def setValue_string_def getDefaultValueForType_def split: AttrValue.splits dest: kinds_disjoint)

lemma typed_lookup:
  assumes "attributes_ok as" and "map_of as t = Some v"
  shows "typed (t, v)"
  using assms map_of_SomeD by (fastforce simp: attributes_ok_def list_all_iff)

lemma typed_integer: "typed (t, v) \<Longrightarrow> isAttributeInteger t \<Longrightarrow> \<exists>i. v = IntegerValue i"
  by (cases v) (auto simp: typed_def dest: kinds_disjoint)

lemma typed_string: "typed (t, v) \<Longrightarrow> isAttributeString t \<Longrightarrow> \<exists>s. v = StringValue s \<and> s \<noteq> []"
  by (cases v) (auto simp: typed_def dest: kinds_disjoint)

lemma setAttribute_integer_map:
  assumes "attributes_ok as" and "isAttributeInteger t"
  shows "map_of (setAttribute_integer t i as) = (map_of as)(t \<mapsto> IntegerValue i)"
proof -
  note upd = getAttributesByType_map_of [of "setValue_integer i" t as, simplified]
  show ?thesis
  proof (cases "map_of as t")
  case (Some v)
  then obtain j where "v = IntegerValue j" using typed_integer [OF typed_lookup [OF assms(1) Some] assms(2)] by blast
  then show ?thesis using assms(2) Some by (simp add: setAttribute_integer_def upd setValue_integer_def)
  qed (use assms(2) in \<open>simp add: setAttribute_integer_def upd setValue_integer_def getDefaultValueForType_def\<close>)
qed

lemma setAttribute_string_map:
  assumes "attributes_ok as" and "isAttributeString t" and "s \<noteq> []"
  shows "map_of (setAttribute_string t s as) = (map_of as)(t \<mapsto> StringValue s)"
proof -
  note upd = getAttributesByType_map_of [of "setValue_string s" t as, simplified]
  show ?thesis
  proof (cases "map_of as t")
  case None
  then show ?thesis using assms(2,3) kinds_disjoint [of t]
    by (auto simp: setAttribute_string_def upd setValue_string_def getDefaultValueForType_def)
next
  case (Some v)
  then obtain r where "v = StringValue r" using typed_string [OF typed_lookup [OF assms(1) Some] assms(2)] by blast
  then show ?thesis using assms(2,3) Some by (simp add: setAttribute_string_def upd setValue_string_def)
  qed
qed

text \<open>Removing moves the last attribute into the gap.\<close>

lemma removeAttribute_perm:
  assumes "map_of as t = Some v"
  shows "fst (removeAttribute t as) \<and> (\<exists>xs ys. as = xs @ (t, v) # ys \<and> t \<notin> fst ` set xs \<and>
    set (snd (removeAttribute t as)) = set xs \<union> set ys \<and> mset (snd (removeAttribute t as)) = mset xs + mset ys)"
proof -
  have ex: "\<exists>x \<in> set as. \<not> fst x \<noteq> t" using assms map_of_SomeD [of as t v] by force
  obtain xs y ys where as: "as = xs @ y # ys" "takeWhile (\<lambda>attr. fst attr \<noteq> t) as = xs" "fst y = t" "\<forall>x \<in> set xs. fst x \<noteq> t"
    using split_list_first_prop [OF ex] by (auto simp: takeWhile_append takeWhile_eq_all_conv [THEN iffD2])
  have "map_of xs t = None" using as(4) by (auto simp: map_of_eq_None_iff)
  then have y: "y = (t, v)" using assms as(1,3) by (cases y) (auto simp: map_add_def)
  have res: "snd (removeAttribute t as) = (if ys = [] then xs else xs @ last ys # butlast ys)"
    using as(1,2) by (auto simp: removeAttribute_def Let_def list_update_append butlast_append)
  have "mset (last ys # butlast ys) = mset ys" if "ys \<noteq> []"
    using that by (cases ys rule: rev_cases) simp_all
  then have m: "mset (snd (removeAttribute t as)) = mset xs + mset ys"
    unfolding res by auto
  then have "set (snd (removeAttribute t as)) = set xs \<union> set ys" by (metis set_mset_mset set_mset_union)
  moreover have "fst (removeAttribute t as)" using as(1,2) by (simp add: removeAttribute_def Let_def)
  ultimately show ?thesis using as(1,4) y m by blast
qed

lemma removeAttribute_absent: "map_of as t = None \<Longrightarrow> removeAttribute t as = (False, as)"
  by (simp add: removeAttribute_def map_of_eq_None_iff Let_def) (metis (mono_tags, lifting) image_eqI takeWhile_eq_all_conv)

lemma removeAttribute_ok:
  assumes "attributes_ok as"
  shows "attributes_ok (snd (removeAttribute t as)) \<and> map_of (snd (removeAttribute t as)) = (map_of as)(t := None)
    \<and> fst (removeAttribute t as) = hasAttribute t as"
proof (cases "map_of as t")
  case None
  then have "t \<notin> fst ` set as" by (simp add: map_of_eq_None_iff)
  then show ?thesis using assms removeAttribute_absent [OF None] None by (auto simp: hasAttribute_set)
next
  case (Some v)
  let ?r = "snd (removeAttribute t as)"
  obtain xs ys where x: "fst (removeAttribute t as)" "as = xs @ (t, v) # ys" "set ?r = set xs \<union> set ys" "mset ?r = mset xs + mset ys"
    using removeAttribute_perm [OF Some] by blast
  have "mset (map fst ?r) = mset (map fst (xs @ ys))" using x(4) by simp
  then have d: "distinct (map fst ?r)" using assms x(2) mset_eq_imp_distinct_iff [of "map fst ?r" "map fst (xs @ ys)"]
    by (auto simp: attributes_ok_def)
  have "map_of ?r k = ((map_of as)(t := None)) k" for k
  proof (cases "map_of ?r k")
    case None
    then have "k \<notin> fst ` (set xs \<union> set ys)" using x(3) by (simp add: map_of_eq_None_iff)
    then have "map_of xs k = None" "map_of ys k = None" by (auto simp: map_of_eq_None_iff)
    then have "((map_of as)(t := None)) k = None" using x(2) by (simp add: map_add_def)
    then show ?thesis using None by simp
  next
    case (Some w)
    then have kw: "(k, w) \<in> set xs \<union> set ys" using x(3) map_of_SomeD by force
    then have "k \<noteq> t" using assms x(2) by (force simp: attributes_ok_def)
    moreover have "map_of as k = Some w"
      using kw assms x(2) by (intro map_of_is_SomeI) (auto simp: attributes_ok_def)
    ultimately show ?thesis using Some by simp
  qed
  then have "map_of ?r = (map_of as)(t := None)" by (rule ext)
  moreover have "list_all typed ?r" using assms x(2,3) by (auto simp: attributes_ok_def list_all_iff)
  ultimately show ?thesis using d x(1,2) by (auto simp: attributes_ok_def hasAttribute_set)
qed

section \<open>Sequences of operations\<close>

datatype attribute_op = Set_Integer ItemAttribute_t u64 | Set_String ItemAttribute_t string | Remove ItemAttribute_t

fun run_attribute_op :: "attribute_op \<Rightarrow> Attributes list \<Rightarrow> Attributes list" where
  "run_attribute_op (Set_Integer t i) as = setAttribute_integer t i as"
| "run_attribute_op (Set_String t s) as = setAttribute_string t s as"
| "run_attribute_op (Remove t) as = snd (removeAttribute t as)"

text \<open>The same operations on a map: a write of the wrong kind, or of an empty string, does nothing.\<close>

fun map_attribute_op :: "attribute_op \<Rightarrow> (ItemAttribute_t \<rightharpoonup> AttrValue) \<Rightarrow> ItemAttribute_t \<rightharpoonup> AttrValue" where
  "map_attribute_op (Set_Integer t i) m = (if isAttributeInteger t then m(t \<mapsto> IntegerValue i) else m)"
| "map_attribute_op (Set_String t s) m = (if isAttributeString t \<and> s \<noteq> [] then m(t \<mapsto> StringValue s) else m)"
| "map_attribute_op (Remove t) m = m(t := None)"

lemma run_attribute_op_ok:
  assumes "attributes_ok as"
  shows "attributes_ok (run_attribute_op oper as) \<and> map_of (run_attribute_op oper as) = map_attribute_op oper (map_of as)"
proof (cases oper)
  case (Set_Integer t i)
  then show ?thesis using assms by (cases "isAttributeInteger t")
    (simp_all add: setAttribute_integer_ok setAttribute_integer_map, simp add: setAttribute_integer_def)
next
  case (Set_String t s)
  then show ?thesis using assms by (cases "isAttributeString t \<and> s \<noteq> []")
    (simp_all add: setAttribute_string_ok setAttribute_string_map, auto simp: setAttribute_string_def)
next
  case (Remove t)
  then show ?thesis using removeAttribute_ok [OF assms] by simp
qed

text \<open>C26: An attribute always holds a value of the type of its kind: after any sequence of writes (of either
  type to any kind) and removals, the vector has at most one attribute of each kind, an integer for the
  integer kinds, a string that is not empty for the string kinds, none for the others, and it holds
  exactly what a map updated by the same operations holds.\<close>

theorem attributes_are_typed:
  "attributes_ok (fold run_attribute_op ops []) \<and>
   map_of (fold run_attribute_op ops []) = fold map_attribute_op ops Map.empty"
proof (induction ops rule: rev_induct)
  case Nil
  show ?case by (simp add: attributes_ok_def)
next
  case (snoc oper ops)
  then show ?case using run_attribute_op_ok [of "fold run_attribute_op ops []" oper] by simp
qed

end
