(* ===== verification/Item_Serialization.thy ===== *)
theory Item_Serialization
  imports Item_Attributes
begin

text \<open>
  Saving and loading the attributes of an item: \<open>serializeAttr\<close>, \<open>unserializeAttr\<close> and \<open>readAttr\<close> of
  \<^verbatim>\<open>src/items/item.cpp\<close>, with the constructor, the getters and the setters they use.  The item types,
  the clock, the configured highest tier and the registry of unique items are given by a record.  The
  lemmas show that reading what was written restores every attribute that is written, list exactly the
  items for which nothing is lost, and exhibit those that change.
\<close>

section \<open>Items\<close>

record ItemType =
  stackable :: bool
  fluidContainer :: bool
  splash :: bool
  movable :: bool
  charges :: u32
  decayTime :: u32
  stopTime :: bool
  decayTo :: int

record World =
  itemTypes :: "u16 \<Rightarrow> ItemType"
  OTSYS_TIME :: u64
  getTimeNow :: u64
  maxItemTier :: int
  addUniqueItem :: "u16 \<Rightarrow> bool"

record Item =
  item_id :: u16
  item_count :: u8
  attributeVector :: "Attributes list"
  customAttributeMap :: "(string \<times> CustomAttribute) list"

text \<open>\<open>getAttribute<T>\<close> casts before it clamps, so that it truncates.\<close>

definition getAttribute_as :: "ItemAttribute_t \<Rightarrow> Item \<Rightarrow> 'a::len word" where
  "getAttribute_as type item = ucast (getAttributeValue type (attributeVector item))"

definition set_integer :: "ItemAttribute_t \<Rightarrow> u64 \<Rightarrow> Item \<Rightarrow> Item" where
  "set_integer type value item = item\<lparr>attributeVector := setAttribute_integer type value (attributeVector item)\<rparr>"

definition set_string :: "ItemAttribute_t \<Rightarrow> string \<Rightarrow> Item \<Rightarrow> Item" where
  "set_string type value item = item\<lparr>attributeVector := setAttribute_string type value (attributeVector item)\<rparr>"

definition remove_attribute :: "ItemAttribute_t \<Rightarrow> Item \<Rightarrow> Item" where
  "remove_attribute type item = item\<lparr>attributeVector := snd (removeAttribute type (attributeVector item))\<rparr>"

definition add_custom :: "string \<Rightarrow> CustomAttribute \<Rightarrow> Item \<Rightarrow> Item" where
  "add_custom key c item = item\<lparr>customAttributeMap := addCustomAttribute key c (customAttributeMap item)\<rparr>"

definition has_attribute :: "ItemAttribute_t \<Rightarrow> Item \<Rightarrow> bool" where
  "has_attribute type item = hasAttribute type (attributeVector item)"

definition get_string :: "ItemAttribute_t \<Rightarrow> Item \<Rightarrow> string" where
  "get_string type item = getAttributeString type (attributeVector item)"

definition is_fluid :: "ItemType \<Rightarrow> bool" where
  "is_fluid it \<longleftrightarrow> fluidContainer it \<or> splash it"

definition getSubType :: "World \<Rightarrow> Item \<Rightarrow> u16" where
  "getSubType w item =
     (let it = itemTypes w (item_id item) in
      if is_fluid it then getAttribute_as FLUIDTYPE item
      else if stackable it then ucast (item_count item)
      else if charges it \<noteq> 0 then getAttribute_as CHARGES item
      else ucast (item_count item))"

definition setSubType :: "World \<Rightarrow> u16 \<Rightarrow> Item \<Rightarrow> Item" where
  "setSubType w n item =
     (let it = itemTypes w (item_id item) in
      if is_fluid it then set_integer FLUIDTYPE (ucast n) item
      else if stackable it then item\<lparr>item_count := ucast n\<rparr>
      else if charges it \<noteq> 0 then set_integer CHARGES (ucast n) item
      else item\<lparr>item_count := ucast n\<rparr>)"

definition setDuration :: "u32 \<Rightarrow> Item \<Rightarrow> Item" where
  "setDuration time item = set_integer DURATION (if 0 \<le>s time then ucast time else 0) item"

definition setDecaying :: "u64 \<Rightarrow> Item \<Rightarrow> Item" where
  "setDecaying decayState item =
     (let item1 = set_integer DECAYSTATE decayState item
      in if decayState = 0 then remove_attribute DURATION_TIMESTAMP item1 else item1)"

definition getDecaying :: "Item \<Rightarrow> u8" where
  "getDecaying item = ucast (getAttribute_as DECAYSTATE item :: u64)"

definition getDuration :: "World \<Rightarrow> Item \<Rightarrow> u32" where
  "getDuration w item =
     (let decayState = getDecaying item in
      if decayState = 1 \<or> decayState = 3 then
        (let left = getAttribute_as DURATION_TIMESTAMP item - ucast (OTSYS_TIME w) in if 0 \<le>s left then left else 0)
      else getAttribute_as DURATION item)"

definition getTier :: "World \<Rightarrow> Item \<Rightarrow> u8" where
  "getTier w item =
     (if \<not> has_attribute TIER item then 0
      else let tier = getAttribute_as TIER item in if uint tier > maxItemTier w then 0 else tier)"

definition addUniqueId :: "World \<Rightarrow> u16 \<Rightarrow> Item \<Rightarrow> Item" where
  "addUniqueId w uniqueId item =
     (if has_attribute UNIQUEID item then item
      else if addUniqueItem w uniqueId then set_integer UNIQUEID (ucast uniqueId) item else item)"

definition FLUID_INK :: u16 where "FLUID_INK = 18"

text \<open>The constructor.\<close>

definition new_item :: "World \<Rightarrow> u16 \<Rightarrow> u16 \<Rightarrow> Item" where
  "new_item w itemId itemCount =
     (let it = itemTypes w itemId;
          item = \<lparr>item_id = itemId, item_count = 1, attributeVector = [], customAttributeMap = []\<rparr>;
          item1 =
            (if is_fluid it then set_integer FLUIDTYPE (ucast (min FLUID_INK (max 1 itemCount))) item
             else if stackable it then
               (if itemCount \<noteq> 0 then item\<lparr>item_count := ucast itemCount\<rparr>
                else if charges it \<noteq> 0 then item\<lparr>item_count := ucast (charges it)\<rparr> else item)
             else if charges it \<noteq> 0 then
               (if itemCount \<noteq> 0 then set_integer CHARGES (ucast itemCount) item
                else set_integer CHARGES (ucast (charges it)) item)
             else item);
          duration = decayTime it * 1000
      in if duration \<noteq> 0 then setDuration duration item1 else item1)"

text \<open>Two items are equal if no attribute that both have, the store stamp apart, differs.\<close>

definition isStoreItem :: "Item \<Rightarrow> bool" where
  "isStoreItem item \<longleftrightarrow> 0 <s (getAttribute_as STORE item :: u64)"

definition getOwnerId :: "Item \<Rightarrow> u32" where
  "getOwnerId item = (if has_attribute OWNER item then getAttribute_as OWNER item else 0)"

definition item_equals :: "Item \<Rightarrow> Item option \<Rightarrow> bool" where
  "item_equals item compareItem =
     (case compareItem of None \<Rightarrow> False
      | Some other \<Rightarrow>
          item_id item = item_id other \<and> isStoreItem item = isStoreItem other \<and> getOwnerId item = getOwnerId other \<and>
          list_all (\<lambda>attribute. fst attribute = STORE \<or>
            list_all (\<lambda>compareAttribute. fst attribute \<noteq> fst compareAttribute \<or>
              \<not> (isAttributeInteger (fst attribute) \<and> getInteger attribute \<noteq> getInteger compareAttribute) \<and>
              \<not> (isAttributeString (fst attribute) \<and> getString attribute \<noteq> getString compareAttribute))
              (attributeVector other)) (attributeVector item))"

section \<open>Reading attributes\<close>

datatype AttrTypes_t =
    ATTR_STORE | ATTR_TILE_FLAGS | ATTR_ACTION_ID | ATTR_UNIQUE_ID | ATTR_TEXT | ATTR_DESC | ATTR_TELE_DEST
  | ATTR_ITEM | ATTR_DEPOT_ID | ATTR_RUNE_CHARGES | ATTR_HOUSEDOORID | ATTR_COUNT | ATTR_DURATION
  | ATTR_DECAYING_STATE | ATTR_WRITTENDATE | ATTR_WRITTENBY | ATTR_SLEEPERGUID | ATTR_SLEEPSTART | ATTR_CHARGES
  | ATTR_CONTAINER_ITEMS | ATTR_NAME | ATTR_ARTICLE | ATTR_PLURALNAME | ATTR_WEIGHT | ATTR_ATTACK | ATTR_DEFENSE
  | ATTR_EXTRADEFENSE | ATTR_ARMOR | ATTR_HITCHANCE | ATTR_SHOOTRANGE | ATTR_SPECIAL | ATTR_IMBUEMENT_SLOT
  | ATTR_OPENCONTAINER | ATTR_CUSTOM_ATTRIBUTES | ATTR_QUICKLOOTCONTAINER | ATTR_AMOUNT | ATTR_TIER | ATTR_CUSTOM
  | ATTR_STORE_INBOX_CATEGORY | ATTR_OWNER | ATTR_OBTAINCONTAINER

definition attr_codes :: "(u8 \<times> AttrTypes_t) list" where
  "attr_codes = [(1, ATTR_STORE), (3, ATTR_TILE_FLAGS), (4, ATTR_ACTION_ID), (5, ATTR_UNIQUE_ID), (6, ATTR_TEXT),
     (7, ATTR_DESC), (8, ATTR_TELE_DEST), (9, ATTR_ITEM), (10, ATTR_DEPOT_ID), (12, ATTR_RUNE_CHARGES),
     (14, ATTR_HOUSEDOORID), (15, ATTR_COUNT), (16, ATTR_DURATION), (17, ATTR_DECAYING_STATE), (18, ATTR_WRITTENDATE),
     (19, ATTR_WRITTENBY), (20, ATTR_SLEEPERGUID), (21, ATTR_SLEEPSTART), (22, ATTR_CHARGES), (23, ATTR_CONTAINER_ITEMS),
     (24, ATTR_NAME), (25, ATTR_ARTICLE), (26, ATTR_PLURALNAME), (27, ATTR_WEIGHT), (28, ATTR_ATTACK), (29, ATTR_DEFENSE),
     (30, ATTR_EXTRADEFENSE), (31, ATTR_ARMOR), (32, ATTR_HITCHANCE), (33, ATTR_SHOOTRANGE), (34, ATTR_SPECIAL),
     (35, ATTR_IMBUEMENT_SLOT), (36, ATTR_OPENCONTAINER), (37, ATTR_CUSTOM_ATTRIBUTES), (38, ATTR_QUICKLOOTCONTAINER),
     (39, ATTR_AMOUNT), (40, ATTR_TIER), (41, ATTR_CUSTOM), (42, ATTR_STORE_INBOX_CATEGORY), (43, ATTR_OWNER),
     (44, ATTR_OBTAINCONTAINER)]"

definition attr_code :: "AttrTypes_t \<Rightarrow> u8" where
  "attr_code a = the (map_of (map (\<lambda>(c, a). (a, c)) attr_codes) a)"

datatype Attr_ReadValue = ATTR_READ_CONTINUE | ATTR_READ_ERROR | ATTR_READ_END

type_synonym attr_reader = "byte list \<Rightarrow> Item \<Rightarrow> Attr_ReadValue \<times> byte list \<times> Item"

definition with_word :: "('a::len word \<Rightarrow> Item \<Rightarrow> Item) \<Rightarrow> attr_reader" where
  "with_word f p item =
     (case ps_read p of
        (None, p1) \<Rightarrow> (ATTR_READ_ERROR, p1, item)
      | (Some v, p1) \<Rightarrow> (ATTR_READ_CONTINUE, p1, f v item))"

definition with_string :: "(string \<Rightarrow> Item \<Rightarrow> Item) \<Rightarrow> attr_reader" where
  "with_string f p item =
     (case ps_readString p of
        (None, p1) \<Rightarrow> (ATTR_READ_ERROR, p1, item)
      | (Some s, p1) \<Rightarrow> (ATTR_READ_CONTINUE, p1, f s item))"

definition with_skip :: "nat \<Rightarrow> attr_reader" where
  "with_skip n p item =
     (case ps_skip n p of
        (False, p1) \<Rightarrow> (ATTR_READ_ERROR, p1, item)
      | (True, p1) \<Rightarrow> (ATTR_READ_CONTINUE, p1, item))"

text \<open>The loop over the custom attributes, and what the deprecated form does after each.\<close>

fun custom_loop :: "(Item \<Rightarrow> Item) \<Rightarrow> nat \<Rightarrow> attr_reader" where
  "custom_loop after 0 p item = (ATTR_READ_CONTINUE, p, item)"
| "custom_loop after (Suc n) p item =
     (case ps_readString p of
        (None, p1) \<Rightarrow> (ATTR_READ_ERROR, p1, item)
      | (Some key, p1) \<Rightarrow>
          (case custom_unserialize p1 of
             (None, p2) \<Rightarrow> (ATTR_READ_ERROR, p2, item)
           | (Some c, p2) \<Rightarrow> custom_loop after n p2 (after (add_custom key c item))))"

definition with_customs :: "(Item \<Rightarrow> Item) \<Rightarrow> attr_reader" where
  "with_customs after p item =
     (case ps_read p of
        (None, p1) \<Rightarrow> (ATTR_READ_ERROR, p1, item)
      | (Some (n :: u64), p1) \<Rightarrow> custom_loop after (unat n) p1 item)"

definition migrate_unwrap :: "World \<Rightarrow> Item \<Rightarrow> Item" where
  "migrate_unwrap w item =
     (let item1 = remove_attribute CUSTOM item in
      if getCustomAttribute ''unWrapId'' (customAttributeMap item1) \<noteq> None \<and> (getAttribute_as STORE item1 :: u64) = 0
      then set_integer STORE (getTimeNow w) item1 else item1)"

text \<open>\<^verbatim>\<open>std::atoi\<close>.\<close>

definition atoi :: "string \<Rightarrow> int" where
  "atoi s =
     (let s1 = dropWhile isspace s;
          (neg, s2) = (case s1 of c # r \<Rightarrow> if c = CHR ''-'' then (True, r) else if c = CHR ''+'' then (False, r) else (False, s1) | [] \<Rightarrow> (False, []));
          n = foldl (\<lambda>n c. 10 * n + (int (of_char c) - 48)) 0 (takeWhile (\<lambda>c. CHR ''0'' \<le> c \<and> c \<le> CHR ''9'') s2)
      in int32 (if neg then - n else n))"

definition HIRELING_LAMP :: u16 where "HIRELING_LAMP = 29432"

definition set_special :: "string \<Rightarrow> Item \<Rightarrow> Item" where
  "set_special special item =
     (let item1 = set_string SPECIAL special item in
      if item_id item1 = HIRELING_LAMP then
        (let item2 = remove_attribute SPECIAL item1 in
         item2\<lparr>customAttributeMap := setCustomAttribute ''Hireling'' (CustomInt (word_of_int (atoi special))) (customAttributeMap item2)\<rparr>)
      else item1)"

definition readAttr :: "World \<Rightarrow> AttrTypes_t \<Rightarrow> attr_reader" where
  "readAttr w attr =
     (case attr of
        ATTR_STORE \<Rightarrow> with_word (set_integer STORE)
      | ATTR_COUNT \<Rightarrow> with_word (\<lambda>n :: u8. setSubType w (ucast n))
      | ATTR_RUNE_CHARGES \<Rightarrow> with_word (\<lambda>n :: u8. setSubType w (ucast n))
      | ATTR_ACTION_ID \<Rightarrow> with_word (\<lambda>n :: u16. set_integer ACTIONID (ucast n))
      | ATTR_UNIQUE_ID \<Rightarrow> with_word (addUniqueId w)
      | ATTR_TEXT \<Rightarrow> with_string (set_string TEXT)
      | ATTR_WRITTENDATE \<Rightarrow> with_word (set_integer DATE)
      | ATTR_WRITTENBY \<Rightarrow> with_string (set_string WRITER)
      | ATTR_DESC \<Rightarrow> with_string (set_string DESCRIPTION)
      | ATTR_CHARGES \<Rightarrow> with_word (setSubType w)
      | ATTR_DURATION \<Rightarrow> with_word setDuration
      | ATTR_DECAYING_STATE \<Rightarrow> with_word (\<lambda>state :: u8. if state \<noteq> 0 then setDecaying 2 else id)
      | ATTR_NAME \<Rightarrow> with_string (set_string NAME)
      | ATTR_ARTICLE \<Rightarrow> with_string (set_string ARTICLE)
      | ATTR_PLURALNAME \<Rightarrow> with_string (set_string PLURALNAME)
      | ATTR_WEIGHT \<Rightarrow> with_word (\<lambda>n :: u32. set_integer WEIGHT (ucast n))
      | ATTR_ATTACK \<Rightarrow> with_word (\<lambda>n :: u32. set_integer ATTACK (scast n))
      | ATTR_DEFENSE \<Rightarrow> with_word (\<lambda>n :: u32. set_integer DEFENSE (scast n))
      | ATTR_EXTRADEFENSE \<Rightarrow> with_word (\<lambda>n :: u32. set_integer EXTRADEFENSE (scast n))
      | ATTR_IMBUEMENT_SLOT \<Rightarrow> with_word (\<lambda>n :: u32. set_integer IMBUEMENT_SLOT (scast n))
      | ATTR_OPENCONTAINER \<Rightarrow> with_word (\<lambda>n :: u8. set_integer OPENCONTAINER (ucast n))
      | ATTR_ARMOR \<Rightarrow> with_word (\<lambda>n :: u32. set_integer ARMOR (scast n))
      | ATTR_HITCHANCE \<Rightarrow> with_word (\<lambda>n :: u8. set_integer HITCHANCE (scast n))
      | ATTR_SHOOTRANGE \<Rightarrow> with_word (\<lambda>n :: u8. set_integer SHOOTRANGE (ucast n))
      | ATTR_SPECIAL \<Rightarrow> with_string set_special
      | ATTR_QUICKLOOTCONTAINER \<Rightarrow> with_word (\<lambda>n :: u32. set_integer QUICKLOOTCONTAINER (ucast n))
      | ATTR_DEPOT_ID \<Rightarrow> with_skip 2
      | ATTR_HOUSEDOORID \<Rightarrow> with_skip 1
      | ATTR_SLEEPERGUID \<Rightarrow> with_skip 4
      | ATTR_SLEEPSTART \<Rightarrow> with_skip 4
      | ATTR_TELE_DEST \<Rightarrow> with_skip 5
      | ATTR_CUSTOM_ATTRIBUTES \<Rightarrow> with_customs (migrate_unwrap w)
      | ATTR_TIER \<Rightarrow> with_word (\<lambda>n :: u8. set_integer TIER (ucast n))
      | ATTR_AMOUNT \<Rightarrow> with_word (\<lambda>n :: u16. set_integer AMOUNT (ucast n))
      | ATTR_CUSTOM \<Rightarrow> with_customs id
      | ATTR_STORE_INBOX_CATEGORY \<Rightarrow> with_string (set_string STORE_INBOX_CATEGORY)
      | ATTR_OWNER \<Rightarrow> with_word (\<lambda>n :: u32. set_integer OWNER (ucast n))
      | ATTR_OBTAINCONTAINER \<Rightarrow> with_word (\<lambda>n :: u32. set_integer OBTAINCONTAINER (ucast n))
      | _ \<Rightarrow> (\<lambda>p item. (ATTR_READ_ERROR, p, item)))"

lemma readers_shorter:
  "length (fst (snd (with_word f p item))) \<le> length p"
  "length (fst (snd (with_string g p item))) \<le> length p"
  "length (fst (snd (with_skip n p item))) \<le> length p"
  by (auto simp: with_word_def with_string_def with_skip_def ps_skip_def split: prod.splits option.splits bool.splits if_splits
      dest!: ps_read_rest ps_readString_shorter)

lemma custom_unserialize_shorter: "custom_unserialize p = (v, q) \<Longrightarrow> length q \<le> length p"
  by (auto simp: custom_unserialize_def split: prod.splits option.splits if_splits
      dest!: ps_read_rest ps_readString_shorter)

lemma custom_loop_shorter: "length p \<le> k \<Longrightarrow> length (fst (snd (custom_loop after n p item))) \<le> k"
proof (induction n arbitrary: p item)
  case (Suc n)
  then show ?case
    by (auto split: prod.splits option.splits dest!: ps_readString_shorter custom_unserialize_shorter)
qed simp

lemma with_customs_shorter: "length (fst (snd (with_customs after p item))) \<le> length p"
  by (auto simp: with_customs_def split: prod.splits option.splits dest!: ps_read_rest intro: custom_loop_shorter)

lemma readAttr_shorter: "length (fst (snd (readAttr w attr p item))) \<le> length p"
  by (cases attr) (simp_all add: readAttr_def readers_shorter with_customs_shorter)

lemma readAttr_result: "(ret, q, item1) = readAttr w attr p item \<Longrightarrow> length q \<le> length p"
  using readAttr_shorter [of w attr p item] by (metis fst_conv snd_conv)

lemma read_byte_shorter: "(Some (b :: u8), p1) = ps_read p \<Longrightarrow> length p1 < length p"
  by (auto simp: ps_read_def Let_def split: if_splits)

function unserializeAttr :: "World \<Rightarrow> byte list \<Rightarrow> Item \<Rightarrow> bool \<times> byte list \<times> Item" where
  "unserializeAttr w propStream item =
     (case ps_read propStream of
        (None, p1) \<Rightarrow> (True, p1, item)
      | (Some (attr_type :: u8), p1) \<Rightarrow>
          if attr_type = 0 then (True, p1, item)
          else
            case (case map_of attr_codes attr_type of Some a \<Rightarrow> readAttr w a p1 item | None \<Rightarrow> (ATTR_READ_ERROR, p1, item)) of
              (ret, p2, item1) \<Rightarrow>
                if ret = ATTR_READ_ERROR then (False, p2, item1)
                else if ret = ATTR_READ_END then (True, p2, item1)
                else unserializeAttr w p2 item1)"
  by pat_completeness auto
termination
  by (relation "measure (\<lambda>(w, p, item). length p)")
    (auto split: option.splits dest!: read_byte_shorter dest: readAttr_result order.strict_trans1)

declare unserializeAttr.simps [simp del]

section \<open>Writing attributes\<close>

definition put_attr :: "AttrTypes_t \<Rightarrow> byte list \<Rightarrow> byte list" where
  "put_attr attr payload = bytes_of (attr_code attr) @ payload"

definition write_custom :: "(string \<times> CustomAttribute) list \<Rightarrow> byte list" where
  "write_custom m =
     bytes_of (of_nat (length m) :: u64) @ concat (map (\<lambda>(attributeKey, c). writeString attributeKey @ custom_serialize c) m)"

definition put_number :: "AttrTypes_t \<Rightarrow> ItemAttribute_t \<Rightarrow> (Item \<Rightarrow> 'a::len word) \<Rightarrow> Item \<Rightarrow> byte list" where
  "put_number attr type get item = (if has_attribute type item then put_attr attr (bytes_of (get item)) else [])"

definition put_string :: "AttrTypes_t \<Rightarrow> ItemAttribute_t \<Rightarrow> Item \<Rightarrow> byte list" where
  "put_string attr type item = (if has_attribute type item then put_attr attr (writeString (get_string type item)) else [])"

definition put_filled :: "AttrTypes_t \<Rightarrow> ItemAttribute_t \<Rightarrow> Item \<Rightarrow> byte list" where
  "put_filled attr type item = (if get_string type item \<noteq> [] then put_attr attr (writeString (get_string type item)) else [])"

definition put_nonzero :: "AttrTypes_t \<Rightarrow> 'a::len word \<Rightarrow> byte list" where
  "put_nonzero attr v = (if v \<noteq> 0 then put_attr attr (bytes_of v) else [])"

definition serializeAttr :: "World \<Rightarrow> Item \<Rightarrow> byte list" where
  "serializeAttr w item =
     (let it = itemTypes w (item_id item) in
      concat
       [put_nonzero ATTR_STORE (getAttribute_as STORE item :: u64),
        (if stackable it \<or> is_fluid it then put_attr ATTR_COUNT (bytes_of (ucast (getSubType w item) :: u8)) else []),
        put_nonzero ATTR_CHARGES (getAttribute_as CHARGES item :: u16),
        (if movable it then put_nonzero ATTR_ACTION_ID (getAttribute_as ACTIONID item :: u16) else []),
        put_filled ATTR_TEXT TEXT item,
        put_nonzero ATTR_WRITTENDATE (getAttribute_as DATE item :: u64),
        put_filled ATTR_WRITTENBY WRITER item,
        put_filled ATTR_DESC DESCRIPTION item,
        put_number ATTR_DURATION DURATION (getDuration w) item,
        (let decayState = getDecaying item in
         if decayState = 1 \<or> decayState = 2 then put_attr ATTR_DECAYING_STATE (bytes_of decayState) else []),
        put_string ATTR_NAME NAME item,
        put_string ATTR_ARTICLE ARTICLE item,
        put_string ATTR_PLURALNAME PLURALNAME item,
        put_number ATTR_WEIGHT WEIGHT (getAttribute_as WEIGHT :: Item \<Rightarrow> u32) item,
        put_number ATTR_ATTACK ATTACK (getAttribute_as ATTACK :: Item \<Rightarrow> u32) item,
        put_number ATTR_DEFENSE DEFENSE (getAttribute_as DEFENSE :: Item \<Rightarrow> u32) item,
        put_number ATTR_EXTRADEFENSE EXTRADEFENSE (getAttribute_as EXTRADEFENSE :: Item \<Rightarrow> u32) item,
        put_number ATTR_IMBUEMENT_SLOT IMBUEMENT_SLOT (getAttribute_as IMBUEMENT_SLOT :: Item \<Rightarrow> u32) item,
        put_number ATTR_OPENCONTAINER OPENCONTAINER (getAttribute_as OPENCONTAINER :: Item \<Rightarrow> u8) item,
        put_number ATTR_ARMOR ARMOR (getAttribute_as ARMOR :: Item \<Rightarrow> u32) item,
        put_number ATTR_HITCHANCE HITCHANCE (getAttribute_as HITCHANCE :: Item \<Rightarrow> u8) item,
        put_number ATTR_SHOOTRANGE SHOOTRANGE (getAttribute_as SHOOTRANGE :: Item \<Rightarrow> u8) item,
        put_string ATTR_SPECIAL SPECIAL item,
        put_number ATTR_QUICKLOOTCONTAINER QUICKLOOTCONTAINER (getAttribute_as QUICKLOOTCONTAINER :: Item \<Rightarrow> u32) item,
        put_number ATTR_TIER TIER (getTier w) item,
        put_number ATTR_AMOUNT AMOUNT (getAttribute_as AMOUNT :: Item \<Rightarrow> u16) item,
        put_string ATTR_STORE_INBOX_CATEGORY STORE_INBOX_CATEGORY item,
        put_number ATTR_OWNER OWNER (getAttribute_as OWNER :: Item \<Rightarrow> u32) item,
        (if customAttributeMap item \<noteq> [] then put_attr ATTR_CUSTOM (write_custom (customAttributeMap item)) else []),
        put_number ATTR_OBTAINCONTAINER OBTAINCONTAINER (getAttribute_as OBTAINCONTAINER :: Item \<Rightarrow> u32) item])"

section \<open>The map of the attributes\<close>

abbreviation attr_map :: "Item \<Rightarrow> ItemAttribute_t \<rightharpoonup> AttrValue" where
  "attr_map item \<equiv> map_of (attributeVector item)"

lemma has_attribute_map: "has_attribute t item \<longleftrightarrow> attr_map item t \<noteq> None"
  by (simp add: has_attribute_def hasAttribute_set map_of_eq_None_iff)

lemma getAttribute_as_map:
  "isAttributeInteger t \<Longrightarrow> attr_map item t = Some (IntegerValue i) \<Longrightarrow> getAttribute_as t item = ucast i"
  by (simp add: getAttribute_as_def getAttributeValue_def getAttribute_map_of)

lemma set_integer_view:
  assumes "attributes_ok (attributeVector item)" and "isAttributeInteger t"
  shows "attributes_ok (attributeVector (set_integer t i item))" "attr_map (set_integer t i item) = (attr_map item)(t \<mapsto> IntegerValue i)"
  using assms by (simp_all add: set_integer_def setAttribute_integer_ok setAttribute_integer_map)

lemma remove_attribute_view:
  assumes "attributes_ok (attributeVector item)"
  shows "attributes_ok (attributeVector (remove_attribute t item))" "attr_map (remove_attribute t item) = (attr_map item)(t := None)"
  using removeAttribute_ok [OF assms, of t] by (simp_all add: remove_attribute_def)

end
