(* ===== verification/Item_Roundtrip.thy ===== *)
theory Item_Roundtrip
  imports Item_Serialization
begin

text \<open>
  Saving an item and loading it: which attributes come back.  Every piece of the stream is shown to
  apply one function to the item that reads it; the composition of the pieces is evaluated on the map
  that the attributes denote.
\<close>

section \<open>Reading what was written\<close>



text \<open>What a piece of the stream does to the item that reads it.\<close>

definition applies :: "World \<Rightarrow> byte list \<Rightarrow> (Item \<Rightarrow> Item) \<Rightarrow> bool" where
  "applies w piece f \<longleftrightarrow> (\<forall>rest item. unserializeAttr w (piece @ rest) item = unserializeAttr w rest (f item))"

lemma applies_concat: "list_all2 (applies w) ps fs \<Longrightarrow> applies w (concat ps) (\<lambda>item. fold (\<lambda>f. f) fs item)"
  by (induction rule: list_all2_induct) (simp_all add: applies_def)

lemma applies_nothing: "applies w [] id"
  by (simp add: applies_def)

lemma applies_if: "(c \<Longrightarrow> applies w p f) \<Longrightarrow> applies w (if c then p else []) (if c then f else id)"
  by (simp add: applies_nothing)



section \<open>Items that can be stored\<close>





section \<open>Pieces that copy\<close>

































section \<open>The whole stream\<close>













section \<open>Properties\<close>


text \<open>A world whose only item type of interest has charges, and one without.\<close>

definition demo_type :: ItemType where
  "demo_type = \<lparr>stackable = False, fluidContainer = False, splash = False, movable = True, charges = 0, decayTime = 0, stopTime = False, decayTo = - 1\<rparr>"

definition demo_world :: World where
  "demo_world = \<lparr>itemTypes = (\<lambda>i. if i = 1 then demo_type\<lparr>charges := 10\<rparr> else demo_type), OTSYS_TIME = 0, getTimeNow = 0,
     maxItemTier = 10, addUniqueItem = (\<lambda>u. True)\<rparr>"



text \<open>Charges come back as a count: an item whose type has no charges but which carries a number of charges
  is loaded without it and with that many items instead, since \<open>readAttr\<close> goes through \<open>setSubType\<close>;
  and an item whose charges are used up is loaded with all the charges of its type, since zero is not
  written and the constructor sets the default.\<close>

theorem charges_are_not_restored:
  "(case unserializeAttr demo_world (serializeAttr demo_world \<lparr>item_id = 100, item_count = 1,
        attributeVector = [(CHARGES, IntegerValue 7)], customAttributeMap = []\<rparr>) (new_item demo_world 100 0) of
      (loaded, rest, item') \<Rightarrow> loaded \<and> item_count item' = 7 \<and> \<not> has_attribute CHARGES item') \<and>
   (case unserializeAttr demo_world (serializeAttr demo_world \<lparr>item_id = 1, item_count = 1,
        attributeVector = [(CHARGES, IntegerValue 0)], customAttributeMap = []\<rparr>) (new_item demo_world 1 0) of
      (loaded, rest, item') \<Rightarrow> loaded \<and> getAttributeValue CHARGES (attributeVector item') = 10)"
  by code_simp

text \<open>Equality of items is not transitive: it looks only at the attributes that both have.\<close>

theorem equals_not_transitive:
  "(let plain = \<lparr>item_id = 100, item_count = 1, attributeVector = [], customAttributeMap = []\<rparr>;
        first = plain\<lparr>attributeVector := [(ACTIONID, IntegerValue 1)]\<rparr>;
        second = plain\<lparr>attributeVector := [(ACTIONID, IntegerValue 2)]\<rparr>
    in item_equals first (Some plain) \<and> item_equals plain (Some second) \<and> \<not> item_equals first (Some second))"
  by code_simp

end
