(* ===== verification/Decay.thy ===== *)
theory Decay
  imports Item_Serialization
begin

text \<open>
  Decay of items: \<^verbatim>\<open>src/items/decay/decay.cpp\<close>, \<open>startDecay\<close> and \<open>stopDecay\<close> of
  \<^verbatim>\<open>src/game/game.cpp\<close> and \<open>setID\<close> of \<^verbatim>\<open>src/items/item.cpp\<close>.  Items are numbered, as shared pointers
  are distinct; the clock counts milliseconds and does not overflow; the events that the dispatcher
  holds for \<open>checkDecay\<close> are the list of their times.  Whether an item can decay is a parameter, and so
  is what the transformation or removal of an item does, as a list of operations on items that starts and
  stops decay.  An iterator into the map is its key, and the keys erased while one is held are recorded:
  using an iterator after its node was erased is undefined (\<open>None\<close>).  The lemmas show that a check is always scheduled in time, that pausing keeps the time
  left, and that a check may use an erased iterator.
\<close>

section \<open>The state\<close>

record DecayMachine =
  now :: int
  decayMap :: "(int \<times> nat list) list"
  scheduled :: "int list"
  item_at :: "nat \<Rightarrow> Item"
  next_item :: nat
  erased :: "int list"

definition SCHEDULER_MINTICKS :: int where "SCHEDULER_MINTICKS = 50"

definition clock :: "World \<Rightarrow> DecayMachine \<Rightarrow> World" where
  "clock w s = w\<lparr>OTSYS_TIME := word_of_int (now s)\<rparr>"

definition upd_item :: "nat \<Rightarrow> (Item \<Rightarrow> Item) \<Rightarrow> DecayMachine \<Rightarrow> DecayMachine" where
  "upd_item i f s = s\<lparr>item_at := (item_at s)(i := f (item_at s i))\<rparr>"

definition scheduleEvent :: "int \<Rightarrow> DecayMachine \<Rightarrow> DecayMachine" where
  "scheduleEvent delay s = s\<lparr>scheduled := (now s + max SCHEDULER_MINTICKS delay) # scheduled s\<rparr>"

fun bucket_push :: "int \<Rightarrow> nat \<Rightarrow> (int \<times> nat list) list \<Rightarrow> (int \<times> nat list) list" where
  "bucket_push ts i [] = [(ts, [i])]"
| "bucket_push ts i ((k, b) # m) =
     (if ts = k then (k, b @ [i]) # m else if ts < k then (ts, [i]) # (k, b) # m else (k, b) # bucket_push ts i m)"

definition bucket_erase :: "int \<Rightarrow> (int \<times> nat list) list \<Rightarrow> (int \<times> nat list) list" where
  "bucket_erase ts m = filter (\<lambda>e. fst e \<noteq> ts) m"

definition bucket_set :: "int \<Rightarrow> nat list \<Rightarrow> (int \<times> nat list) list \<Rightarrow> (int \<times> nat list) list" where
  "bucket_set ts b m = map (\<lambda>e. if fst e = ts then (ts, b) else e) m"

section \<open>Starting and stopping\<close>

text \<open>What an item that leaves the map keeps.\<close>

definition release :: "World \<Rightarrow> nat \<Rightarrow> DecayMachine \<Rightarrow> DecayMachine" where
  "release w i s =
     upd_item i (\<lambda>item. remove_attribute DECAYSTATE
       (if has_attribute DURATION item then setDuration (getDuration (clock w s) item) item else item)) s"

definition stopDecay :: "World \<Rightarrow> nat \<Rightarrow> int \<Rightarrow> DecayMachine \<Rightarrow> DecayMachine" where
  "stopDecay w item timestamp s =
     (if timestamp \<le> 0 then s
      else
        case map_of (decayMap s) timestamp of
          None \<Rightarrow> s
        | Some decayItems \<Rightarrow>
            if length decayItems = 1 then
              (if item = decayItems ! 0
               then (release w item s)\<lparr>decayMap := bucket_erase timestamp (decayMap s), erased := timestamp # erased s\<rparr> else s)
            else
              let i = length (takeWhile (\<lambda>x. x \<noteq> item) decayItems) in
              if i < length decayItems
              then (release w item s)\<lparr>decayMap := bucket_set timestamp (butlast (decayItems[i := last decayItems])) (decayMap s)\<rparr>
              else s)"

definition duration_timestamp :: "Item \<Rightarrow> int" where
  "duration_timestamp item = sint (getAttribute_as DURATION_TIMESTAMP item :: u64)"

definition startDecay :: "World \<Rightarrow> nat \<Rightarrow> int \<Rightarrow> DecayMachine \<Rightarrow> DecayMachine" where
  "startDecay w item duration s =
     (if duration \<le> 0 then s
      else
        let s1 = (if has_attribute DURATION_TIMESTAMP (item_at s item)
                  then stopDecay w item (duration_timestamp (item_at s item)) s else s);
            timestamp = now s1 + duration;
            s2 = (if decayMap s1 = [] \<or> timestamp < fst (hd (decayMap s1)) then scheduleEvent duration s1 else s1);
            s3 = upd_item item (\<lambda>x. set_integer DURATION_TIMESTAMP (word_of_int timestamp) (setDecaying 1 x)) s2
        in s3\<lparr>decayMap := bucket_push timestamp item (decayMap s3)\<rparr>)"

definition game_stopDecay :: "World \<Rightarrow> nat \<Rightarrow> DecayMachine \<Rightarrow> DecayMachine" where
  "game_stopDecay w item s =
     (if has_attribute DECAYSTATE (item_at s item) then
        if has_attribute DURATION_TIMESTAMP (item_at s item)
        then upd_item item (remove_attribute DURATION_TIMESTAMP) (stopDecay w item (duration_timestamp (item_at s item)) s)
        else upd_item item (remove_attribute DECAYSTATE) s
      else s)"

text \<open>An item without a duration left decays at once: the caller sees it as the operations that follow.\<close>

definition game_startDecay :: "World \<Rightarrow> (nat \<Rightarrow> DecayMachine \<Rightarrow> bool) \<Rightarrow> nat \<Rightarrow> DecayMachine \<Rightarrow> DecayMachine" where
  "game_startDecay w canDecay item s =
     (let decayState = getDecaying (item_at s item) in
      if decayState = 3 \<or> (\<not> canDecay item s \<and> decayState = 1) then game_stopDecay w item s
      else if \<not> canDecay item s \<or> decayState = 1 then s
      else
        let duration = int32 (sint (getAttribute_as DURATION (item_at s item) :: u64)) in
        if duration > 0 then startDecay w item duration s else s)"

definition isRewardCorpse :: "Item \<Rightarrow> bool" where
  "isRewardCorpse item \<longleftrightarrow> (getAttribute_as CORPSEOWNER item :: u32) = 2147483647"

definition setID :: "World \<Rightarrow> u16 \<Rightarrow> Item \<Rightarrow> Item" where
  "setID w newid item =
     (let prevIt = itemTypes w (item_id item);
          item1 = item\<lparr>item_id := newid\<rparr>;
          it = itemTypes w newid;
          newDuration = decayTime it * 1000;
          item2 =
            (if newDuration = 0 \<and> \<not> stopTime it \<and> decayTo it < 0
             then remove_attribute DURATION (if has_attribute DECAYSTATE item1 then setDecaying 3 item1 else item1)
             else item1);
          item3 = (if \<not> isRewardCorpse item2 then remove_attribute CORPSEOWNER item2 else item2)
      in if newDuration > 0 \<and> (\<not> stopTime prevIt \<or> \<not> has_attribute DURATION item3)
         then setDuration newDuration (setDecaying 2 item3) else item3)"

section \<open>Checking\<close>

datatype item_op = Start nat | Stop nat | SetID nat u16 | Make Item

text \<open>A new item gets the next number and is not decaying.\<close>

fun run_item_op :: "World \<Rightarrow> (nat \<Rightarrow> DecayMachine \<Rightarrow> bool) \<Rightarrow> item_op \<Rightarrow> DecayMachine \<Rightarrow> DecayMachine" where
  "run_item_op w canDecay (Start i) s = game_startDecay w canDecay i s"
| "run_item_op w canDecay (Stop i) s = game_stopDecay w i s"
| "run_item_op w canDecay (SetID i newid) s = upd_item i (setID w newid) s"
| "run_item_op w canDecay (Make x) s = (upd_item (next_item s) (\<lambda>_. x) s)\<lparr>next_item := next_item s + 1\<rparr>"

definition expire_item :: "World \<Rightarrow> (nat \<Rightarrow> DecayMachine \<Rightarrow> bool) \<Rightarrow> (nat \<Rightarrow> DecayMachine \<Rightarrow> item_op list) \<Rightarrow> nat \<Rightarrow> DecayMachine \<Rightarrow> DecayMachine" where
  "expire_item w canDecay internalDecayItem item s =
     (if \<not> canDecay item s
      then upd_item item (\<lambda>x. setDecaying 0 (setDuration (getDuration (clock w s) x) x)) s
      else
        let s1 = upd_item item (setDecaying 0) s
        in fold (run_item_op w canDecay) (internalDecayItem item s1) s1)"

definition checkDecay :: "World \<Rightarrow> (nat \<Rightarrow> DecayMachine \<Rightarrow> bool) \<Rightarrow> (nat \<Rightarrow> DecayMachine \<Rightarrow> item_op list) \<Rightarrow> DecayMachine \<Rightarrow> DecayMachine option" where
  "checkDecay w canDecay internalDecayItem s =
     (let timestamp = now s;
          tempItems = concat (map snd (takeWhile (\<lambda>e. \<not> fst e > timestamp) (decayMap s)));
          rest = dropWhile (\<lambda>e. \<not> fst e > timestamp) (decayMap s);
          s1 = fold (expire_item w canDecay internalDecayItem) tempItems (s\<lparr>decayMap := rest, erased := []\<rparr>)
      in case rest of
           [] \<Rightarrow> Some s1
         | it # _ \<Rightarrow>
             if fst it \<in> set (erased s1) then None
             else Some (scheduleEvent (int32 (fst it - timestamp)) s1))"

text \<open>Time passes, an event scheduled earlier runs.\<close>

datatype decay_op = Item_Op item_op | Wait nat | Check int

fun decay_step :: "World \<Rightarrow> (nat \<Rightarrow> DecayMachine \<Rightarrow> bool) \<Rightarrow> (nat \<Rightarrow> DecayMachine \<Rightarrow> item_op list) \<Rightarrow> decay_op \<Rightarrow> DecayMachine \<Rightarrow> DecayMachine option" where
  "decay_step w canDecay effects (Item_Op oper) s = Some (run_item_op w canDecay oper s)"
| "decay_step w canDecay effects (Wait n) s = Some (s\<lparr>now := now s + int n\<rparr>)"
| "decay_step w canDecay effects (Check e) s =
     (if e \<in> set (scheduled s) \<and> e \<le> now s
      then checkDecay w canDecay effects (s\<lparr>scheduled := remove1 e (scheduled s)\<rparr>) else Some s)"

section \<open>Buckets\<close>

lemma bucket_erase_set: "set (bucket_erase ts m) = {e \<in> set m. fst e \<noteq> ts}"
  by (auto simp: bucket_erase_def)

lemma bucket_erase_sorted: "sorted_wrt (<) (map fst m) \<Longrightarrow> sorted_wrt (<) (map fst (bucket_erase ts m))"
  by (simp add: bucket_erase_def sorted_wrt_map sorted_wrt_filter)

lemma bucket_set_keys [simp]: "map fst (bucket_set ts b m) = map fst m"
  by (simp add: bucket_set_def)

lemma bucket_set_set: "set (bucket_set ts b m) = {e \<in> set m. fst e \<noteq> ts} \<union> (if ts \<in> fst ` set m then {(ts, b)} else {})"
  by (auto simp: bucket_set_def)

lemma bucket_push_keys: "fst ` set (bucket_push ts i m) = insert ts (fst ` set m)"
proof (induction m)
  case (Cons e m)
  then show ?case by (cases e) (simp add: insert_commute)
qed simp

lemma bucket_push_set:
  "sorted_wrt (<) (map fst m) \<Longrightarrow>
   set (bucket_push ts i m) = {e \<in> set m. fst e \<noteq> ts} \<union> {(ts, (case map_of m ts of None \<Rightarrow> [] | Some b \<Rightarrow> b) @ [i])}"
proof (induction m)
  case (Cons e m)
  obtain k b where e: "e = (k, b)" by (cases e)
  have "\<forall>x \<in> set m. k < fst x" using Cons.prems e by simp
  moreover from this have "map_of m ts = None" if "ts < k" using that by (fastforce simp: map_of_eq_None_iff)
  ultimately show ?case using Cons e by (auto split: if_splits)
qed simp

lemma bucket_push_sorted: "sorted_wrt (<) (map fst m) \<Longrightarrow> sorted_wrt (<) (map fst (bucket_push ts i m))"
proof (induction m)
  case (Cons e m)
  obtain k b where e: "e = (k, b)" by (cases e)
  have "\<forall>x \<in> set (bucket_push ts i m). k < fst x" if "k < ts"
  proof
    fix x assume "x \<in> set (bucket_push ts i m)"
    then have "fst x \<in> insert ts (fst ` set m)" using bucket_push_keys [of ts i m] by blast
    then show "k < fst x" using Cons.prems e that by auto
  qed
  then show ?case using Cons e by auto
qed simp

lemma bucket_push_first:
  "fst (hd (bucket_push ts i m)) = (if m = [] \<or> ts < fst (hd m) then ts else fst (hd m))"
  by (cases m) (auto split: prod.split)

text \<open>Removing an item from its bucket: the last one takes its place.\<close>

lemma swap_out:
  assumes "distinct b" and "i \<in> set b" and "length b \<noteq> 1"
  defines "c \<equiv> butlast (b[length (takeWhile (\<lambda>x. x \<noteq> i) b) := last b])"
  shows "distinct c \<and> set c = set b - {i} \<and> c \<noteq> []"
proof -
  obtain xs ys where b: "b = xs @ i # ys" "i \<notin> set xs" using split_list_first [OF assms(2)] by blast
  then have tw: "length (takeWhile (\<lambda>x. x \<noteq> i) b) = length xs" by (simp add: takeWhile_append takeWhile_eq_all_conv [THEN iffD2])
  show ?thesis
  proof (cases ys rule: rev_cases)
    case Nil
    then have "c = xs" using b tw by (simp add: c_def)
    moreover have "xs \<noteq> []" using Nil b assms(3) by auto
    ultimately show ?thesis using b assms(1) Nil by auto
  next
    case (snoc zs z)
    then have "c = xs @ z # zs" using b tw by (simp add: c_def butlast_append list_update_append)
    then show ?thesis using b snoc assms(1) by auto
  qed
qed

section \<open>A check is always scheduled in time\<close>

definition wcore :: "DecayMachine \<Rightarrow> bool" where
  "wcore s \<longleftrightarrow> sorted_wrt (<) (map fst (decayMap s)) \<and>
     (\<forall>(ts, b) \<in> set (decayMap s). b \<noteq> [] \<and> 0 < ts \<and> ts < 2 ^ 62) \<and> 0 \<le> now s \<and> now s < 2 ^ 61"

definition in_time :: "DecayMachine \<Rightarrow> bool" where
  "in_time s \<longleftrightarrow> (\<exists>e \<in> set (scheduled s). e \<le> fst (hd (decayMap s)) + SCHEDULER_MINTICKS)"

text \<open>While a check holds an iterator, its node need not have an event yet.\<close>

definition inv :: "int option \<Rightarrow> DecayMachine \<Rightarrow> bool" where
  "inv q s \<longleftrightarrow> wcore s \<and>
     (case q of None \<Rightarrow> decayMap s = [] \<or> in_time s
      | Some it \<Rightarrow> it \<in> set (erased s) \<or> it \<in> fst ` set (decayMap s) \<and> (fst (hd (decayMap s)) = it \<or> in_time s))"

lemma inv_wcore: "inv q s \<Longrightarrow> wcore s"
  by (simp add: inv_def)

lemma upd_item_parts [simp]:
  "decayMap (upd_item i f s) = decayMap s" "scheduled (upd_item i f s) = scheduled s" "now (upd_item i f s) = now s"
  "erased (upd_item i f s) = erased s" "next_item (upd_item i f s) = next_item s"
  by (simp_all add: upd_item_def)

lemma release_parts [simp]:
  "decayMap (release w i s) = decayMap s" "scheduled (release w i s) = scheduled s" "now (release w i s) = now s"
  "erased (release w i s) = erased s" "next_item (release w i s) = next_item s"
  by (simp_all add: release_def)

lemma inv_items [simp]: "inv q (upd_item i f s) = inv q s" "inv q (s\<lparr>next_item := n\<rparr>) = inv q s"
  by (cases q; simp add: inv_def wcore_def in_time_def)+

lemma wcore_lookup: "wcore s \<Longrightarrow> map_of (decayMap s) ts = Some b \<longleftrightarrow> (ts, b) \<in> set (decayMap s)"
  using strict_sorted_iff [of "map fst (decayMap s)"] by (simp add: wcore_def map_of_eq_Some_iff)

text \<open>A map from which items have gone keeps its schedule.\<close>

lemma in_time_smaller:
  assumes "in_time s" and "wcore s" and "scheduled s' = scheduled s" and "decayMap s' \<noteq> []"
    and "fst ` set (decayMap s') \<subseteq> fst ` set (decayMap s)"
  shows "in_time s'"
proof -
  obtain e where e: "e \<in> set (scheduled s)" "e \<le> fst (hd (decayMap s)) + SCHEDULER_MINTICKS"
    using assms(1) by (auto simp: in_time_def)
  have "fst (hd (decayMap s')) \<in> fst ` set (decayMap s)" using assms(4,5) by (cases "decayMap s'") auto
  then have "fst (hd (decayMap s)) \<le> fst (hd (decayMap s'))"
    using assms(2) by (cases "decayMap s") (auto simp: wcore_def)
  then show ?thesis unfolding in_time_def using e assms(3) by (intro bexI [of _ e]) simp_all
qed

lemma first_kept:
  assumes "wcore s" and "it \<in> fst ` set m" and "fst ` set m \<subseteq> fst ` set (decayMap s)" and "fst (hd (decayMap s)) = it"
    and "sorted_wrt (<) (map fst m)"
  shows "fst (hd m) = it"
proof -
  have "m \<noteq> []" using assms(2) by auto
  then have "fst (hd m) \<le> it" using assms(2,5) by (cases m) auto
  moreover have "fst (hd m) \<in> fst ` set (decayMap s)" using \<open>m \<noteq> []\<close> assms(3) by (cases m) auto
  then have "it \<le> fst (hd m)" using assms(1,4) by (cases "decayMap s") (auto simp: wcore_def)
  ultimately show ?thesis by simp
qed

lemma inv_smaller:
  assumes "inv q s" and "wcore s'" and "scheduled s' = scheduled s" and "fst ` set (decayMap s') \<subseteq> fst ` set (decayMap s)"
    and "\<And>it. q = Some it \<Longrightarrow> it \<in> set (erased s) \<or> it \<in> fst ` set (decayMap s) \<Longrightarrow> it \<in> set (erased s') \<or> it \<in> fst ` set (decayMap s')"
    and "set (erased s) \<subseteq> set (erased s')"
  shows "inv q s'"
proof (cases q)
  case None
  then show ?thesis using assms(1-4) in_time_smaller [of s s'] by (auto simp: inv_def)
next
  case (Some it)
  have c: "wcore s" using assms(1) by (simp add: inv_def)
  show ?thesis
  proof (cases "it \<in> set (erased s')")
    case False
    then have mem: "it \<in> fst ` set (decayMap s')" "it \<notin> set (erased s)"
      using assms(1) assms(5) [OF Some] assms(6) Some by (auto simp: inv_def)
    then have "fst (hd (decayMap s)) = it \<or> in_time s" using assms(1) Some by (simp add: inv_def)
    moreover have "decayMap s' \<noteq> []" "sorted_wrt (<) (map fst (decayMap s'))" using mem(1) assms(2) by (auto simp: wcore_def)
    ultimately have "fst (hd (decayMap s')) = it \<or> in_time s'"
      using first_kept [OF c mem(1) assms(4)] in_time_smaller [OF _ c assms(3) _ assms(4)] by blast
    then show ?thesis using Some mem(1) assms(2) by (simp add: inv_def)
  qed (use Some assms(2) in \<open>simp add: inv_def\<close>)
qed

text \<open>What stopping does to the map: the item leaves its bucket, or nothing happens.\<close>

lemma stopDecay_cases:
  assumes "wcore s"
  obtains (nothing) "stopDecay w i ts s = s" "\<And>b. (ts, b) \<in> set (decayMap s) \<Longrightarrow> i \<notin> set b"
  | (erase) "(ts, [i]) \<in> set (decayMap s)"
      "stopDecay w i ts s = (release w i s)\<lparr>decayMap := bucket_erase ts (decayMap s), erased := ts # erased s\<rparr>"
  | (swap) b where "(ts, b) \<in> set (decayMap s)" "i \<in> set b" "length b \<noteq> 1"
      "stopDecay w i ts s = (release w i s)\<lparr>decayMap := bucket_set ts (butlast (b[length (takeWhile (\<lambda>x. x \<noteq> i) b) := last b])) (decayMap s)\<rparr>"
proof (cases "map_of (decayMap s) ts")
  case None
  then have no: "(ts, b) \<notin> set (decayMap s)" for b using wcore_lookup [OF assms, of ts b] by simp
  show thesis by (rule nothing) (simp_all add: stopDecay_def None no)
next
  case (Some b)
  then have b: "(ts, b) \<in> set (decayMap s)" using wcore_lookup [OF assms] by simp
  then have pos: "0 < ts" using assms unfolding wcore_def by blast
  have only: "b' = b" if "(ts, b') \<in> set (decayMap s)" for b' using wcore_lookup [OF assms, of ts b'] that Some by simp
  show thesis
  proof (cases "i \<in> set b")
    case False
    then have tw: "takeWhile (\<lambda>x. x \<noteq> i) b = b" by (auto simp: takeWhile_eq_all_conv)
    have "length b = 1 \<Longrightarrow> i \<noteq> b ! 0" using False nth_mem [of 0 b] by auto
    then have "stopDecay w i ts s = s" using Some by (simp add: stopDecay_def tw Let_def del: takeWhile_eq_all_conv)
    then show thesis by (rule nothing) (use only False in blast)
  next
    case True
    show thesis
    proof (cases "length b = 1")
      case True
      then have "b = [i]" using \<open>i \<in> set b\<close> by (cases b) auto
      then show thesis using erase b pos Some by (simp add: stopDecay_def)
    next
      case False
      have "length (takeWhile (\<lambda>x. x \<noteq> i) b) < length b"
        using split_list_first [OF True] by (auto simp: takeWhile_append takeWhile_eq_all_conv [THEN iffD2])
      then have "stopDecay w i ts s = (release w i s)\<lparr>decayMap := bucket_set ts (butlast (b[length (takeWhile (\<lambda>x. x \<noteq> i) b) := last b])) (decayMap s)\<rparr>"
        using False Some pos by (simp add: stopDecay_def Let_def)
      from swap [OF b True False this] show thesis .
    qed
  qed
qed

lemma stopDecay_inv:
  assumes "inv q s"
  shows "inv q (stopDecay w i ts s)" "now (stopDecay w i ts s) = now s" "next_item (stopDecay w i ts s) = next_item s"
proof -
  note c = inv_wcore [OF assms]
  then have srt: "sorted_wrt (<) (map fst (decayMap s))" by (simp add: wcore_def)
  have "inv q (stopDecay w i ts s) \<and> now (stopDecay w i ts s) = now s \<and> next_item (stopDecay w i ts s) = next_item s"
  proof (cases rule: stopDecay_cases [OF c, of w i ts, case_names nothing erase swap])
    case nothing
    then show ?thesis using assms by simp
  next
    case erase
    let ?s = "(release w i s)\<lparr>decayMap := bucket_erase ts (decayMap s), erased := ts # erased s\<rparr>"
    have "wcore ?s" using c bucket_erase_sorted [OF srt] by (auto simp: wcore_def bucket_erase_set)
    then have "inv q ?s" by (rule inv_smaller [OF assms]) (auto simp: bucket_erase_set)
    then show ?thesis unfolding erase(2) by simp
  next
    case (swap b)
    let ?c = "butlast (b[length (takeWhile (\<lambda>x. x \<noteq> i) b) := last b])"
    let ?s = "(release w i s)\<lparr>decayMap := bucket_set ts ?c (decayMap s)\<rparr>"
    have "length ?c = length b - 1" "0 < length b" using swap(2) by auto
    then have "length ?c \<noteq> 0" using swap(3) by linarith
    then have "?c \<noteq> []" by (metis list.size(3))
    moreover have "0 < ts \<and> ts < 2 ^ 62" using c swap(1) unfolding wcore_def by blast
    ultimately have "wcore ?s" using c srt by (auto simp: wcore_def bucket_set_set)
    moreover have "fst ` set (bucket_set ts ?c (decayMap s)) = fst ` set (decayMap s)"
      using bucket_set_keys [of ts ?c "decayMap s"] by (metis list.set_map)
    ultimately have "inv q ?s" by (intro inv_smaller [OF assms]) simp_all
    then show ?thesis unfolding swap(4) by simp
  qed
  then show "inv q (stopDecay w i ts s)" "now (stopDecay w i ts s) = now s" "next_item (stopDecay w i ts s) = next_item s" by simp_all
qed

lemma game_stopDecay_inv: "inv q s \<Longrightarrow> inv q (game_stopDecay w i s) \<and> now (game_stopDecay w i s) = now s"
  by (simp add: game_stopDecay_def stopDecay_inv)

lemma startDecay_inv:
  assumes "inv q s" and "duration < 2 ^ 31"
  shows "inv q (startDecay w i duration s) \<and> now (startDecay w i duration s) = now s"
proof (cases "duration \<le> 0")
  case False
  define s1 where "s1 = (if has_attribute DURATION_TIMESTAMP (item_at s i) then stopDecay w i (duration_timestamp (item_at s i)) s else s)"
  define ts where "ts = now s1 + duration"
  define s2 where "s2 = (if decayMap s1 = [] \<or> ts < fst (hd (decayMap s1)) then scheduleEvent duration s1 else s1)"
  define s3 where "s3 = upd_item i (\<lambda>x. set_integer DURATION_TIMESTAMP (word_of_int ts) (setDecaying 1 x)) s2"
  let ?t = "s3\<lparr>decayMap := bucket_push ts i (decayMap s3)\<rparr>"
  have eq: "startDecay w i duration s = ?t" using False by (simp add: startDecay_def Let_def s1_def s2_def s3_def ts_def)
  have i1: "inv q s1" "now s1 = now s" using stopDecay_inv [OF assms(1), of w i] assms(1) by (auto simp: s1_def)
  have ts: "0 < ts" "ts < 2 ^ 62" using inv_wcore [OF assms(1)] i1(2) False assms(2) by (simp_all add: ts_def wcore_def)
  have m3: "decayMap s3 = decayMap s1" "now s3 = now s" "erased s3 = erased s1" "scheduled s3 = scheduled s2"
    using i1(2) by (auto simp: s3_def s2_def scheduleEvent_def)
  have srt: "sorted_wrt (<) (map fst (decayMap s1))" using inv_wcore [OF i1(1)] by (simp add: wcore_def)
  have core: "wcore ?t"
    using inv_wcore [OF i1(1)] ts m3 i1(2) bucket_push_sorted [OF srt, of ts i] bucket_push_set [OF srt, of ts i]
    by (auto simp: wcore_def split: option.splits)
  show ?thesis
  proof (cases "decayMap s1 = [] \<or> ts < fst (hd (decayMap s1))")
    case True
    have "max SCHEDULER_MINTICKS duration \<le> duration + SCHEDULER_MINTICKS" using False by (simp add: SCHEDULER_MINTICKS_def)
    then have "in_time ?t" using True m3 by (simp add: in_time_def bucket_push_first s2_def scheduleEvent_def ts_def)
    then have "inv q ?t" using core i1(1) m3 by (auto simp: inv_def bucket_push_keys split: option.splits)
    then show ?thesis unfolding eq using m3 by simp
  next
    case False
    then have "in_time ?t = in_time s1" "fst (hd (decayMap ?t)) = fst (hd (decayMap s1))"
      using m3 by (simp_all add: in_time_def bucket_push_first s2_def)
    then have "inv q ?t" using core i1(1) m3 False by (auto simp: inv_def bucket_push_keys split: option.splits)
    then show ?thesis unfolding eq using m3 by simp
  qed
qed (use assms in \<open>simp add: startDecay_def\<close>)

lemma int32_less: "int32 x < 2 ^ 31"
  using sint_lt [of "word_of_int x :: 32 word"] by (simp add: int32_def)

lemma game_startDecay_inv: "inv q s \<Longrightarrow> inv q (game_startDecay w canDecay i s) \<and> now (game_startDecay w canDecay i s) = now s"
  by (simp add: game_startDecay_def Let_def game_stopDecay_inv startDecay_inv int32_less [simplified])

lemma run_item_op_inv: "inv q s \<Longrightarrow> inv q (run_item_op w canDecay oper s) \<and> now (run_item_op w canDecay oper s) = now s"
  by (cases oper) (simp_all add: game_startDecay_inv game_stopDecay_inv)

lemma fold_inv:
  assumes "\<And>x s. inv q s \<Longrightarrow> inv q (f x s) \<and> now (f x s) = now s" and "inv q s"
  shows "inv q (fold f xs s) \<and> now (fold f xs s) = now s"
  using assms(2) by (induction xs arbitrary: s) (simp_all add: assms(1))

lemma expire_item_inv: "inv q s \<Longrightarrow> inv q (expire_item w canDecay effects i s) \<and> now (expire_item w canDecay effects i s) = now s"
  using fold_inv [of q "run_item_op w canDecay" "upd_item i (setDecaying 0) s"]
  by (simp add: expire_item_def Let_def run_item_op_inv)

lemma int32_le: "0 \<le> x \<Longrightarrow> int32 x \<le> x"
proof (cases "x < 2 ^ 31")
  case False
  then show "int32 x \<le> x" using int32_less [of x] by simp
qed (simp add: int32_id)

lemma checkDecay_inv:
  assumes "wcore s" and "checkDecay w canDecay effects s = Some t"
  shows "inv None t"
proof -
  let ?rest = "dropWhile (\<lambda>e. \<not> fst e > now s) (decayMap s)"
  let ?temp = "concat (map snd (takeWhile (\<lambda>e. \<not> fst e > now s) (decayMap s)))"
  let ?s0 = "s\<lparr>decayMap := ?rest, erased := []\<rparr>"
  define s1 where "s1 = fold (expire_item w canDecay effects) ?temp ?s0"
  have "sorted_wrt (<) (map fst ?rest)"
    using assms(1) sorted_wrt_dropWhile [of "(<)" "map fst (decayMap s)" "\<lambda>k. \<not> k > now s"]
    by (simp add: wcore_def dropWhile_map comp_def)
  then have w0: "wcore ?s0" using assms(1) set_dropWhileD by (fastforce simp: wcore_def)
  show ?thesis
  proof (cases ?rest)
    case Nil
    then have "inv None ?s0" using w0 by (simp add: inv_def)
    then have "inv None s1" using fold_inv [of None "expire_item w canDecay effects"] expire_item_inv by (simp add: s1_def)
    then show ?thesis using assms(2) Nil by (simp add: checkDecay_def Let_def s1_def)
  next
    case (Cons e r)
    let ?it = "fst e"
    have "inv (Some ?it) ?s0" using w0 Cons by (simp add: inv_def)
    then have i1: "inv (Some ?it) s1" "now s1 = now s" using fold_inv [of "Some ?it" "expire_item w canDecay effects" ?s0] expire_item_inv by (simp_all add: s1_def)
    have t: "?it \<notin> set (erased s1)" "t = scheduleEvent (int32 (?it - now s)) s1"
      using assms(2) Cons by (auto simp: checkDecay_def Let_def s1_def split: if_splits)
    have "now s < ?it" using Cons hd_dropWhile [of "\<lambda>e. \<not> fst e > now s" "decayMap s"] by auto
    then have late: "max SCHEDULER_MINTICKS (int32 (?it - now s)) + now s \<le> ?it + SCHEDULER_MINTICKS"
      using int32_le [of "?it - now s"] by (simp add: SCHEDULER_MINTICKS_def)
    have w1: "wcore t" using inv_wcore [OF i1(1)] t(2) by (simp add: wcore_def scheduleEvent_def)
    have "in_time t"
    proof (cases "fst (hd (decayMap s1)) = ?it")
      case True
      then show ?thesis using late t(2) i1(2) by (simp add: in_time_def scheduleEvent_def add.commute)
    next
      case False
      then have "in_time s1" using i1(1) t(1) by (simp add: inv_def)
      then show ?thesis using t(2) by (auto simp: in_time_def scheduleEvent_def)
    qed
    then show ?thesis using w1 by (simp add: inv_def)
  qed
qed

section \<open>Nothing that is due stays\<close>

abbreviation keys :: "DecayMachine \<Rightarrow> int set" where
  "keys s \<equiv> fst ` set (decayMap s)"

lemma stopDecay_keys: "keys (stopDecay w i ts s) \<subseteq> keys s"
proof -
  have "fst ` set (bucket_set ts c m) = fst ` set m" for c and m :: "(int \<times> nat list) list"
    using bucket_set_keys [of ts c m] by (metis list.set_map)
  then show ?thesis by (auto simp: stopDecay_def Let_def bucket_erase_set split: option.split)
qed

lemma stopDecay_now [simp]: "now (stopDecay w i ts s) = now s"
  by (simp add: stopDecay_def Let_def split: option.split)

lemma startDecay_keys: "keys (startDecay w i d s) \<subseteq> (if 0 < d then insert (now s + d) (keys s) else keys s)"
  using stopDecay_keys [of w i "duration_timestamp (item_at s i)" s]
  by (auto simp: startDecay_def Let_def bucket_push_keys scheduleEvent_def)

definition later :: "int \<Rightarrow> DecayMachine \<Rightarrow> bool" where
  "later k s \<longleftrightarrow> now s = k \<and> (\<forall>ts \<in> keys s. k < ts)"

lemma later_items [simp]: "later k (upd_item i f s) = later k s" "later k (s\<lparr>next_item := n\<rparr>) = later k s"
  by (simp_all add: later_def)

lemma later_schedule: "later k s \<Longrightarrow> later k (scheduleEvent d s)"
  by (simp add: later_def scheduleEvent_def)

lemma later_keys: "later k s \<Longrightarrow> keys t \<subseteq> keys s \<Longrightarrow> now t = now s \<Longrightarrow> later k t"
  unfolding later_def by blast

lemma game_stopDecay_later: "later k s \<Longrightarrow> later k (game_stopDecay w i s)"
  using later_keys [OF _ stopDecay_keys stopDecay_now, of k s] by (simp add: game_stopDecay_def)

lemma startDecay_later: "later k s \<Longrightarrow> later k (startDecay w i d s)"
proof (cases "0 < d")
  case True
  assume l: "later k s"
  have "now (startDecay w i d s) = k" using l by (simp add: startDecay_def Let_def scheduleEvent_def later_def)
  moreover have "k < ts" if "ts \<in> keys (startDecay w i d s)" for ts
  proof -
    have "ts \<in> insert (now s + d) (keys s)" using subsetD [OF startDecay_keys that] True by simp
    then show ?thesis using l True unfolding later_def by auto
  qed
  ultimately show ?thesis by (simp add: later_def)
qed (simp add: startDecay_def)

lemma run_item_op_later: "later k s \<Longrightarrow> later k (run_item_op w canDecay oper s)"
  by (cases oper) (simp_all add: game_startDecay_def Let_def game_stopDecay_later startDecay_later)

lemma fold_later:
  assumes "\<And>x s. later k s \<Longrightarrow> later k (f x s)"
  shows "later k s \<Longrightarrow> later k (fold f xs s)"
  by (induction xs arbitrary: s) (simp_all add: assms)

lemma expire_item_later: "later k s \<Longrightarrow> later k (expire_item w canDecay effects i s)"
  unfolding expire_item_def Let_def by (simp add: fold_later [OF run_item_op_later])

lemma checkDecay_later:
  assumes "wcore s" and "checkDecay w canDecay effects s = Some t"
  shows "\<forall>ts \<in> keys t. now s < ts"
proof -
  let ?rest = "dropWhile (\<lambda>e. \<not> fst e > now s) (decayMap s)"
  let ?temp = "concat (map snd (takeWhile (\<lambda>e. \<not> fst e > now s) (decayMap s)))"
  let ?s0 = "s\<lparr>decayMap := ?rest, erased := []\<rparr>"
  have "now s < fst e" if "e \<in> set ?rest" for e
  proof (cases ?rest)
    case (Cons x xs)
    have "sorted_wrt (<) (map fst ?rest)"
      using assms(1) sorted_wrt_dropWhile [of "(<)" "map fst (decayMap s)" "\<lambda>k. \<not> k > now s"]
      by (simp add: wcore_def dropWhile_map comp_def)
    moreover have "now s < fst x" using Cons hd_dropWhile [of "\<lambda>e. \<not> fst e > now s" "decayMap s"] by auto
    ultimately show ?thesis using that unfolding Cons by auto
  next
    case Nil
    show ?thesis using that unfolding Nil by simp
  qed
  then have "\<forall>e \<in> set ?rest. now s < fst e" by blast
  moreover have "later (now s) (s\<lparr>decayMap := m, erased := []\<rparr>)" if "\<forall>e \<in> set m. now s < fst e" for m
    using that by (simp add: later_def)
  ultimately have "later (now s) ?s0" by blast
  then have "later (now s) (fold (expire_item w canDecay effects) xs ?s0)" for xs
    using fold_later [where f = "expire_item w canDecay effects"] expire_item_later by blast
  then have l: "later (now s) (fold (expire_item w canDecay effects) ?temp ?s0)" .
  have "later (now s) t"
  proof (cases ?rest)
    case Nil
    have "t = fold (expire_item w canDecay effects) ?temp ?s0" using assms(2) unfolding checkDecay_def Let_def Nil by simp
    then show ?thesis using l by simp
  next
    case (Cons x xs)
    have "t = scheduleEvent (int32 (fst x - now s)) (fold (expire_item w canDecay effects) ?temp ?s0)"
      using assms(2) unfolding checkDecay_def Let_def Cons by (simp split: if_splits)
    then show ?thesis using l later_schedule by (simp only:)
  qed
  then show ?thesis by (simp add: later_def)
qed

section \<open>Pausing\<close>

lemma kinds: "isAttributeInteger DURATION_TIMESTAMP" "isAttributeInteger DECAYSTATE" "isAttributeInteger DURATION"
    "isAttributeInteger CORPSEOWNER"
  by (simp_all add: isAttributeInteger_def)

lemma setDuration_view:
  assumes "attributes_ok (attributeVector item)"
  shows "attributes_ok (attributeVector (setDuration d item))"
    "attr_map (setDuration d item) = (attr_map item)(DURATION \<mapsto> IntegerValue (if 0 \<le>s d then ucast d else 0))"
  using set_integer_view [OF assms kinds(3)] by (simp_all add: setDuration_def)

lemma setDecaying_view:
  assumes "attributes_ok (attributeVector item)" and "d \<noteq> 0"
  shows "attributes_ok (attributeVector (setDecaying d item))"
    "attr_map (setDecaying d item) = (attr_map item)(DECAYSTATE \<mapsto> IntegerValue d)"
  using set_integer_view [OF assms(1) kinds(2)] assms(2) by (simp_all add: setDecaying_def Let_def)

lemma bucket_push_undo:
  assumes "sorted_wrt (<) (map fst m)"
  shows "map_of (bucket_push ts i m) ts = Some ((case map_of m ts of None \<Rightarrow> [] | Some b \<Rightarrow> b) @ [i])"
    "map_of m ts = None \<Longrightarrow> bucket_erase ts (bucket_push ts i m) = m"
    "map_of m ts = Some b \<Longrightarrow> bucket_set ts b (bucket_push ts i m) = m"
proof -
  show "map_of (bucket_push ts i m) ts = Some ((case map_of m ts of None \<Rightarrow> [] | Some b \<Rightarrow> b) @ [i])"
    using assms
  proof (induction m)
    case (Cons e m)
    have "map_of m ts = None" if "ts < fst e" using that Cons.prems by (fastforce simp: map_of_eq_None_iff)
    then show ?case using Cons by (cases e) auto
  qed simp
  show "map_of m ts = None \<Longrightarrow> bucket_erase ts (bucket_push ts i m) = m"
  proof (induction m)
    case (Cons e m)
    then show ?case
      by (cases e) (auto simp: bucket_erase_def map_of_eq_None_iff filter_id_conv split: if_splits)
  qed (simp add: bucket_erase_def)
  show "map_of m ts = Some b \<Longrightarrow> bucket_set ts b (bucket_push ts i m) = m"
    using assms
  proof (induction m)
    case (Cons e m)
    have away: "map_of m ts = None \<and> bucket_set ts b m = m" if "ts \<le> fst e"
    proof
      have "\<forall>x \<in> set m. fst x \<noteq> ts" using that Cons.prems(2) by auto
      then show "map_of m ts = None" "bucket_set ts b m = m" by (auto simp: map_of_eq_None_iff bucket_set_def intro!: map_idI)
    qed
    then show ?case using Cons by (cases e) (auto simp: bucket_set_def split: if_splits)
  qed simp
qed

lemma stopDecay_last:
  assumes "wcore s" and "decayMap s = bucket_push ts i m" and "sorted_wrt (<) (map fst m)"
    and "\<And>b. map_of m ts = Some b \<Longrightarrow> b \<noteq> [] \<and> i \<notin> set b" and "0 < ts"
  shows "decayMap (stopDecay w i ts s) = m \<and> item_at (stopDecay w i ts s) = item_at (release w i s)"
proof (cases "map_of m ts")
  case None
  then show ?thesis using assms(2,5) bucket_push_undo [OF assms(3), where ts = ts and i = i] by (simp add: stopDecay_def)
next
  case (Some b)
  have "takeWhile (\<lambda>x. x \<noteq> i) (b @ [i]) = b" using assms(4) [OF Some] by (auto simp: takeWhile_append)
  then show ?thesis using Some assms(2,4,5) bucket_push_undo [OF assms(3), where ts = ts and i = i] by (simp add: stopDecay_def Let_def)
qed

lemma left_of_duration:
  fixes d :: int
  assumes "0 \<le> n" and "n \<le> d" and "d < 2 ^ 31"
  shows "(ucast (word_of_int (t + d) :: u64) :: u32) - ucast (word_of_int (t + n) :: u64) = word_of_int (d - n)"
    "0 \<le>s (word_of_int (d - n) :: u32)" "(ucast (word_of_int (d - n) :: u32) :: u64) = word_of_int (d - n)"
proof -
  have u: "(ucast (word_of_int x :: u64) :: u32) = word_of_int x" for x
    by (rule bit_word_eqI) (auto simp: bit_simps)
  show "(ucast (word_of_int (t + d) :: u64) :: u32) - ucast (word_of_int (t + n) :: u64) = word_of_int (d - n)"
    unfolding u by (simp add: word_of_int_inverse)
  have "0 \<le>s (word_of_int k :: u32)" if "0 \<le> k" "k < 2 ^ 31" for k
    using that by (simp add: word_sle_eq signed_of_int signed_take_bit_int_eq_self)
  then show "0 \<le>s (word_of_int (d - n) :: u32)" using assms by (simp del: of_int_diff)
  have "(ucast (word_of_int k :: u32) :: u64) = word_of_int k" if "0 \<le> k" "k < 2 ^ 31" for k
    using that by (simp add: unsigned_of_int take_bit_int_eq_self)
  then show "(ucast (word_of_int (d - n) :: u32) :: u64) = word_of_int (d - n)" using assms by (simp del: of_int_diff)
qed

section \<open>Properties\<close>

inductive decay_history :: "World \<Rightarrow> (nat \<Rightarrow> DecayMachine \<Rightarrow> bool) \<Rightarrow> (nat \<Rightarrow> DecayMachine \<Rightarrow> item_op list) \<Rightarrow> DecayMachine \<Rightarrow> bool"
  for w canDecay effects where
  start: "decayMap s = [] \<Longrightarrow> 0 \<le> now s \<Longrightarrow> now s < 2 ^ 61 \<Longrightarrow> decay_history w canDecay effects s"
| step: "decay_history w canDecay effects s \<Longrightarrow> decay_step w canDecay effects oper s = Some t \<Longrightarrow> now t < 2 ^ 61 \<Longrightarrow>
    decay_history w canDecay effects t"

lemma decay_history_inv: "decay_history w canDecay effects s \<Longrightarrow> inv None s"
proof (induction rule: decay_history.induct)
  case (start s)
  then show ?case by (simp add: inv_def wcore_def)
next
  case (step s oper t)
  show ?case
  proof (cases oper)
    case (Item_Op x)
    then show ?thesis using step run_item_op_inv by auto
  next
    case (Wait n)
    then show ?thesis using step by (auto simp: inv_def wcore_def in_time_def)
  next
    case (Check e)
    have "wcore (s\<lparr>scheduled := remove1 e (scheduled s)\<rparr>)" using inv_wcore [OF step.IH] by (simp add: wcore_def)
    then show ?thesis using step Check checkDecay_inv by (auto split: if_splits)
  qed
qed

text \<open>C28: Decay is checked in time: whatever items are started, stopped, transformed or made, and whenever
  checks run, as long as an item decays some pending event of the dispatcher runs \<open>checkDecay\<close> at most one
  scheduler tick (50 ms) after the first time stamp of the map; and a check leaves no time stamp in the map that
  is due, those of the items started while it ran included.\<close>

theorem decay_is_checked_in_time:
  assumes "decay_history w canDecay effects s"
  shows "(decayMap s = [] \<or> list_ex (\<lambda>e. e \<le> fst (hd (decayMap s)) + 50) (scheduled s)) \<and>
    pred_option (\<lambda>t. list_all (\<lambda>(ts, b). now s < ts) (decayMap t)) (checkDecay w canDecay effects s)"
proof -
  have "decayMap s = [] \<or> list_ex (\<lambda>e. e \<le> fst (hd (decayMap s)) + 50) (scheduled s)"
    using decay_history_inv [OF assms] by (auto simp: inv_def in_time_def list_ex_iff SCHEDULER_MINTICKS_def)
  moreover have "pred_option (\<lambda>t. list_all (\<lambda>(ts, b). now s < ts) (decayMap t)) (checkDecay w canDecay effects s)"
    using checkDecay_later [OF inv_wcore [OF decay_history_inv [OF assms]]]
    by (cases "checkDecay w canDecay effects s") (fastforce simp: list_all_iff)+
  ultimately show ?thesis by blast
qed

definition torch :: "int \<Rightarrow> Item" where
  "torch d = \<lparr>item_id = 1, item_count = 1, attributeVector = [(DURATION, IntegerValue (word_of_int d))], customAttributeMap = []\<rparr>"

definition two_torches :: DecayMachine where
  "two_torches = \<lparr>now = 1000, decayMap = [], scheduled = [], item_at = (\<lambda>i. torch (if i = 0 then 100 else 250)), next_item = 2, erased = []\<rparr>"

definition decay_world :: World where
  "decay_world = \<lparr>itemTypes = (\<lambda>i. \<lparr>stackable = False, fluidContainer = False, splash = False, movable = True, charges = 0,
     decayTime = 0, stopTime = False, decayTo = 0\<rparr>), OTSYS_TIME = 0, getTimeNow = 0, maxItemTier = 10, addUniqueItem = (\<lambda>u. True)\<rparr>"

theorem decay_is_checked_in_time_witness:
  "list_ex (\<lambda>e. e \<le> fst (hd (decayMap (run_item_op decay_world (\<lambda>i s. True) (Start 0) two_torches))) + 50)
     (scheduled (run_item_op decay_world (\<lambda>i s. True) (Start 0) two_torches))"
proof -
  let ?t = "run_item_op decay_world (\<lambda>i s. True) (Start 0) two_torches"
  have "decay_history decay_world (\<lambda>i s. True) (\<lambda>i s. []) two_torches" by (rule decay_history.start) (simp_all add: two_torches_def)
  moreover have "now ?t < 2 ^ 61" by code_simp
  ultimately have "decay_history decay_world (\<lambda>i s. True) (\<lambda>i s. []) ?t"
    using decay_history.step [of decay_world "\<lambda>i s. True" "\<lambda>i s. []" two_torches "Item_Op (Start 0)" ?t] by simp
  from decay_is_checked_in_time [OF this] have
    "decayMap ?t = [] \<or> list_ex (\<lambda>e. e \<le> fst (hd (decayMap ?t)) + 50) (scheduled ?t)" ..
  moreover have "decayMap ?t \<noteq> []" by code_simp
  ultimately show ?thesis by blast
qed

text \<open>Pausing keeps the time left: an item that is not decaying and has a duration of \<open>d\<close> milliseconds is started and,
  after \<open>n \<le> d\<close> milliseconds, stopped: it has a duration of \<open>d - n\<close>, no decay state and no time stamp, its other
  attributes and the other items are what they were, and so is the decay map.\<close>

theorem pause_keeps_time_left:
  fixes w :: World
  assumes "wcore s" and "list_all (\<lambda>(ts, b). i \<notin> set b) (decayMap s)" and "canDecay i s"
    and "attributes_ok (attributeVector (item_at s i))" and "attr_map (item_at s i) DURATION = Some (IntegerValue (word_of_int d))"
    and "attr_map (item_at s i) DECAYSTATE = None" and "attr_map (item_at s i) DURATION_TIMESTAMP = None"
    and "0 < d" and "d < 2 ^ 31" and "int n \<le> d" and "now s + d < 2 ^ 61"
  defines "t \<equiv> game_stopDecay w i ((game_startDecay w canDecay i s)\<lparr>now := now s + int n\<rparr>)"
  shows "attr_map (item_at t i) = (attr_map (item_at s i))(DURATION \<mapsto> IntegerValue (word_of_int (d - int n))) \<and>
    item_at t = (item_at s)(i := item_at t i) \<and> decayMap t = decayMap s"
proof -
  let ?x = "item_at s i" and ?ts = "now s + d"
  let ?y = "set_integer DURATION_TIMESTAMP (word_of_int ?ts) (setDecaying 1 ?x)"
  define u where "u = (startDecay w i d s)\<lparr>now := now s + int n\<rparr>"
  have y: "attributes_ok (attributeVector ?y)"
    "attr_map ?y = (attr_map ?x)(DECAYSTATE \<mapsto> IntegerValue 1, DURATION_TIMESTAMP \<mapsto> IntegerValue (word_of_int ?ts))"
    using set_integer_view [OF setDecaying_view(1) [OF assms(4), of 1] kinds(1)] setDecaying_view(2) [OF assms(4), of 1] by simp_all
  have u: "item_at u = (item_at s)(i := ?y)" "decayMap u = bucket_push ?ts i (decayMap s)" "now u = now s + int n"
    using assms(7,8) by (simp_all add: u_def startDecay_def Let_def has_attribute_map scheduleEvent_def upd_item_def)
  have "getDecaying ?x = 0"
    using assms(6) by (simp add: getDecaying_def getAttribute_as_def getAttributeValue_def getAttribute_map_of)
  moreover have "(getAttribute_as DURATION ?x :: u64) = word_of_int d" by (simp add: getAttribute_as_map [OF kinds(3) assms(5)])
  ultimately have "game_startDecay w canDecay i s = startDecay w i d s"
    using assms(3,8,9) by (simp add: game_startDecay_def Let_def int32_id signed_of_int signed_take_bit_int_eq_self)
  then have t: "t = game_stopDecay w i u" by (simp add: t_def u_def)
  have now: "0 \<le> now s" "now s < 2 ^ 61" and srt: "sorted_wrt (<) (map fst (decayMap s))" using assms(1) by (simp_all add: wcore_def)
  have stored: "attr_map ?y DURATION_TIMESTAMP = Some (IntegerValue (word_of_int ?ts))" "attr_map ?y DECAYSTATE = Some (IntegerValue 1)"
    by (simp_all only: y(2)) simp_all
  note read = getAttribute_as_map [OF kinds(1) stored(1)] getAttribute_as_map [OF kinds(2) stored(2)]
  have stamp: "duration_timestamp ?y = ?ts"
    using now assms(8,9) by (simp add: duration_timestamp_def read signed_of_int signed_take_bit_int_eq_self del: of_int_add)
  have left: "getDuration (clock w u) ?y = word_of_int (d - int n)"
    using left_of_duration(1,2) [where n = "int n" and d = d] assms(9,10)
    by (simp add: getDuration_def getDecaying_def clock_def u(3) Let_def read del: of_int_add of_int_diff)
  have core: "wcore u"
    using assms(1,8,9,10,11) u(2,3) bucket_push_sorted [OF srt, of ?ts i] bucket_push_set [OF srt, of ?ts i]
    by (auto simp: wcore_def split: option.splits)
  have "b \<noteq> [] \<and> i \<notin> set b" if "map_of (decayMap s) ?ts = Some b" for b
    using map_of_SomeD [OF that] assms(1,2) by (auto simp: wcore_def list_all_iff)
  then have "decayMap (stopDecay w i ?ts u) = decayMap s \<and> item_at (stopDecay w i ?ts u) = item_at (release w i u)"
    using stopDecay_last [OF core u(2) srt, of w] now assms(8) by simp
  moreover have "t = upd_item i (remove_attribute DURATION_TIMESTAMP) (stopDecay w i ?ts u)"
    unfolding t game_stopDecay_def using y(2) stamp by (simp add: u(1) has_attribute_map)
  moreover have "item_at (release w i u) i = remove_attribute DECAYSTATE (setDuration (word_of_int (d - int n)) ?y)"
    unfolding release_def upd_item_def using left y(2) assms(5) by (simp add: u(1) has_attribute_map)
  moreover have "item_at (release w i u) = (item_at s)(i := item_at (release w i u) i)"
    by (simp add: release_def upd_item_def u(1))
  moreover have "attr_map (remove_attribute DURATION_TIMESTAMP (remove_attribute DECAYSTATE (setDuration (word_of_int (d - int n)) ?y))) =
      (attr_map ?x)(DURATION \<mapsto> IntegerValue (word_of_int (d - int n)))"
    using remove_attribute_view [OF remove_attribute_view(1) [OF setDuration_view(1) [OF y(1)]]]
      remove_attribute_view(2) [OF setDuration_view(1) [OF y(1)]] setDuration_view(2) [OF y(1), of "word_of_int (d - int n)"]
      y(2) left_of_duration(2,3) [where n = "int n" and d = d] assms(6,7,9,10)
    by (auto simp del: of_int_diff)
  ultimately show ?thesis by (simp add: upd_item_def)
qed

theorem pause_keeps_time_left_witness:
  "attr_map (item_at (game_stopDecay decay_world 1 ((game_startDecay decay_world (\<lambda>i s. True) 1 two_torches)\<lparr>now := 1000 + int 90\<rparr>)) 1) DURATION
   = Some (IntegerValue 160)"
proof -
  have "attributes_ok (attributeVector (item_at two_torches 1))"
    by (simp add: two_torches_def torch_def attributes_ok_def typed_def isAttributeInteger_def)
  moreover have "wcore two_torches" by (simp add: two_torches_def wcore_def)
  ultimately show ?thesis
    using pause_keeps_time_left [of two_torches 1 "\<lambda>i s. True" 250 90 decay_world] by (simp add: two_torches_def torch_def)
qed


end
