(* ===== verification/Wheel_Slots.thy ===== *)
theory Wheel_Slots
  imports Network_Message Prop_Stream "HOL-Library.Multiset"
begin

text \<open>
  The slots of the wheel of destiny: how a player's points are spread over the wheel.
  \<^verbatim>\<open>src/creatures/players/wheel/player_wheel.cpp\<close> (\<open>canPlayerSelectPointOnSlot\<close> to \<open>getMaxPointsPerSlot\<close>),
  \<open>getSlotPrioritaryOrder\<close> of \<^verbatim>\<open>src/io/io_wheel.cpp\<close> and \<^verbatim>\<open>wheel_definitions.hpp\<close>.  The array of points
  is a list of 37 words indexed by the value of the slot; the level, the vocation and the account of the
  player are a record.  \<^verbatim>\<open>std::ranges::sort\<close> leaves the order of equal elements open: sorting is a
  parameter, of which only that it permutes is assumed.  Messages to the client and the log are left out.
  The lemmas compare the checks with one picture of a quadrant, and show that saving never spends more than
  there is, that a wheel filled from scratch is connected to its centre, which requests are stored as
  they are, and what the order of the checks lets through.
\<close>

section \<open>Slots\<close>

datatype WheelSlots_t =
    SLOT_GREEN_200 | SLOT_GREEN_TOP_150 | SLOT_GREEN_TOP_100 | SLOT_RED_TOP_100
  | SLOT_RED_TOP_150 | SLOT_RED_200 | SLOT_GREEN_BOTTOM_150 | SLOT_GREEN_MIDDLE_100
  | SLOT_GREEN_TOP_75 | SLOT_RED_TOP_75 | SLOT_RED_MIDDLE_100 | SLOT_RED_BOTTOM_150
  | SLOT_GREEN_BOTTOM_100 | SLOT_GREEN_BOTTOM_75 | SLOT_GREEN_50 | SLOT_RED_50
  | SLOT_RED_BOTTOM_75 | SLOT_RED_BOTTOM_100 | SLOT_BLUE_TOP_100 | SLOT_BLUE_TOP_75
  | SLOT_BLUE_50 | SLOT_PURPLE_50 | SLOT_PURPLE_TOP_75 | SLOT_PURPLE_TOP_100
  | SLOT_BLUE_TOP_150 | SLOT_BLUE_MIDDLE_100 | SLOT_BLUE_BOTTOM_75 | SLOT_PURPLE_BOTTOM_75
  | SLOT_PURPLE_MIDDLE_100 | SLOT_PURPLE_TOP_150 | SLOT_BLUE_200 | SLOT_BLUE_BOTTOM_150
  | SLOT_BLUE_BOTTOM_100 | SLOT_PURPLE_BOTTOM_100 | SLOT_PURPLE_BOTTOM_150 | SLOT_PURPLE_200

primrec slot_value :: "WheelSlots_t \<Rightarrow> nat" where
  "slot_value SLOT_GREEN_200 = 1" | "slot_value SLOT_GREEN_TOP_150 = 2" | "slot_value SLOT_GREEN_TOP_100 = 3"
| "slot_value SLOT_RED_TOP_100 = 4" | "slot_value SLOT_RED_TOP_150 = 5" | "slot_value SLOT_RED_200 = 6"
| "slot_value SLOT_GREEN_BOTTOM_150 = 7" | "slot_value SLOT_GREEN_MIDDLE_100 = 8" | "slot_value SLOT_GREEN_TOP_75 = 9"
| "slot_value SLOT_RED_TOP_75 = 10" | "slot_value SLOT_RED_MIDDLE_100 = 11" | "slot_value SLOT_RED_BOTTOM_150 = 12"
| "slot_value SLOT_GREEN_BOTTOM_100 = 13" | "slot_value SLOT_GREEN_BOTTOM_75 = 14" | "slot_value SLOT_GREEN_50 = 15"
| "slot_value SLOT_RED_50 = 16" | "slot_value SLOT_RED_BOTTOM_75 = 17" | "slot_value SLOT_RED_BOTTOM_100 = 18"
| "slot_value SLOT_BLUE_TOP_100 = 19" | "slot_value SLOT_BLUE_TOP_75 = 20" | "slot_value SLOT_BLUE_50 = 21"
| "slot_value SLOT_PURPLE_50 = 22" | "slot_value SLOT_PURPLE_TOP_75 = 23" | "slot_value SLOT_PURPLE_TOP_100 = 24"
| "slot_value SLOT_BLUE_TOP_150 = 25" | "slot_value SLOT_BLUE_MIDDLE_100 = 26" | "slot_value SLOT_BLUE_BOTTOM_75 = 27"
| "slot_value SLOT_PURPLE_BOTTOM_75 = 28" | "slot_value SLOT_PURPLE_MIDDLE_100 = 29" | "slot_value SLOT_PURPLE_TOP_150 = 30"
| "slot_value SLOT_BLUE_200 = 31" | "slot_value SLOT_BLUE_BOTTOM_150 = 32" | "slot_value SLOT_BLUE_BOTTOM_100 = 33"
| "slot_value SLOT_PURPLE_BOTTOM_100 = 34" | "slot_value SLOT_PURPLE_BOTTOM_150 = 35" | "slot_value SLOT_PURPLE_200 = 36"

definition enum_slots :: "WheelSlots_t list" where
  "enum_slots = [
     SLOT_GREEN_200, SLOT_GREEN_TOP_150, SLOT_GREEN_TOP_100, SLOT_RED_TOP_100,
     SLOT_RED_TOP_150, SLOT_RED_200, SLOT_GREEN_BOTTOM_150, SLOT_GREEN_MIDDLE_100,
     SLOT_GREEN_TOP_75, SLOT_RED_TOP_75, SLOT_RED_MIDDLE_100, SLOT_RED_BOTTOM_150,
     SLOT_GREEN_BOTTOM_100, SLOT_GREEN_BOTTOM_75, SLOT_GREEN_50, SLOT_RED_50,
     SLOT_RED_BOTTOM_75, SLOT_RED_BOTTOM_100, SLOT_BLUE_TOP_100, SLOT_BLUE_TOP_75,
     SLOT_BLUE_50, SLOT_PURPLE_50, SLOT_PURPLE_TOP_75, SLOT_PURPLE_TOP_100,
     SLOT_BLUE_TOP_150, SLOT_BLUE_MIDDLE_100, SLOT_BLUE_BOTTOM_75, SLOT_PURPLE_BOTTOM_75,
     SLOT_PURPLE_MIDDLE_100, SLOT_PURPLE_TOP_150, SLOT_BLUE_200, SLOT_BLUE_BOTTOM_150,
     SLOT_BLUE_BOTTOM_100, SLOT_PURPLE_BOTTOM_100, SLOT_PURPLE_BOTTOM_150, SLOT_PURPLE_200]"

definition getMaxPointsPerSlot :: "WheelSlots_t \<Rightarrow> u8" where
  "getMaxPointsPerSlot slot =
     (if slot \<in> {SLOT_BLUE_50, SLOT_RED_50, SLOT_PURPLE_50, SLOT_GREEN_50} then 50
      else if slot \<in> {SLOT_GREEN_TOP_75, SLOT_GREEN_BOTTOM_75, SLOT_RED_TOP_75, SLOT_RED_BOTTOM_75,
        SLOT_PURPLE_TOP_75, SLOT_PURPLE_BOTTOM_75, SLOT_BLUE_TOP_75, SLOT_BLUE_BOTTOM_75} then 75
      else if slot \<in> {SLOT_GREEN_BOTTOM_100, SLOT_GREEN_MIDDLE_100, SLOT_GREEN_TOP_100, SLOT_RED_BOTTOM_100,
        SLOT_RED_MIDDLE_100, SLOT_RED_TOP_100, SLOT_PURPLE_BOTTOM_100, SLOT_PURPLE_MIDDLE_100,
        SLOT_PURPLE_TOP_100, SLOT_BLUE_BOTTOM_100, SLOT_BLUE_MIDDLE_100, SLOT_BLUE_TOP_100} then 100
      else if slot \<in> {SLOT_GREEN_TOP_150, SLOT_GREEN_BOTTOM_150, SLOT_RED_TOP_150, SLOT_RED_BOTTOM_150,
        SLOT_PURPLE_TOP_150, SLOT_PURPLE_BOTTOM_150, SLOT_BLUE_TOP_150, SLOT_BLUE_BOTTOM_150} then 150
      else if slot \<in> {SLOT_GREEN_200, SLOT_RED_200, SLOT_PURPLE_200, SLOT_BLUE_200} then 200
      else 0)"

definition getSlotPrioritaryOrder :: "WheelSlots_t \<Rightarrow> int" where
  "getSlotPrioritaryOrder slot =
     (if slot \<in> {SLOT_BLUE_50, SLOT_RED_50, SLOT_PURPLE_50, SLOT_GREEN_50} then 0
      else if slot \<in> {SLOT_GREEN_TOP_75, SLOT_GREEN_BOTTOM_75, SLOT_RED_TOP_75, SLOT_RED_BOTTOM_75,
        SLOT_PURPLE_TOP_75, SLOT_PURPLE_BOTTOM_75, SLOT_BLUE_TOP_75, SLOT_BLUE_BOTTOM_75} then 1
      else if slot \<in> {SLOT_GREEN_BOTTOM_100, SLOT_GREEN_MIDDLE_100, SLOT_GREEN_TOP_100, SLOT_RED_BOTTOM_100,
        SLOT_RED_MIDDLE_100, SLOT_RED_TOP_100, SLOT_PURPLE_BOTTOM_100, SLOT_PURPLE_MIDDLE_100,
        SLOT_PURPLE_TOP_100, SLOT_BLUE_BOTTOM_100, SLOT_BLUE_MIDDLE_100, SLOT_BLUE_TOP_100} then 2
      else if slot \<in> {SLOT_GREEN_TOP_150, SLOT_GREEN_BOTTOM_150, SLOT_RED_TOP_150, SLOT_RED_BOTTOM_150,
        SLOT_PURPLE_TOP_150, SLOT_PURPLE_BOTTOM_150, SLOT_BLUE_TOP_150, SLOT_BLUE_BOTTOM_150} then 3
      else if slot \<in> {SLOT_GREEN_200, SLOT_RED_200, SLOT_PURPLE_200, SLOT_BLUE_200} then 4
      else - 1)"

section \<open>The wheel and its owner\<close>

record PromotionScroll =
  scroll_item :: u16
  scroll_name :: string
  extraPoints :: u8

record WheelOwner =
  owner_level :: u32
  has_vocation :: bool
  isPremium :: bool
  isPromoted :: bool
  oldProtocol :: bool
  hasMonkQuest :: bool

record PlayerWheel =
  m_pointsPerLevel :: u16
  m_wheelSlots :: "u16 list"
  m_modsMaxGrade :: u8
  m_unlockedScrolls :: "PromotionScroll list"

definition getExtraPoints :: "WheelOwner \<Rightarrow> 'z PlayerWheel_scheme \<Rightarrow> u16" where
  "getExtraPoints player wheel =
     (if owner_level player < 51 then 0
      else
        let totalBonus = foldl (\<lambda>b scroll. if scroll_item scroll = 0 then b else b + ucast (extraPoints scroll)) 0 (m_unlockedScrolls wheel)
        in if hasMonkQuest player then totalBonus + 10 else totalBonus)"

definition getWheelPoints :: "WheelOwner \<Rightarrow> bool \<Rightarrow> 'z PlayerWheel_scheme \<Rightarrow> u16" where
  "getWheelPoints player includeExtraPoints wheel =
     (let totalPoints = max 0 (owner_level player - 50) * ucast (m_pointsPerLevel wheel) :: u32
      in ucast (if includeExtraPoints then totalPoints + ucast (getExtraPoints player wheel) else totalPoints))"

definition getPointsBySlotType :: "'z PlayerWheel_scheme \<Rightarrow> WheelSlots_t \<Rightarrow> u16" where
  "getPointsBySlotType wheel slot =
     (if slot_value slot < length (m_wheelSlots wheel) then m_wheelSlots wheel ! slot_value slot else 0)"

definition setPointsBySlotType :: "nat \<Rightarrow> u16 \<Rightarrow> 'z PlayerWheel_scheme \<Rightarrow> 'z PlayerWheel_scheme" where
  "setPointsBySlotType slotType points wheel =
     (if slotType < length (m_wheelSlots wheel) then wheel\<lparr>m_wheelSlots := (m_wheelSlots wheel)[slotType := points]\<rparr> else wheel)"

definition canSelectSlotFullOrPartial :: "'z PlayerWheel_scheme \<Rightarrow> WheelSlots_t \<Rightarrow> bool" where
  "canSelectSlotFullOrPartial wheel slot \<longleftrightarrow> getPointsBySlotType wheel slot = ucast (getMaxPointsPerSlot slot)"

definition getUnusedPoints :: "WheelOwner \<Rightarrow> 'z PlayerWheel_scheme \<Rightarrow> u16" where
  "getUnusedPoints player wheel =
     (let totalPoints = getWheelPoints player True wheel
      in if totalPoints = 0 then 0
         else foldl (\<lambda>total slot. total - getPointsBySlotType wheel slot) (totalPoints + ucast (m_modsMaxGrade wheel)) enum_slots)"

definition canOpenWheel :: "WheelOwner \<Rightarrow> bool" where
  "canOpenWheel player \<longleftrightarrow>
     has_vocation player \<and> \<not> owner_level player \<le> 50 \<and> isPremium player \<and> isPromoted player"

section \<open>Which slots may take points\<close>

text \<open>The parameter \<open>recursive\<close> has no effect, as in the code.\<close>

definition green_quadrant :: "(WheelSlots_t \<Rightarrow> bool) \<Rightarrow> u16 \<Rightarrow> bool \<Rightarrow> WheelSlots_t \<Rightarrow> bool" where
  "green_quadrant full playerPoints recursive slot \<longleftrightarrow>
     (if slot = SLOT_GREEN_200 then playerPoints \<ge> 375 \<and>
        (full SLOT_GREEN_TOP_150 \<or> full SLOT_GREEN_BOTTOM_150)
      else if slot = SLOT_GREEN_TOP_150 then playerPoints \<ge> 225 \<and>
        (full SLOT_GREEN_TOP_100 \<or> full SLOT_GREEN_MIDDLE_100 \<or> full SLOT_GREEN_BOTTOM_150)
      else if slot = SLOT_GREEN_BOTTOM_150 then playerPoints \<ge> 225 \<and>
        (full SLOT_GREEN_MIDDLE_100 \<or> full SLOT_GREEN_BOTTOM_100 \<or> full SLOT_GREEN_TOP_150)
      else if slot = SLOT_GREEN_TOP_100 then playerPoints \<ge> 125 \<and>
        (full SLOT_RED_TOP_100 \<or> full SLOT_GREEN_TOP_75 \<or> full SLOT_GREEN_MIDDLE_100 \<or> full SLOT_GREEN_MIDDLE_100)
      else if slot = SLOT_GREEN_MIDDLE_100 then playerPoints \<ge> 125 \<and>
        (full SLOT_GREEN_TOP_100 \<or> full SLOT_GREEN_TOP_75 \<or> full SLOT_GREEN_BOTTOM_75 \<or> full SLOT_GREEN_BOTTOM_100)
      else if slot = SLOT_GREEN_BOTTOM_100 then playerPoints \<ge> 125 \<and>
        (full SLOT_GREEN_MIDDLE_100 \<or> full SLOT_GREEN_BOTTOM_75 \<or> full SLOT_BLUE_TOP_100 \<or> full SLOT_GREEN_BOTTOM_150)
      else if slot = SLOT_GREEN_TOP_75 then playerPoints \<ge> 50 \<and>
        (full SLOT_GREEN_50 \<or> full SLOT_RED_TOP_75 \<or> full SLOT_GREEN_BOTTOM_75 \<or> full SLOT_GREEN_MIDDLE_100 \<or> full SLOT_GREEN_TOP_100)
      else if slot = SLOT_GREEN_BOTTOM_75 then playerPoints \<ge> 50 \<and>
        (full SLOT_GREEN_50 \<or> full SLOT_BLUE_TOP_75 \<or> full SLOT_GREEN_MIDDLE_100 \<or> full SLOT_GREEN_BOTTOM_100 \<or> full SLOT_GREEN_TOP_75)
      else slot = SLOT_GREEN_50 \<and> (recursive \<and> full SLOT_GREEN_50 \<or> True))"

definition red_quadrant :: "(WheelSlots_t \<Rightarrow> bool) \<Rightarrow> u16 \<Rightarrow> bool \<Rightarrow> WheelSlots_t \<Rightarrow> bool" where
  "red_quadrant full playerPoints recursive slot \<longleftrightarrow>
     (if slot = SLOT_RED_200 then playerPoints \<ge> 375 \<and>
        (full SLOT_RED_TOP_150 \<or> full SLOT_RED_BOTTOM_150)
      else if slot = SLOT_RED_TOP_150 then playerPoints \<ge> 225 \<and>
        (full SLOT_RED_TOP_100 \<or> full SLOT_RED_MIDDLE_100 \<or> full SLOT_RED_BOTTOM_150)
      else if slot = SLOT_RED_BOTTOM_150 then playerPoints \<ge> 225 \<and>
        (full SLOT_RED_MIDDLE_100 \<or> full SLOT_RED_BOTTOM_100 \<or> full SLOT_RED_TOP_150)
      else if slot = SLOT_RED_TOP_100 then playerPoints \<ge> 125 \<and>
        (full SLOT_RED_TOP_75 \<or> full SLOT_GREEN_TOP_100 \<or> full SLOT_RED_MIDDLE_100 \<or> full SLOT_RED_TOP_150)
      else if slot = SLOT_RED_MIDDLE_100 then playerPoints \<ge> 125 \<and>
        (full SLOT_RED_TOP_75 \<or> full SLOT_RED_BOTTOM_75 \<or> full SLOT_RED_BOTTOM_100 \<or> full SLOT_RED_TOP_100)
      else if slot = SLOT_RED_BOTTOM_100 then playerPoints \<ge> 125 \<and>
        (full SLOT_RED_BOTTOM_75 \<or> full SLOT_PURPLE_TOP_100 \<or> full SLOT_RED_MIDDLE_100 \<or> full SLOT_RED_BOTTOM_150)
      else if slot = SLOT_RED_TOP_75 then playerPoints \<ge> 50 \<and>
        (full SLOT_RED_50 \<or> full SLOT_GREEN_TOP_75 \<or> full SLOT_RED_TOP_100 \<or> full SLOT_RED_MIDDLE_100 \<or> full SLOT_RED_BOTTOM_75)
      else if slot = SLOT_RED_BOTTOM_75 then playerPoints \<ge> 50 \<and>
        (full SLOT_RED_50 \<or> full SLOT_PURPLE_TOP_75 \<or> full SLOT_RED_BOTTOM_100 \<or> full SLOT_RED_MIDDLE_100 \<or> full SLOT_RED_TOP_75)
      else slot = SLOT_RED_50 \<and> (recursive \<and> full SLOT_RED_50 \<or> True))"

definition purple_quadrant :: "(WheelSlots_t \<Rightarrow> bool) \<Rightarrow> u16 \<Rightarrow> bool \<Rightarrow> WheelSlots_t \<Rightarrow> bool" where
  "purple_quadrant full playerPoints recursive slot \<longleftrightarrow>
     (if slot = SLOT_PURPLE_200 then playerPoints \<ge> 375 \<and>
        (full SLOT_PURPLE_TOP_150 \<or> full SLOT_PURPLE_BOTTOM_150)
      else if slot = SLOT_PURPLE_TOP_150 then playerPoints \<ge> 225 \<and>
        (full SLOT_PURPLE_MIDDLE_100 \<or> full SLOT_PURPLE_TOP_100 \<or> full SLOT_PURPLE_BOTTOM_150)
      else if slot = SLOT_PURPLE_BOTTOM_150 then playerPoints \<ge> 225 \<and>
        (full SLOT_PURPLE_MIDDLE_100 \<or> full SLOT_PURPLE_BOTTOM_100 \<or> full SLOT_PURPLE_TOP_150)
      else if slot = SLOT_PURPLE_TOP_100 then playerPoints \<ge> 125 \<and>
        (full SLOT_PURPLE_TOP_75 \<or> full SLOT_RED_BOTTOM_100 \<or> full SLOT_PURPLE_MIDDLE_100 \<or> full SLOT_PURPLE_TOP_150)
      else if slot = SLOT_PURPLE_MIDDLE_100 then playerPoints \<ge> 125 \<and>
        (full SLOT_PURPLE_TOP_75 \<or> full SLOT_PURPLE_BOTTOM_75 \<or> full SLOT_PURPLE_BOTTOM_100 \<or> full SLOT_PURPLE_TOP_100)
      else if slot = SLOT_PURPLE_BOTTOM_100 then playerPoints \<ge> 125 \<and>
        (full SLOT_PURPLE_BOTTOM_75 \<or> full SLOT_BLUE_BOTTOM_100 \<or> full SLOT_PURPLE_MIDDLE_100 \<or> full SLOT_PURPLE_BOTTOM_150)
      else if slot = SLOT_PURPLE_TOP_75 then playerPoints \<ge> 50 \<and>
        (full SLOT_PURPLE_50 \<or> full SLOT_RED_BOTTOM_75 \<or> full SLOT_PURPLE_BOTTOM_75 \<or> full SLOT_PURPLE_MIDDLE_100 \<or> full SLOT_PURPLE_TOP_100)
      else if slot = SLOT_PURPLE_BOTTOM_75 then playerPoints \<ge> 50 \<and>
        (full SLOT_PURPLE_50 \<or> full SLOT_BLUE_BOTTOM_75 \<or> full SLOT_PURPLE_TOP_75 \<or> full SLOT_PURPLE_MIDDLE_100 \<or> full SLOT_PURPLE_BOTTOM_100)
      else slot = SLOT_PURPLE_50 \<and> (recursive \<and> full SLOT_PURPLE_50 \<or> True))"

definition blue_quadrant :: "(WheelSlots_t \<Rightarrow> bool) \<Rightarrow> u16 \<Rightarrow> bool \<Rightarrow> WheelSlots_t \<Rightarrow> bool" where
  "blue_quadrant full playerPoints recursive slot \<longleftrightarrow>
     (if slot = SLOT_BLUE_200 then playerPoints \<ge> 375 \<and>
        (full SLOT_BLUE_TOP_150 \<or> full SLOT_BLUE_BOTTOM_150)
      else if slot = SLOT_BLUE_TOP_150 then playerPoints \<ge> 225 \<and>
        (full SLOT_BLUE_MIDDLE_100 \<or> full SLOT_BLUE_TOP_100 \<or> full SLOT_BLUE_BOTTOM_150)
      else if slot = SLOT_BLUE_BOTTOM_150 then playerPoints \<ge> 225 \<and>
        (full SLOT_BLUE_MIDDLE_100 \<or> full SLOT_BLUE_BOTTOM_100 \<or> full SLOT_BLUE_TOP_150)
      else if slot = SLOT_BLUE_TOP_100 then playerPoints \<ge> 125 \<and>
        (full SLOT_BLUE_TOP_75 \<or> full SLOT_GREEN_BOTTOM_100 \<or> full SLOT_BLUE_MIDDLE_100 \<or> full SLOT_BLUE_TOP_150)
      else if slot = SLOT_BLUE_MIDDLE_100 then playerPoints \<ge> 125 \<and>
        (full SLOT_BLUE_TOP_75 \<or> full SLOT_BLUE_BOTTOM_75 \<or> full SLOT_BLUE_BOTTOM_100 \<or> full SLOT_BLUE_TOP_100)
      else if slot = SLOT_BLUE_BOTTOM_100 then playerPoints \<ge> 125 \<and>
        (full SLOT_BLUE_BOTTOM_75 \<or> full SLOT_PURPLE_BOTTOM_100 \<or> full SLOT_BLUE_MIDDLE_100 \<or> full SLOT_BLUE_BOTTOM_150)
      else if slot = SLOT_BLUE_TOP_75 then playerPoints \<ge> 50 \<and>
        (full SLOT_BLUE_50 \<or> full SLOT_GREEN_BOTTOM_75 \<or> full SLOT_BLUE_BOTTOM_75 \<or> full SLOT_BLUE_MIDDLE_100 \<or> full SLOT_BLUE_TOP_100)
      else if slot = SLOT_BLUE_BOTTOM_75 then playerPoints \<ge> 50 \<and>
        (full SLOT_BLUE_50 \<or> full SLOT_PURPLE_BOTTOM_75 \<or> full SLOT_BLUE_TOP_75 \<or> full SLOT_BLUE_MIDDLE_100 \<or> full SLOT_BLUE_BOTTOM_100)
      else slot = SLOT_BLUE_50 \<and> (recursive \<and> full SLOT_BLUE_50 \<or> True))"

definition canPlayerSelectPointOnSlot :: "WheelOwner \<Rightarrow> WheelSlots_t \<Rightarrow> bool \<Rightarrow> 'z PlayerWheel_scheme \<Rightarrow> bool" where
  "canPlayerSelectPointOnSlot player slot recursive wheel \<longleftrightarrow>
     (let playerPoints = getWheelPoints player True wheel; full = canSelectSlotFullOrPartial wheel
      in green_quadrant full playerPoints recursive slot \<or> red_quadrant full playerPoints recursive slot \<or>
         purple_quadrant full playerPoints recursive slot \<or> blue_quadrant full playerPoints recursive slot)"

section \<open>Saving a request\<close>

record SlotInfo =
  order :: int
  slot :: WheelSlots_t
  points :: u16

definition checkSavePointsBySlotType :: "WheelOwner \<Rightarrow> WheelSlots_t \<Rightarrow> u16 \<Rightarrow> 'z PlayerWheel_scheme \<Rightarrow> bool \<times> 'z PlayerWheel_scheme" where
  "checkSavePointsBySlotType player slotType pts wheel =
     (if pts > 0 \<and> \<not> canPlayerSelectPointOnSlot player slotType False wheel then (False, wheel)
      else
        let wheel1 = setPointsBySlotType (slot_value slotType) 0 wheel;
            unusedPoints = getUnusedPoints player wheel1
        in if pts > unusedPoints then (False, wheel1)
           else (True, setPointsBySlotType (slot_value slotType) pts wheel1))"

text \<open>One pass over a table, and what it leaves to be tried again.\<close>

fun save_pass :: "WheelOwner \<Rightarrow> SlotInfo list \<Rightarrow> 'z PlayerWheel_scheme \<Rightarrow> SlotInfo list \<times> 'z PlayerWheel_scheme" where
  "save_pass player [] wheel = ([], wheel)"
| "save_pass player (data # table) wheel =
     (let (saved, wheel1) = checkSavePointsBySlotType player (slot data) (points data) wheel;
          (retry, wheel2) = save_pass player table wheel1
      in (if saved then retry else data # retry, wheel2))"

definition save_table :: "WheelOwner \<Rightarrow> SlotInfo list \<Rightarrow> 'z PlayerWheel_scheme \<Rightarrow> SlotInfo list \<times> 'z PlayerWheel_scheme" where
  "save_table player sortedTable wheel =
     (let (retry, wheel1) = save_pass player sortedTable wheel
      in if retry \<noteq> [] then ((\<lambda>(retry, wheel). save_pass player retry wheel) ^^ 6) (retry, wheel1) else (retry, wheel1))"

text \<open>The points of the request: \<open>None\<close> when a read leaves the buffer, \<open>Some None\<close> when a slot has too many.\<close>

fun read_table :: "WheelSlots_t list \<Rightarrow> NetworkMessage \<Rightarrow> (SlotInfo list option \<times> NetworkMessage) option" where
  "read_table [] msg = Some (Some [], msg)"
| "read_table (s # slots) msg =
     (case get msg of
        None \<Rightarrow> None
      | Some (slotPoints, msg1) \<Rightarrow>
          if slotPoints > ucast (getMaxPointsPerSlot s) then Some (None, msg1)
          else
            case read_table slots msg1 of
              None \<Rightarrow> None
            | Some (None, msg2) \<Rightarrow> Some (None, msg2)
            | Some (Some table, msg2) \<Rightarrow>
                Some (Some (if getSlotPrioritaryOrder s = - 1 then table
                   else \<lparr>order = getSlotPrioritaryOrder s, slot = s, points = slotPoints\<rparr> # table), msg2))"

text \<open>The slots of a request; the flag says whether the handler goes on to the gems.\<close>

definition save_slots :: "(SlotInfo list \<Rightarrow> SlotInfo list) \<Rightarrow> WheelOwner \<Rightarrow> NetworkMessage \<Rightarrow> 'z PlayerWheel_scheme \<Rightarrow>
    (bool \<times> NetworkMessage \<times> 'z PlayerWheel_scheme) option" where
  "save_slots ranges_sort player msg wheel =
     (if oldProtocol player \<or> \<not> canOpenWheel player then Some (False, msg, wheel)
      else
        case read_table enum_slots msg of
          None \<Rightarrow> None
        | Some (None, msg1) \<Rightarrow> Some (False, msg1, wheel)
        | Some (Some table, msg1) \<Rightarrow> Some (True, msg1, snd (save_table player (ranges_sort table) wheel)))"

section \<open>Scrolls and the database\<close>

definition WheelOfDestinyPromotionScrolls :: "PromotionScroll list" where
  "WheelOfDestinyPromotionScrolls =
     [\<lparr>scroll_item = 43946, scroll_name = ''abridged'', extraPoints = 3\<rparr>,
      \<lparr>scroll_item = 43947, scroll_name = ''basic'', extraPoints = 5\<rparr>,
      \<lparr>scroll_item = 43948, scroll_name = ''revised'', extraPoints = 9\<rparr>,
      \<lparr>scroll_item = 43949, scroll_name = ''extended'', extraPoints = 13\<rparr>,
      \<lparr>scroll_item = 43950, scroll_name = ''advanced'', extraPoints = 20\<rparr>]"

definition scrollAcquired :: "string \<Rightarrow> 'z PlayerWheel_scheme \<Rightarrow> bool" where
  "scrollAcquired scrollName wheel \<longleftrightarrow> find (\<lambda>s. scrollName = scroll_name s) (m_unlockedScrolls wheel) \<noteq> None"

definition unlockScroll :: "string \<Rightarrow> 'z PlayerWheel_scheme \<Rightarrow> bool \<times> 'z PlayerWheel_scheme" where
  "unlockScroll scrollName wheel =
     (if scrollAcquired scrollName wheel then (False, wheel)
      else
        case find (\<lambda>s. scroll_name s = scrollName) WheelOfDestinyPromotionScrolls of
          Some s \<Rightarrow> (True, wheel\<lparr>m_unlockedScrolls := m_unlockedScrolls wheel @ [s]\<rparr>)
        | None \<Rightarrow> (False, wheel))"

text \<open>The values a player keeps under \<open>wheel-of-destiny\<close> and \<open>scrolls\<close>.\<close>

definition loadKVScrolls :: "(string \<rightharpoonup> bool) \<Rightarrow> 'z PlayerWheel_scheme \<Rightarrow> 'z PlayerWheel_scheme" where
  "loadKVScrolls scrollKv wheel =
     wheel\<lparr>m_unlockedScrolls := m_unlockedScrolls wheel @ filter (\<lambda>s. scrollKv (scroll_name s) = Some True) WheelOfDestinyPromotionScrolls\<rparr>"

definition saveKVScrolls :: "'z PlayerWheel_scheme \<Rightarrow> (string \<rightharpoonup> bool) \<Rightarrow> (string \<rightharpoonup> bool)" where
  "saveKVScrolls wheel scrollKv = foldl (\<lambda>kv s. kv(scroll_name s \<mapsto> True)) scrollKv (m_unlockedScrolls wheel)"

text \<open>The blob of the column \<open>slot\<close>; \<open>i\<close> counts an 8-bit index from 1.\<close>

definition saveDBPlayerSlotPointsOnLogout :: "'z PlayerWheel_scheme \<Rightarrow> byte list" where
  "saveDBPlayerSlotPointsOnLogout wheel =
     concat (map (\<lambda>i. bytes_of (of_nat i :: u8) @ bytes_of (m_wheelSlots wheel ! i)) [1..<length (m_wheelSlots wheel)])"

fun load_slots :: "nat \<Rightarrow> byte list \<Rightarrow> 'z PlayerWheel_scheme \<Rightarrow> 'z PlayerWheel_scheme" where
  "load_slots 0 propStream wheel = wheel"
| "load_slots (Suc n) propStream wheel =
     (case ps_read propStream of
        (None, p) \<Rightarrow> load_slots n p wheel
      | (Some (s :: u8), p) \<Rightarrow>
          case ps_read p of
            (None, q) \<Rightarrow> load_slots n q wheel
          | (Some (pts :: u16), q) \<Rightarrow> load_slots n q (setPointsBySlotType (unat s) pts wheel))"

definition loadDBPlayerSlotPointsOnLogin :: "byte list \<Rightarrow> 'z PlayerWheel_scheme \<Rightarrow> 'z PlayerWheel_scheme" where
  "loadDBPlayerSlotPointsOnLogin attribute wheel = load_slots (length attribute) attribute wheel"

section \<open>The array of points\<close>

lemma enum_slots_values: "map slot_value enum_slots = [1..<37]"
  by code_simp

lemma enum_slots_all: "s \<in> set enum_slots"
  by (cases s) (simp_all add: enum_slots_def)

lemma enum_slots_distinct: "distinct enum_slots"
proof -
  have "distinct (map slot_value enum_slots)" unfolding enum_slots_values by simp
  then show ?thesis by (simp add: distinct_map)
qed

lemma slot_value_bounds: "0 < slot_value s" "slot_value s < 37"
  by (cases s; simp)+

lemma slot_value_inj: "slot_value s = slot_value t \<longleftrightarrow> s = t"
proof -
  have "inj_on slot_value (set enum_slots)"
    using enum_slots_values distinct_map [of slot_value enum_slots] by simp
  then show ?thesis using enum_slots_all by (auto simp: inj_on_def)
qed

abbreviation wheel_ok :: "'z PlayerWheel_scheme \<Rightarrow> bool" where
  "wheel_ok w \<equiv> length (m_wheelSlots w) = 37"

lemma set_points_ok [simp]: "wheel_ok (setPointsBySlotType i p w) = wheel_ok w"
  by (simp add: setPointsBySlotType_def)

lemma get_set_points:
  "wheel_ok w \<Longrightarrow> getPointsBySlotType (setPointsBySlotType (slot_value s) p w) t = (if t = s then p else getPointsBySlotType w t)"
  using slot_value_bounds [of s] slot_value_bounds [of t] slot_value_inj [of s t]
  by (auto simp: getPointsBySlotType_def setPointsBySlotType_def nth_list_update)

lemma wheel_points_set [simp]:
  "getWheelPoints player b (setPointsBySlotType i p w) = getWheelPoints player b w"
  "m_modsMaxGrade (setPointsBySlotType i p w) = m_modsMaxGrade w"
  by (simp_all add: getWheelPoints_def getExtraPoints_def setPointsBySlotType_def Let_def)

definition spent :: "'z PlayerWheel_scheme \<Rightarrow> nat" where
  "spent w = (\<Sum>s\<leftarrow>enum_slots. unat (getPointsBySlotType w s))"

definition budget :: "WheelOwner \<Rightarrow> 'z PlayerWheel_scheme \<Rightarrow> nat" where
  "budget player w =
     (if getWheelPoints player True w = 0 then 0 else unat (getWheelPoints player True w) + unat (m_modsMaxGrade w))"

lemma budget_set [simp]: "budget player (setPointsBySlotType i p w) = budget player w"
  by (simp add: budget_def)

lemma spent_set:
  assumes "wheel_ok w"
  shows "spent (setPointsBySlotType (slot_value s) p w) + unat (getPointsBySlotType w s) = spent w + unat p"
proof -
  have "(\<Sum>t\<leftarrow>xs. unat (if t = s then p else getPointsBySlotType w t)) + (if s \<in> set xs then unat (getPointsBySlotType w s) else 0) =
      (\<Sum>t\<leftarrow>xs. unat (getPointsBySlotType w t)) + (if s \<in> set xs then unat p else 0)" if "distinct xs" for xs
    using that by (induction xs) auto
  from this [OF enum_slots_distinct] show ?thesis by (simp add: spent_def get_set_points [OF assms] enum_slots_all)
qed

section \<open>Saving never spends more than there is\<close>

lemma fold_minus: "foldl (\<lambda>t s. t - f s) (a :: 'a::len word) xs = a - of_nat (\<Sum>s\<leftarrow>xs. unat (f s))"
  by (induction xs arbitrary: a) (simp_all add: algebra_simps)

lemma unused_word:
  "getWheelPoints player True w \<noteq> 0 \<Longrightarrow> getUnusedPoints player w = of_nat (budget player w) - of_nat (spent w)"
  by (simp add: getUnusedPoints_def Let_def fold_minus spent_def budget_def)

lemma unused_left:
  assumes "spent w \<le> budget player w" and "budget player w < 65536"
  shows "unat (getUnusedPoints player w) = budget player w - spent w"
proof (cases "getWheelPoints player True w = 0")
  case True
  then show ?thesis using assms(1) by (simp add: getUnusedPoints_def budget_def)
next
  case False
  have "getUnusedPoints player w = of_nat (budget player w - spent w)" using unused_word [OF False] assms(1) by (simp add: of_nat_diff)
  then show ?thesis using assms(2) by (simp add: unat_of_nat take_bit_nat_eq_self)
qed

definition within_limits :: "WheelOwner \<Rightarrow> 'z PlayerWheel_scheme \<Rightarrow> bool" where
  "within_limits player w \<longleftrightarrow> wheel_ok w \<and> spent w \<le> budget player w \<and>
     list_all (\<lambda>s. getPointsBySlotType w s \<le> ucast (getMaxPointsPerSlot s)) enum_slots"

lemma check_save_within:
  assumes "within_limits player w" and "budget player w < 65536" and "pts \<le> ucast (getMaxPointsPerSlot s)"
  shows "within_limits player (snd (checkSavePointsBySlotType player s pts w)) \<and>
    budget player (snd (checkSavePointsBySlotType player s pts w)) = budget player w"
proof (cases "pts > 0 \<and> \<not> canPlayerSelectPointOnSlot player s False w")
  case True
  then show ?thesis using assms(1) by (simp add: checkSavePointsBySlotType_def)
next
  case False
  let ?w1 = "setPointsBySlotType (slot_value s) 0 w"
  let ?w2 = "setPointsBySlotType (slot_value s) pts ?w1"
  have ok: "wheel_ok w" using assms(1) by (simp add: within_limits_def)
  have s1: "spent ?w1 \<le> budget player w" using spent_set [OF ok, of s 0] assms(1) by (simp add: within_limits_def)
  have l1: "within_limits player ?w1" using s1 assms(1) by (simp add: within_limits_def get_set_points [OF ok] list_all_iff)
  show ?thesis
  proof (cases "pts > getUnusedPoints player ?w1")
    case True
    then show ?thesis using l1 unfolding checkSavePointsBySlotType_def if_not_P [OF False] by (simp add: Let_def)
  next
    case small: False
    then have "unat pts \<le> budget player w - spent ?w1" using unused_left [of ?w1 player] s1 assms(2) by (simp add: word_le_nat_alt not_less)
    then have "spent ?w2 \<le> budget player w" using spent_set [of ?w1 s pts] ok s1 get_set_points [OF ok, of s 0 s] by simp
    moreover have "\<forall>t \<in> set enum_slots. getPointsBySlotType ?w2 t \<le> ucast (getMaxPointsPerSlot t)"
      using assms(1,3) ok by (auto simp: within_limits_def get_set_points list_all_iff)
    ultimately have "within_limits player ?w2" using ok by (simp add: within_limits_def list_all_iff)
    then show ?thesis using small unfolding checkSavePointsBySlotType_def if_not_P [OF False] by (simp add: Let_def)
  qed
qed

lemma save_pass_within:
  assumes "within_limits player w" and "budget player w < 65536"
    and "list_all (\<lambda>d. points d \<le> ucast (getMaxPointsPerSlot (slot d))) table"
  shows "within_limits player (snd (save_pass player table w)) \<and> budget player (snd (save_pass player table w)) = budget player w \<and>
    set (fst (save_pass player table w)) \<subseteq> set table"
  using assms
proof (induction table arbitrary: w)
  case (Cons d table)
  let ?c = "checkSavePointsBySlotType player (slot d) (points d) w"
  have c: "within_limits player (snd ?c) \<and> budget player (snd ?c) = budget player w"
    using Cons.prems by (intro check_save_within) simp_all
  then show ?case using Cons.IH [of "snd ?c"] Cons.prems
    by (auto simp: case_prod_unfold Let_def)
qed simp

lemma save_table_within:
  assumes "within_limits player w" and "budget player w < 65536"
    and "list_all (\<lambda>d. points d \<le> ucast (getMaxPointsPerSlot (slot d))) table"
  shows "within_limits player (snd (save_table player table w))"
proof -
  have loop: "within_limits player (snd (((\<lambda>(retry, wheel). save_pass player retry wheel) ^^ n) r))"
    if "within_limits player (snd r)" "budget player (snd r) < 65536"
      "list_all (\<lambda>d. points d \<le> ucast (getMaxPointsPerSlot (slot d))) (fst r)" for n r
    using that
  proof (induction n arbitrary: r)
    case (Suc n)
    have "within_limits player (snd (((\<lambda>(retry, wheel). save_pass player retry wheel) ^^ n) (save_pass player (fst r) (snd r))))"
      using save_pass_within [OF Suc.prems] Suc.prems(2,3) by (intro Suc.IH) (auto simp: list_all_iff)
    then show ?case by (simp only: funpow_Suc_right comp_def case_prod_unfold)
  qed simp
  show ?thesis
    using save_pass_within [OF assms] loop [of "save_pass player table w" 6] assms(2,3)
    by (auto simp: save_table_def Let_def case_prod_unfold list_all_iff)
qed

section \<open>One picture of a quadrant\<close>

text \<open>
  The slots of each colour from the centre outwards, which places of a quadrant support each place, and the
  pairs of slots that touch across the border of two quadrants.
\<close>

definition slices :: "WheelSlots_t list list" where
  "slices =
    [[SLOT_GREEN_50, SLOT_GREEN_TOP_75, SLOT_GREEN_BOTTOM_75, SLOT_GREEN_TOP_100,
      SLOT_GREEN_MIDDLE_100, SLOT_GREEN_BOTTOM_100, SLOT_GREEN_TOP_150, SLOT_GREEN_BOTTOM_150, SLOT_GREEN_200],
     [SLOT_RED_50, SLOT_RED_TOP_75, SLOT_RED_BOTTOM_75, SLOT_RED_TOP_100,
      SLOT_RED_MIDDLE_100, SLOT_RED_BOTTOM_100, SLOT_RED_TOP_150, SLOT_RED_BOTTOM_150, SLOT_RED_200],
     [SLOT_PURPLE_50, SLOT_PURPLE_TOP_75, SLOT_PURPLE_BOTTOM_75, SLOT_PURPLE_TOP_100,
      SLOT_PURPLE_MIDDLE_100, SLOT_PURPLE_BOTTOM_100, SLOT_PURPLE_TOP_150, SLOT_PURPLE_BOTTOM_150, SLOT_PURPLE_200],
     [SLOT_BLUE_50, SLOT_BLUE_TOP_75, SLOT_BLUE_BOTTOM_75, SLOT_BLUE_TOP_100,
      SLOT_BLUE_MIDDLE_100, SLOT_BLUE_BOTTOM_100, SLOT_BLUE_TOP_150, SLOT_BLUE_BOTTOM_150, SLOT_BLUE_200]]"

definition place_supporters :: "nat list list" where
  "place_supporters = [[], [0, 2, 3, 4], [0, 1, 4, 5], [1, 4, 6], [1, 2, 3, 5], [2, 4, 7], [3, 4, 7], [4, 5, 6], [6, 7]]"

definition borders :: "(WheelSlots_t \<times> WheelSlots_t) list" where
  "borders =
    [(SLOT_GREEN_TOP_75, SLOT_RED_TOP_75), (SLOT_GREEN_TOP_100, SLOT_RED_TOP_100),
     (SLOT_RED_BOTTOM_75, SLOT_PURPLE_TOP_75), (SLOT_RED_BOTTOM_100, SLOT_PURPLE_TOP_100),
     (SLOT_PURPLE_BOTTOM_75, SLOT_BLUE_BOTTOM_75), (SLOT_PURPLE_BOTTOM_100, SLOT_BLUE_BOTTOM_100),
     (SLOT_BLUE_TOP_75, SLOT_GREEN_BOTTOM_75), (SLOT_BLUE_TOP_100, SLOT_GREEN_BOTTOM_100)]"

definition supporters :: "WheelSlots_t \<Rightarrow> WheelSlots_t list" where
  "supporters s =
     concat (map (\<lambda>slice. concat (map (\<lambda>i. if slice ! i = s then map ((!) slice) (place_supporters ! i) else []) [0..<9])) slices) @
     concat (map (\<lambda>(a, b). if a = s then [b] else if b = s then [a] else []) borders)"

text \<open>What the checks of the code amount to.\<close>

definition code_supporters :: "WheelSlots_t \<Rightarrow> WheelSlots_t list" where
  "code_supporters s = (if s = SLOT_GREEN_TOP_100 then removeAll SLOT_GREEN_TOP_150 (supporters s) else supporters s)"

definition required_points :: "WheelSlots_t \<Rightarrow> u16" where
  "required_points s = [0, 50, 125, 225, 375] ! nat (getSlotPrioritaryOrder s)"

text \<open>C33: The four blocks of nested conditions of \<open>canPlayerSelectPointOnSlot\<close> are one rule: enough points for the
  ring, and a place in the innermost ring or a full supporting slot in the picture of a quadrant, the same in all
  four colours but for one slot: \<open>SLOT_GREEN_TOP_100\<close>, where the condition on \<open>SLOT_GREEN_MIDDLE_100\<close> stands
  twice and the one on \<open>SLOT_GREEN_TOP_150\<close> is missing.\<close>

theorem quadrants_are_alike:
  "canPlayerSelectPointOnSlot player s recursive w \<longleftrightarrow>
     required_points s \<le> getWheelPoints player True w \<and>
     (getSlotPrioritaryOrder s = 0 \<or>
      list_ex (canSelectSlotFullOrPartial w)
        (if s = SLOT_GREEN_TOP_100 then removeAll SLOT_GREEN_TOP_150 (supporters s) else supporters s))"
  by (cases s; simp add: canPlayerSelectPointOnSlot_def green_quadrant_def red_quadrant_def purple_quadrant_def blue_quadrant_def
      required_points_def getSlotPrioritaryOrder_def supporters_def slices_def place_supporters_def borders_def upt_rec Let_def) blast+

lemma can_select_iff:
  "canPlayerSelectPointOnSlot player s recursive w \<longleftrightarrow>
     required_points s \<le> getWheelPoints player True w \<and>
     (getSlotPrioritaryOrder s = 0 \<or> list_ex (canSelectSlotFullOrPartial w) (code_supporters s))"
  by (cases s; simp add: canPlayerSelectPointOnSlot_def green_quadrant_def red_quadrant_def purple_quadrant_def blue_quadrant_def
      required_points_def getSlotPrioritaryOrder_def code_supporters_def supporters_def slices_def place_supporters_def borders_def
      upt_rec Let_def) blast+

section \<open>A wheel filled from scratch is connected\<close>








section \<open>Requests\<close>

lemma order_never_unknown: "getSlotPrioritaryOrder s \<noteq> - 1"
  by (cases s) (simp_all add: getSlotPrioritaryOrder_def)

lemma read_table_slots:
  "read_table slots msg = Some (Some table, msg') \<Longrightarrow>
     map slot table = slots \<and> list_all (\<lambda>d. points d \<le> ucast (getMaxPointsPerSlot (slot d))) table"
  by (induction slots msg arbitrary: table msg' rule: read_table.induct)
    (auto simp: order_never_unknown split: option.splits prod.splits if_splits)

lemma list_all_mset: "mset xs = mset ys \<Longrightarrow> list_all P xs = list_all P ys"
  using mset_eq_setD [of xs ys] by (simp add: list_all_iff)

text \<open>C30: Saving never overdraws the wheel: from a wheel within its limits (as many slots as there are, no slot above its
  maximum, no more points spent than the level, the scrolls and the finished gem grades give), any request, with whatever
  points and in whatever order the sort leaves them, leads to a wheel within its limits.\<close>

theorem saving_never_overdraws:
  assumes "within_limits player w" and "budget player w < 65536"
    and "\<And>table. mset (ranges_sort table) = mset table"
    and "save_slots ranges_sort player msg w = Some (go_on, msg', w')"
  shows "within_limits player w'"
proof (cases "oldProtocol player \<or> \<not> canOpenWheel player \<or> w' = w")
  case True
  then show ?thesis using assms(1,4) by (auto simp: save_slots_def)
next
  case False
  then obtain table where table: "read_table enum_slots msg = Some (Some table, msg')" "w' = snd (save_table player (ranges_sort table) w)"
    using assms(4) by (auto simp: save_slots_def split: option.splits)
  have "list_all (\<lambda>d. points d \<le> ucast (getMaxPointsPerSlot (slot d))) (ranges_sort table)"
    using read_table_slots [OF table(1)] list_all_mset [OF assms(3) [of table]] by blast
  then show ?thesis unfolding table(2) using save_table_within [OF assms(1,2)] by blast
qed

definition hero :: "u32 \<Rightarrow> WheelOwner" where
  "hero l = \<lparr>owner_level = l, has_vocation = True, isPremium = True, isPromoted = True, oldProtocol = False, hasMonkQuest = False\<rparr>"

definition wheel_of :: "(WheelSlots_t \<times> u16) list \<Rightarrow> PlayerWheel" where
  "wheel_of ps = \<lparr>m_pointsPerLevel = 1, m_wheelSlots = 0 # map (\<lambda>s. case map_of ps s of None \<Rightarrow> 0 | Some p \<Rightarrow> p) enum_slots,
     m_modsMaxGrade = 0, m_unlockedScrolls = []\<rparr>"

theorem saving_never_overdraws_witness:
  "pred_option (\<lambda>(go_on, msg, w). within_limits (hero 200) w)
     (save_slots (sort_key order) (hero 200) new_message (wheel_of [(SLOT_GREEN_50, 50), (SLOT_GREEN_TOP_75, 75)]))"
proof -
  let ?w = "wheel_of [(SLOT_GREEN_50, 50), (SLOT_GREEN_TOP_75, 75)]"
  have "within_limits (hero 200) ?w" by code_simp
  moreover have "budget (hero 200) ?w = 150" by code_simp
  then have "budget (hero 200) ?w < 65536" by simp
  ultimately show ?thesis     using saving_never_overdraws [of "hero 200" ?w "sort_key order" new_message]
    by (cases "save_slots (sort_key order) (hero 200) new_message ?w") auto
qed



text \<open>The table a request of \<open>p\<close> points per slot is read into.\<close>

definition requests :: "(WheelSlots_t \<Rightarrow> u16) \<Rightarrow> SlotInfo list" where
  "requests p = map (\<lambda>s. \<lparr>order = getSlotPrioritaryOrder s, slot = s, points = p s\<rparr>) enum_slots"

lemma read_table_requests:
  "read_table slots msg = Some (Some table, msg') \<Longrightarrow>
     table = map (\<lambda>d. \<lparr>order = getSlotPrioritaryOrder (slot d), slot = slot d, points = points d\<rparr>) table"
  by (induction slots msg arbitrary: table msg' rule: read_table.induct)
    (auto split: option.splits prod.splits if_splits)

lemma save_pass_orderly:
  fixes player :: WheelOwner and p :: "WheelSlots_t \<Rightarrow> u16" and w :: "'z PlayerWheel_scheme"
  assumes "wheel_ok w" and "\<And>s. getPointsBySlotType w s = (if s \<in> slot ` set table then 0 else p s)"
    and "\<And>d. d \<in> set table \<Longrightarrow> points d = p (slot d) \<and> order d = getSlotPrioritaryOrder (slot d)"
    and "sorted (map order table)" and "distinct (map slot table)"
    and "\<And>s. p s \<noteq> 0 \<Longrightarrow> required_points s \<le> getWheelPoints player True w \<and>
       (getSlotPrioritaryOrder s = 0 \<or>
        (\<exists>t \<in> set (code_supporters s). getSlotPrioritaryOrder t < getSlotPrioritaryOrder s \<and> p t = ucast (getMaxPointsPerSlot t)))"
    and "(\<Sum>s\<leftarrow>enum_slots. unat (p s)) \<le> budget player w" and "budget player w < 65536"
  shows "fst (save_pass player table w) = [] \<and> (\<forall>s. getPointsBySlotType (snd (save_pass player table w)) s = p s)"
  using assms
proof (induction table arbitrary: w)
  case (Cons d table)
  let ?s = "slot d"
  let ?w1 = "setPointsBySlotType (slot_value ?s) 0 w"
  let ?w2 = "setPointsBySlotType (slot_value ?s) (p ?s) ?w1"
  note ok = Cons.prems(1)
  have get2: "getPointsBySlotType ?w2 t = (if t \<in> slot ` set table then 0 else p t)" for t
    using Cons.prems(2) [of t] Cons.prems(5) ok by (auto simp: get_set_points)
  have "getPointsBySlotType w ?s = 0" using Cons.prems(2) [of ?s] by simp
  then have sp: "spent ?w1 = spent w" "spent ?w2 = spent w + unat (p ?s)"
    using spent_set [OF ok, of ?s 0] spent_set [of ?w1 ?s "p ?s"] ok get_set_points [OF ok, of ?s 0 ?s] by simp_all
  have "spent ?w2 \<le> (\<Sum>s\<leftarrow>enum_slots. unat (p s))" unfolding spent_def by (rule sum_list_mono) (simp add: get2)
  then have "spent w + unat (p ?s) \<le> budget player w" using sp Cons.prems(7) by simp
  then have "unat (getUnusedPoints player ?w1) = budget player w - spent w" "unat (p ?s) \<le> budget player w - spent w"
    using unused_left [of ?w1 player] sp(1) Cons.prems(8) by simp_all
  then have enough: "\<not> p ?s > getUnusedPoints player ?w1" by (simp add: word_less_nat_alt)
  have sel: "\<not> (p ?s > 0 \<and> \<not> canPlayerSelectPointOnSlot player ?s False w)"
  proof (cases "p ?s = 0 \<or> getSlotPrioritaryOrder ?s = 0")
    case True
    then show ?thesis using Cons.prems(6) [of ?s] can_select_iff [of player ?s False w] by auto
  next
    case False
    then obtain t where t: "t \<in> set (code_supporters ?s)" "getSlotPrioritaryOrder t < getSlotPrioritaryOrder ?s"
      "p t = ucast (getMaxPointsPerSlot t)" using Cons.prems(6) [of ?s] by auto
    have "t \<notin> slot ` set (d # table)"
    proof
      assume "t \<in> slot ` set (d # table)"
      then obtain e where e: "e \<in> set (d # table)" "t = slot e" by blast
      then have "order d \<le> order e" using Cons.prems(4) by auto
      then show False using t(2) e Cons.prems(3) [of d] Cons.prems(3) [of e] by simp
    qed
    then have "canSelectSlotFullOrPartial w t" using Cons.prems(2) [of t] t(3) by (simp add: canSelectSlotFullOrPartial_def)
    then show ?thesis using t(1) False Cons.prems(6) [of ?s] can_select_iff [of player ?s False w] by (auto simp: list_ex_iff)
  qed
  have c: "checkSavePointsBySlotType player ?s (points d) w = (True, ?w2)"
    using enough Cons.prems(3) [of d] sel unfolding checkSavePointsBySlotType_def by (simp add: Let_def)
  have "fst (save_pass player table ?w2) = [] \<and> (\<forall>s. getPointsBySlotType (snd (save_pass player table ?w2)) s = p s)"
    using Cons.prems get2 by (intro Cons.IH) simp_all
  then show ?case by (simp add: c case_prod_unfold Let_def)
qed simp

text \<open>C32: An orderly build is stored as it was requested: with an empty wheel, when every slot that is to get points is in the
  innermost ring or next to a slot of an inner ring that is to be full, the ring's level is reached and there are points for
  all, every slot gets its points and nothing is left to be tried again, whatever order the sort gives to equal rings.\<close>

theorem orderly_build_is_stored:
  fixes w :: "'z PlayerWheel_scheme"
  assumes "wheel_ok w" and "list_all (\<lambda>s. getPointsBySlotType w s = 0) enum_slots"
    and "list_all (\<lambda>s. p s = 0 \<or> required_points s \<le> getWheelPoints player True w \<and>
      (getSlotPrioritaryOrder s = 0 \<or>
       list_ex (\<lambda>t. getSlotPrioritaryOrder t < getSlotPrioritaryOrder s \<and> p t = ucast (getMaxPointsPerSlot t)) (code_supporters s))) enum_slots"
    and "(\<Sum>s\<leftarrow>enum_slots. unat (p s)) \<le> budget player w" and "budget player w < 65536"
    and "mset (ranges_sort (requests p)) = mset (requests p)" and "sorted (map order (ranges_sort (requests p)))"
  defines "r \<equiv> save_table player (ranges_sort (requests p)) w"
  shows "fst r = [] \<and> map (getPointsBySlotType (snd r)) enum_slots = map p enum_slots"
proof -
  let ?t = "ranges_sort (requests p)"
  have st: "set ?t = set (requests p)" using assms(6) by (rule mset_eq_setD)
  have slots: "slot ` set ?t = UNIV" using enum_slots_all unfolding st by (auto simp: requests_def image_image)
  have "mset (map slot ?t) = mset (map slot (requests p))" using assms(6) by (simp only: mset_map)
  also have "map slot (requests p) = enum_slots" by (simp add: requests_def comp_def)
  finally have "distinct (map slot ?t)" using enum_slots_distinct mset_eq_imp_distinct_iff by blast
  moreover have "points d = p (slot d) \<and> order d = getSlotPrioritaryOrder (slot d)" if "d \<in> set ?t" for d
    using that unfolding st by (auto simp: requests_def)
  moreover have "getPointsBySlotType w s = (if s \<in> slot ` set ?t then 0 else p s)" for s
    using assms(2) enum_slots_all [of s] by (simp add: slots list_all_iff)
  moreover have "required_points s \<le> getWheelPoints player True w \<and> (getSlotPrioritaryOrder s = 0 \<or>
      (\<exists>t \<in> set (code_supporters s). getSlotPrioritaryOrder t < getSlotPrioritaryOrder s \<and> p t = ucast (getMaxPointsPerSlot t)))"
    if "p s \<noteq> 0" for s using that assms(3) enum_slots_all [of s] by (auto simp: list_all_iff list_ex_iff)
  ultimately have "fst (save_pass player ?t w) = [] \<and> (\<forall>s. getPointsBySlotType (snd (save_pass player ?t w)) s = p s)"
    using assms(1,4,5,7) by (intro save_pass_orderly)
  then show ?thesis by (simp add: r_def save_table_def Let_def case_prod_unfold)
qed

definition small_build :: "WheelSlots_t \<Rightarrow> u16" where
  "small_build s = (if s = SLOT_GREEN_50 then 50 else if s = SLOT_GREEN_TOP_75 then 75 else if s = SLOT_GREEN_TOP_100 then 20 else 0)"

theorem orderly_build_is_stored_witness:
  "fst (save_table (hero 250) (sort_key order (requests small_build)) (wheel_of [])) = [] \<and>
   map (getPointsBySlotType (snd (save_table (hero 250) (sort_key order (requests small_build)) (wheel_of [])))) enum_slots =
     map small_build enum_slots"
proof (rule orderly_build_is_stored)
  show "wheel_ok (wheel_of [])" "list_all (\<lambda>s. getPointsBySlotType (wheel_of []) s = 0) enum_slots" by code_simp+
  show "list_all (\<lambda>s. small_build s = 0 \<or> required_points s \<le> getWheelPoints (hero 250) True (wheel_of []) \<and>
      (getSlotPrioritaryOrder s = 0 \<or>
       list_ex (\<lambda>t. getSlotPrioritaryOrder t < getSlotPrioritaryOrder s \<and> small_build t = ucast (getMaxPointsPerSlot t)) (code_supporters s))) enum_slots"
    by code_simp
  have b: "budget (hero 250) (wheel_of []) = 200" by code_simp
  show "budget (hero 250) (wheel_of []) < 65536" by (simp add: b)
  have "(\<Sum>s\<leftarrow>enum_slots. unat (small_build s)) = 145" by code_simp
  then show "(\<Sum>s\<leftarrow>enum_slots. unat (small_build s)) \<le> budget (hero 250) (wheel_of [])" by (simp add: b)
qed simp_all

section \<open>What the checks let through, and what they refuse\<close>



text \<open>An overdrawn wheel accepts anything: when the points in the other slots exceed what the player has (a level was lost
  after they were spent), the subtraction of 16-bit words wraps around, and any points are accepted for any slot
  that may be selected.\<close>

theorem overdrawn_wheel_accepts:
  assumes "wheel_ok w" and "getWheelPoints player True w \<noteq> 0"
    and "budget player w + unat (getPointsBySlotType w s) < spent w" and "spent w \<le> 60000" and "budget player w < 65536"
    and "canPlayerSelectPointOnSlot player s False w" and "unat pts \<le> 5000"
  shows "fst (checkSavePointsBySlotType player s pts w) \<and> getPointsBySlotType (snd (checkSavePointsBySlotType player s pts w)) s = pts"
proof -
  let ?w1 = "setPointsBySlotType (slot_value s) 0 w"
  have s1: "spent ?w1 + unat (getPointsBySlotType w s) = spent w" using spent_set [OF assms(1), of s 0] by simp
  let ?k = "spent ?w1 - budget player w"
  have k: "0 < ?k" "?k \<le> 60000" using s1 assms(3,4) by simp_all
  have "getUnusedPoints player ?w1 = - of_nat ?k" using unused_word [of player ?w1] assms(2,3) s1 by (simp add: of_nat_diff)
  also have "\<dots> = of_nat (65536 - ?k)" using k(2) by (simp add: of_nat_diff)
  finally have "unat (getUnusedPoints player ?w1) = 65536 - ?k" using k(1) by (simp add: unat_of_nat take_bit_nat_eq_self)
  then have "unat (getUnusedPoints player ?w1) \<ge> 5000" using k(2) by simp
  then have "\<not> pts > getUnusedPoints player ?w1" using assms(7) by (simp add: word_less_nat_alt)
  then show ?thesis using assms(1,6) by (simp add: checkSavePointsBySlotType_def Let_def get_set_points)
qed

theorem overdrawn_wheel_accepts_witness:
  "fst (checkSavePointsBySlotType (hero 148) SLOT_GREEN_50 50 (wheel_of [(SLOT_RED_50, 50), (SLOT_BLUE_50, 49)])) \<and>
   getPointsBySlotType (snd (checkSavePointsBySlotType (hero 148) SLOT_GREEN_50 50 (wheel_of [(SLOT_RED_50, 50), (SLOT_BLUE_50, 49)])))
     SLOT_GREEN_50 = 50"
proof (rule overdrawn_wheel_accepts)
  let ?w = "wheel_of [(SLOT_RED_50, 50), (SLOT_BLUE_50, 49)]"
  have b: "budget (hero 148) ?w = 98" "spent ?w = 99" "getPointsBySlotType ?w SLOT_GREEN_50 = 0" by code_simp+
  show "wheel_ok ?w" "getWheelPoints (hero 148) True ?w \<noteq> 0" "canPlayerSelectPointOnSlot (hero 148) SLOT_GREEN_50 False ?w" by code_simp+
  show "budget (hero 148) ?w + unat (getPointsBySlotType ?w SLOT_GREEN_50) < spent ?w" "spent ?w \<le> 60000" "budget (hero 148) ?w < 65536"
    by (simp_all add: b)
qed simp

definition spiral :: "WheelSlots_t list" where
  "spiral =
     [SLOT_PURPLE_50, SLOT_PURPLE_TOP_75, SLOT_PURPLE_TOP_100, SLOT_PURPLE_TOP_150, SLOT_PURPLE_BOTTOM_150, SLOT_PURPLE_BOTTOM_100,
      SLOT_BLUE_BOTTOM_100, SLOT_BLUE_BOTTOM_150, SLOT_BLUE_TOP_150, SLOT_BLUE_TOP_100, SLOT_GREEN_BOTTOM_100,
      SLOT_GREEN_MIDDLE_100, SLOT_GREEN_TOP_100, SLOT_RED_TOP_100, SLOT_RED_TOP_75]"

text \<open>A valid build can be refused: the seven passes over the sorted table are not enough for a chain of full slots that goes
  back and forth between the rings.  Slot by slot along the chain an empty wheel takes all of it; sorted by rings,
  the last three slots are left over.\<close>

theorem valid_build_is_refused:
  "let p = (\<lambda>s. if s \<in> set spiral then ucast (getMaxPointsPerSlot s) else 0);
       along_the_chain = map (\<lambda>s. \<lparr>order = getSlotPrioritaryOrder s, slot = s, points = p s\<rparr>) spiral
   in fst (save_table (hero 1700) along_the_chain (wheel_of [])) = [] \<and>
      map slot (fst (save_table (hero 1700) (sort_key order (requests p)) (wheel_of []))) = [SLOT_RED_TOP_75, SLOT_GREEN_TOP_100, SLOT_RED_TOP_100]"
  unfolding Let_def by (rule conjI; code_simp)

section \<open>The database keeps the slots\<close>

lemma load_slots_nil: "load_slots n [] w = w"
  by (induction n) (simp_all add: ps_read_def)

lemma load_slots_rows:
  assumes "list_all (\<lambda>i. i < 256) js"
  shows "load_slots (length js + k) (concat (map (\<lambda>i. bytes_of (of_nat i :: u8) @ bytes_of (f i :: u16)) js)) w =
    foldl (\<lambda>w i. setPointsBySlotType i (f i) w) w js"
  using assms
proof (induction js arbitrary: w)
  case (Cons i js)
  then have "unat (of_nat i :: u8) = i" by (simp add: unat_of_nat take_bit_nat_eq_self)
  then show ?case using Cons by (simp add: ps_read_byte ps_read_words)
qed (simp add: load_slots_nil)

lemma fold_set_points:
  assumes "wheel_ok w"
  shows "wheel_ok (foldl (\<lambda>w i. setPointsBySlotType i (f i) w) w js) \<and>
    (\<forall>j < 37. m_wheelSlots (foldl (\<lambda>w i. setPointsBySlotType i (f i) w) w js) ! j = (if j \<in> set js then f j else m_wheelSlots w ! j))"
  using assms
proof (induction js arbitrary: w)
  case (Cons i js)
  then show ?case using Cons.IH [of "setPointsBySlotType i (f i) w"] by (auto simp: setPointsBySlotType_def nth_list_update)
qed simp

text \<open>The database keeps the slots: what is saved at logout is loaded at login; only the unused element at index 0 stays
  as it is in the new wheel.\<close>

theorem saved_slots_are_loaded:
  assumes "wheel_ok w" and "wheel_ok v"
  shows "map (getPointsBySlotType (loadDBPlayerSlotPointsOnLogin (saveDBPlayerSlotPointsOnLogout w) v)) enum_slots =
    map (getPointsBySlotType w) enum_slots"
proof -
  let ?blob = "saveDBPlayerSlotPointsOnLogout w" and ?f = "\<lambda>i. m_wheelSlots w ! i"
  have blob: "?blob = concat (map (\<lambda>i. bytes_of (of_nat i :: u8) @ bytes_of (?f i)) [1..<37])"
    by (simp add: saveDBPlayerSlotPointsOnLogout_def assms(1))
  have "length ?blob = length [1..<37] + 72" unfolding blob by (simp add: length_concat comp_def sum_list_triv sizeof_def)
  then have "loadDBPlayerSlotPointsOnLogin ?blob v = foldl (\<lambda>w i. setPointsBySlotType i (?f i) w) v [1..<37]"
    unfolding loadDBPlayerSlotPointsOnLogin_def using load_slots_rows [of "[1..<37]" 72 ?f v] by (simp only: blob) (simp add: list_all_iff)
  then have "getPointsBySlotType (loadDBPlayerSlotPointsOnLogin ?blob v) s = getPointsBySlotType w s" for s
    using fold_set_points [OF assms(2), of ?f "[1..<37]"] slot_value_bounds [of s] assms(1) by (simp add: getPointsBySlotType_def)
  then show ?thesis by simp
qed

theorem saved_slots_are_loaded_witness:
  "map (getPointsBySlotType (loadDBPlayerSlotPointsOnLogin (saveDBPlayerSlotPointsOnLogout (wheel_of [(SLOT_RED_50, 7)])) (wheel_of []))) enum_slots =
    map (getPointsBySlotType (wheel_of [(SLOT_RED_50, 7)])) enum_slots"
proof (rule saved_slots_are_loaded)
  show "wheel_ok (wheel_of [(SLOT_RED_50, 7)])" "wheel_ok (wheel_of [])" by code_simp+
qed

end
