(* ===== verification/Wheel_Gems.thy ===== *)
theory Wheel_Gems
  imports Wheel_Slots Value_Wrapper Money
begin

text \<open>
  The gems of the wheel of destiny: \<open>getGemGrade\<close> to \<open>removeActiveGem\<close>, \<open>improveGemGrade\<close>, the vessels of
  \<open>saveSlotPointsOnPressSaveButton\<close> and the loading and saving of gems and grades in
  \<^verbatim>\<open>src/creatures/players/wheel/player_wheel.cpp\<close>, and the handler \<open>playerWheelGemAction\<close> of
  \<^verbatim>\<open>src/game/game.cpp\<close>.  Qualities, affinities, fragments and modifiers are the numbers of their
  enumerations.  An index outside of a \<^verbatim>\<open>std::array\<close> is undefined behaviour, the value \<open>None\<close>.  The random draws
  and the new identifier are arguments, and so are prices, the vocation's gems, where added items go, and
  what the game refuses to remove.  Each scope of the key-value store is a map (\<open>KV_Store\<close>).
  The bonuses the gems give are left out.
\<close>

section \<open>Gems, wheels and their owners\<close>

record PlayerWheelGem =
  gem_uuid :: string
  gem_locked :: bool
  gem_affinity :: u8
  gem_quality :: u8
  basicModifier1 :: u8
  basicModifier2 :: u8
  supremeModifier :: u8

definition emptyGem :: PlayerWheelGem where
  "emptyGem = \<lparr>gem_uuid = [], gem_locked = False, gem_affinity = 0, gem_quality = 0,
     basicModifier1 = 0, basicModifier2 = 0, supremeModifier = 0\<rparr>"

definition is_gem :: "PlayerWheelGem \<Rightarrow> bool" where
  "is_gem gem \<longleftrightarrow> gem_uuid gem \<noteq> []"

record GemWheel = PlayerWheel +
  m_activeGems :: "PlayerWheelGem list"
  m_revealedGems :: "PlayerWheelGem list"
  m_destroyedGems :: "PlayerWheelGem list"
  m_basicGrades :: "u8 list"
  m_supremeGrades :: "u8 list"

definition enum_affinity :: "u8 list" where
  "enum_affinity = [0, 1, 2, 3]"

text \<open>The owner: what is carried, the bank balance, the stash and the end of the exhaustion.\<close>

record GemOwner =
  carried :: "thing list"
  bankBalance :: u64
  stashItems :: "(u16 \<times> u32) list"
  nextExAction :: int

record GemGame =
  refuses :: "nat \<Rightarrow> bool"
  place_coins :: "coins \<Rightarrow> thing list \<Rightarrow> thing list"
  place_item :: "u16 \<Rightarrow> u8 \<Rightarrow> thing list \<Rightarrow> thing list option"
  wheelGemId :: "u8 \<Rightarrow> u16"
  containerDepth :: nat
  supremeGemModifiers :: "u8 list"
  rotateCosts :: "u64 \<times> u64 \<times> u64"
  revealCosts :: "u64 \<times> u64 \<times> u64"
  actionsDelay :: int

definition ITEM_LESSER_FRAGMENT :: u16 where "ITEM_LESSER_FRAGMENT = 46625"
definition ITEM_GREATER_FRAGMENT :: u16 where "ITEM_GREATER_FRAGMENT = 46626"

section \<open>Items of the owner\<close>

text \<open>\<^verbatim>\<open>ContainerIterator\<close> goes into a container right after it has passed it, down to a number of levels.\<close>

fun iterate_container :: "nat \<Rightarrow> thing \<Rightarrow> pile list" where
  "iterate_container maxDepth (Pile obj i cnt) = [(obj, i, cnt)]"
| "iterate_container maxDepth (Bag obj items) =
     (if maxDepth = 0 then [] else concat (map (iterate_container (maxDepth - 1)) items))"

definition getAllInventoryItems :: "nat \<Rightarrow> thing list \<Rightarrow> pile list" where
  "getAllInventoryItems maxDepth inventory = concat (map (iterate_container (max 1 maxDepth)) inventory)"

definition hasItemCountById :: "nat \<Rightarrow> u16 \<Rightarrow> u32 \<Rightarrow> bool \<Rightarrow> 'o GemOwner_scheme \<Rightarrow> bool" where
  "hasItemCountById maxDepth itemId itemAmount checkStash player \<longleftrightarrow>
     (let newCount = foldl (\<lambda>n p. if fst (snd p) \<noteq> itemId then n else n + ucast (snd (snd p))) 0 (getAllInventoryItems maxDepth (carried player));
          newCount' = (if checkStash then foldl (\<lambda>n (i, c). if i = itemId then n + c else n) newCount (stashItems player) else newCount)
      in newCount' \<ge> itemAmount)"

definition withdrawItem :: "u16 \<Rightarrow> u32 \<Rightarrow> 'o GemOwner_scheme \<Rightarrow> bool \<times> 'o GemOwner_scheme" where
  "withdrawItem itemId amount player =
     (case map_of (stashItems player) itemId of
        None \<Rightarrow> (False, player)
      | Some c \<Rightarrow>
          if c > amount then (True, player\<lparr>stashItems := AList.update itemId (c - amount) (stashItems player)\<rparr>)
          else if c = amount then (True, player\<lparr>stashItems := AList.delete itemId (stashItems player)\<rparr>)
          else (False, player))"

text \<open>The loop over the inventory: whether the amount was reached, what is missing, and what is left.\<close>

fun remove_piles :: "(nat \<Rightarrow> bool) \<Rightarrow> u16 \<Rightarrow> pile list \<Rightarrow> u32 \<Rightarrow> thing list \<Rightarrow> bool \<times> u32 \<times> thing list" where
  "remove_piles ref itemId [] amountToRemove inven = (False, amountToRemove, inven)"
| "remove_piles ref itemId ((obj, i, cnt) # ps) amountToRemove inven =
     (if i \<noteq> itemId then remove_piles ref itemId ps amountToRemove inven
      else if ucast cnt \<ge> amountToRemove then (True, 0, internalRemoveItem ref obj (unat amountToRemove) inven)
      else remove_piles ref itemId ps (amountToRemove - ucast cnt) (internalRemoveItem ref obj (unat cnt) inven))"

definition removeItemCountById :: "(nat \<Rightarrow> bool) \<Rightarrow> nat \<Rightarrow> u16 \<Rightarrow> u32 \<Rightarrow> bool \<Rightarrow> 'o GemOwner_scheme \<Rightarrow> bool \<times> 'o GemOwner_scheme" where
  "removeItemCountById ref maxDepth itemId itemAmount removeFromStash player =
     (if \<not> hasItemCountById maxDepth itemId itemAmount removeFromStash player then (False, player)
      else
        let (enough, rest, inven) = remove_piles ref itemId (getAllInventoryItems maxDepth (carried player)) itemAmount (carried player);
            player1 = player\<lparr>carried := inven\<rparr>
        in if enough then (True, player1)
           else if removeFromStash \<and> rest > 0 then withdrawItem itemId rest player1
           else (False, player1))"

definition pay_gold :: "'g GemGame_scheme \<Rightarrow> u64 \<Rightarrow> 'o GemOwner_scheme \<Rightarrow> bool \<times> 'o GemOwner_scheme" where
  "pay_gold game cost player =
     (let r = removeMoney (refuses game) (carried player) (bankBalance player) True cost;
          inven = (if pay_change r = [] then pay_inventory r else place_coins game (pay_change r) (pay_inventory r))
      in (paid r, player\<lparr>carried := inven, bankBalance := pay_balance r\<rparr>))"

definition canDoExAction :: "int \<Rightarrow> 'o GemOwner_scheme \<Rightarrow> bool" where
  "canDoExAction now player \<longleftrightarrow> nextExAction player \<le> now"

definition setNextExAction :: "int \<Rightarrow> 'o GemOwner_scheme \<Rightarrow> 'o GemOwner_scheme" where
  "setNextExAction time player = (if time > nextExAction player then player\<lparr>nextExAction := time\<rparr> else player)"

section \<open>Tables\<close>

definition wheelGemBasicSlot1Allowed :: "u8 list" where
  "wheelGemBasicSlot1Allowed =
    [3, 5, 6, 4, 30, 31, 37, 48, 38, 41, 39, 40, 33, 34, 35, 36, 44, 45, 46, 47]"

definition wheelGemBasicSlot2Allowed :: "u8 list" where
  "wheelGemBasicSlot2Allowed =
    [3, 5, 6, 4, 0, 1, 7, 8, 9, 10, 11, 12, 13, 14, 15, 16, 17, 18, 19, 20,
     21, 22, 23, 24, 25, 26, 27, 28, 29, 30]"

definition modsBasicPosition :: "u8 list" where
  "modsBasicPosition =
    [0, 1, 2, 3, 4, 5, 6, 7, 8, 9, 10, 11, 12, 13, 14, 15, 16, 17, 18, 19,
     20, 21, 22, 23, 24, 25, 26, 27, 28, 29, 30, 31, 33, 34, 35, 36, 37, 38, 39, 40,
     41, 44, 45, 46, 47, 48]"

definition modsSupremeSorcererPosition :: "u8 list" where
  "modsSupremeSorcererPosition =
    [0, 1, 2, 3, 4, 5, 42, 43, 44, 45, 46, 47, 48, 49, 50, 51, 52, 53, 54, 55,
     56, 57, 58]"

definition modsSupremeDruidPosition :: "u8 list" where
  "modsSupremeDruidPosition =
    [0, 1, 2, 3, 4, 5, 59, 60, 61, 62, 63, 64, 66, 65, 67, 68, 69, 70, 71, 72,
     73, 74, 75]"

definition modsSupremePaladinPosition :: "u8 list" where
  "modsSupremePaladinPosition =
    [0, 1, 2, 3, 5, 24, 25, 26, 27, 28, 29, 30, 31, 32, 33, 34, 35, 36, 37, 38,
     39, 40, 41]"

definition modsSupremeKnightPosition :: "u8 list" where
  "modsSupremeKnightPosition =
    [0, 1, 2, 3, 5, 6, 7, 8, 9, 10, 11, 12, 13, 15, 14, 16, 17, 19, 18, 20,
     21, 22, 23]"

definition modsSupremeMonkPosition :: "u8 list" where
  "modsSupremeMonkPosition =
    [0, 1, 2, 3, 5, 76, 77, 78, 79, 80, 81, 82, 83, 84, 85, 86, 87, 88, 89, 90,
     91, 92, 93]"

definition modsSupremePositionByVocation :: "u8 \<Rightarrow> u8 list option" where
  "modsSupremePositionByVocation = map_of
     [(1, modsSupremeSorcererPosition), (2, modsSupremeDruidPosition), (3, modsSupremePaladinPosition),
      (4, modsSupremeKnightPosition), (5, modsSupremeMonkPosition)]"

section \<open>Single gems\<close>

definition by_quality :: "u64 \<times> u64 \<times> u64 \<Rightarrow> u8 \<Rightarrow> u64" where
  "by_quality costs quality =
     (case costs of (c0, c1, c2) \<Rightarrow>
        if quality = 0 then c0 else if quality = 1 then c1 else if quality = 2 then c2 else 0)"

definition getGemRotateCost :: "'g GemGame_scheme \<Rightarrow> u8 \<Rightarrow> u64" where
  "getGemRotateCost game quality = by_quality (rotateCosts game) quality"

definition getGemRevealCost :: "'g GemGame_scheme \<Rightarrow> u8 \<Rightarrow> u64" where
  "getGemRevealCost game quality = by_quality (revealCosts game) quality"

definition getActiveGems :: "'z GemWheel_scheme \<Rightarrow> PlayerWheelGem list" where
  "getActiveGems wheel = filter is_gem (map (\<lambda>affinity. m_activeGems wheel ! unat affinity) enum_affinity)"

definition getGem :: "u16 \<Rightarrow> 'z GemWheel_scheme \<Rightarrow> PlayerWheelGem" where
  "getGem index wheel =
     (if length (m_revealedGems wheel) \<le> unat index then emptyGem else m_revealedGems wheel ! unat index)"

definition getGem_uuid :: "string \<Rightarrow> 'z GemWheel_scheme \<Rightarrow> PlayerWheelGem" where
  "getGem_uuid uuid wheel = (case find (\<lambda>gem. gem_uuid gem = uuid) (m_revealedGems wheel) of Some gem \<Rightarrow> gem | None \<Rightarrow> emptyGem)"

fun index_of_uuid :: "nat \<Rightarrow> string \<Rightarrow> PlayerWheelGem list \<Rightarrow> u16" where
  "index_of_uuid i uuid [] = 0xFF"
| "index_of_uuid i uuid (gem # gems) = (if gem_uuid gem = uuid then of_nat i else index_of_uuid (Suc i) uuid gems)"

definition getGemIndex :: "string \<Rightarrow> 'z GemWheel_scheme \<Rightarrow> u16" where
  "getGemIndex uuid wheel = index_of_uuid 0 uuid (m_revealedGems wheel)"

definition convertWheelGemAffinityToDomain :: "u8 \<Rightarrow> u8" where
  "convertWheelGemAffinityToDomain affinity =
     (if affinity = 0 then 1 else if affinity = 1 then 3 else if affinity = 2 then 0 else if affinity = 3 then 2 else 0)"

text \<open>The value \<^verbatim>\<open>uniform_random\<close> takes for a draw.\<close>

definition uniform_random :: "nat \<Rightarrow> nat \<Rightarrow> nat \<Rightarrow> nat" where
  "uniform_random lo hi draw = lo + draw mod (hi - lo + 1)"

definition pick :: "'a list \<Rightarrow> nat \<Rightarrow> 'a" where
  "pick xs draw = xs ! uniform_random 0 (length xs - 1) draw"

text \<open>The loop draws until the second modifier differs from the first.\<close>

fun selectBasicModifier2 :: "u8 \<Rightarrow> nat list \<Rightarrow> (u8 \<times> nat list) option" where
  "selectBasicModifier2 modifier1 [] = None"
| "selectBasicModifier2 modifier1 (draw # draws) =
     (let modifier = pick wheelGemBasicSlot2Allowed draw
      in if modifier \<noteq> modifier1 then Some (modifier, draws) else selectBasicModifier2 modifier1 draws)"

fun draw_gem :: "u8 list \<Rightarrow> string \<Rightarrow> u8 \<Rightarrow> nat list \<Rightarrow> PlayerWheelGem option" where
  "draw_gem supremeModifiers uuid quality (d1 # d2 # draws) =
     (let modifier1 = pick wheelGemBasicSlot1Allowed d2;
          gem = \<lparr>gem_uuid = uuid, gem_locked = False, gem_affinity = of_nat (uniform_random 0 3 d1), gem_quality = quality,
            basicModifier1 = modifier1, basicModifier2 = 0, supremeModifier = 0\<rparr>
      in if quality < 1 then Some gem
         else case selectBasicModifier2 modifier1 draws of
            None \<Rightarrow> None
          | Some (modifier2, rest) \<Rightarrow>
              let gem2 = gem\<lparr>basicModifier2 := modifier2\<rparr>
              in if quality \<ge> 2 \<and> supremeModifiers \<noteq> [] then
                   (case rest of [] \<Rightarrow> None | d # _ \<Rightarrow> Some (gem2\<lparr>supremeModifier := pick supremeModifiers d\<rparr>))
                 else Some gem2)"
| "draw_gem supremeModifiers uuid quality _ = None"

section \<open>Actions on gems\<close>

definition revealGem ::
  "(PlayerWheelGem list \<Rightarrow> PlayerWheelGem list) \<Rightarrow> 'g GemGame_scheme \<Rightarrow> string \<Rightarrow> nat list \<Rightarrow> u8 \<Rightarrow>
   'o GemOwner_scheme \<times> 'z GemWheel_scheme \<Rightarrow> ('o GemOwner_scheme \<times> 'z GemWheel_scheme) option" where
  "revealGem ranges_sort game uuid draws quality state =
     (case state of (player, wheel) \<Rightarrow>
        let gemId = wheelGemId game quality in
        if gemId = 0 then Some (player, wheel)
        else if \<not> hasItemCountById (containerDepth game) gemId 1 False player then Some (player, wheel)
        else
          let (ok, player1) = pay_gold game (getGemRevealCost game quality) player in
          if \<not> ok then Some (player1, wheel)
          else
            let (ok, player2) = removeItemCountById (refuses game) (containerDepth game) gemId 1 False player1 in
            if \<not> ok then Some (player2, wheel)
            else
              case draw_gem (supremeGemModifiers game) uuid quality draws of
                None \<Rightarrow> None
              | Some gem \<Rightarrow> Some (player2, wheel\<lparr>m_revealedGems := ranges_sort (m_revealedGems wheel @ [gem])\<rparr>))"

definition destroyGem ::
  "'g GemGame_scheme \<Rightarrow> nat \<Rightarrow> u16 \<Rightarrow> 'o GemOwner_scheme \<times> 'z GemWheel_scheme \<Rightarrow> 'o GemOwner_scheme \<times> 'z GemWheel_scheme" where
  "destroyGem game draw index state =
     (case state of (player, wheel) \<Rightarrow>
        let gem = getGem index wheel in
        if \<not> is_gem gem then (player, wheel)
        else if gem_locked gem then (player, wheel)
        else
          let lesserFragments = of_nat (if gem_quality gem = 0 then uniform_random 1 5 draw
                else if gem_quality gem = 1 then uniform_random 2 10 draw else 0) :: u8;
              greaterFragments = of_nat (if gem_quality gem = 2 then uniform_random 1 5 draw else 0) :: u8
          in case (if lesserFragments > 0 then place_item game ITEM_LESSER_FRAGMENT lesserFragments (carried player)
                   else Some (carried player)) of
               None \<Rightarrow> (player, wheel)
             | Some inven1 \<Rightarrow>
                 (case (if greaterFragments > 0 then place_item game ITEM_GREATER_FRAGMENT greaterFragments inven1 else Some inven1) of
                    None \<Rightarrow> (player\<lparr>carried := inven1\<rparr>, wheel)
                  | Some inven2 \<Rightarrow>
                      (player\<lparr>carried := inven2\<rparr>,
                       wheel\<lparr>m_destroyedGems := m_destroyedGems wheel @ [gem],
                         m_revealedGems := take (unat index) (m_revealedGems wheel) @ drop (Suc (unat index)) (m_revealedGems wheel)\<rparr>)))"

definition switchGemDomain ::
  "'g GemGame_scheme \<Rightarrow> u16 \<Rightarrow> 'o GemOwner_scheme \<times> 'z GemWheel_scheme \<Rightarrow> 'o GemOwner_scheme \<times> 'z GemWheel_scheme" where
  "switchGemDomain game index state =
     (case state of (player, wheel) \<Rightarrow>
        let gem = getGem index wheel in
        if \<not> is_gem gem then (player, wheel)
        else if gem_locked gem then (player, wheel)
        else
          let (ok, player1) = pay_gold game (getGemRotateCost game (gem_quality gem)) player in
          if \<not> ok then (player1, wheel)
          else (player1, wheel\<lparr>m_revealedGems := (m_revealedGems wheel)
                 [unat index := gem\<lparr>gem_affinity := convertWheelGemAffinityToDomain (gem_affinity gem)\<rparr>]\<rparr>))"

definition toggleGemLock :: "u16 \<Rightarrow> 'z GemWheel_scheme \<Rightarrow> 'z GemWheel_scheme" where
  "toggleGemLock index wheel =
     (let gem = getGem index wheel in
      if \<not> is_gem gem then wheel
      else wheel\<lparr>m_revealedGems := (m_revealedGems wheel)[unat index := gem\<lparr>gem_locked := \<not> gem_locked gem\<rparr>]\<rparr>)"

definition setActiveGem :: "u8 \<Rightarrow> u16 \<Rightarrow> 'z GemWheel_scheme \<Rightarrow> 'z GemWheel_scheme" where
  "setActiveGem affinity index wheel =
     (let gem = getGem index wheel in
      if \<not> is_gem gem then wheel
      else if gem_affinity gem \<noteq> affinity then wheel
      else wheel\<lparr>m_activeGems := (m_activeGems wheel)[unat affinity := gem]\<rparr>)"

definition removeActiveGem :: "u8 \<Rightarrow> 'z GemWheel_scheme \<Rightarrow> 'z GemWheel_scheme" where
  "removeActiveGem affinity wheel = wheel\<lparr>m_activeGems := (m_activeGems wheel)[unat affinity := emptyGem]\<rparr>"

section \<open>Grades\<close>

text \<open>The fragments are numbered as in \<^verbatim>\<open>WheelFragmentType_t\<close>: 0 is \<open>Greater\<close>, 1 is \<open>Lesser\<close>.\<close>

definition getGemGrade :: "u8 \<Rightarrow> u8 \<Rightarrow> 'z GemWheel_scheme \<Rightarrow> u8 option" where
  "getGemGrade type pos wheel =
     (let grades = (if type = 1 then m_basicGrades wheel else m_supremeGrades wheel)
      in if unat pos < length grades then Some (grades ! unat pos) else None)"

definition setGrade :: "u8 \<Rightarrow> u8 \<Rightarrow> u8 \<Rightarrow> 'z GemWheel_scheme \<Rightarrow> 'z GemWheel_scheme" where
  "setGrade type pos grade wheel =
     (let wheel1 = (if type = 1 then wheel\<lparr>m_basicGrades := (m_basicGrades wheel)[unat pos := grade]\<rparr>
            else wheel\<lparr>m_supremeGrades := (m_supremeGrades wheel)[unat pos := grade]\<rparr>)
      in wheel1\<lparr>m_modsMaxGrade := m_modsMaxGrade wheel1 + (if grade = 3 then 1 else 0)\<rparr>)"

definition getLesserGradeCost :: "u8 \<Rightarrow> u32 \<times> u8" where
  "getLesserGradeCost grade =
     (if grade = 1 then (2000000, 5) else if grade = 2 then (5000000, 15) else if grade = 3 then (30000000, 30) else (0, 0))"

definition getGreaterGradeCost :: "u8 \<Rightarrow> u32 \<times> u8" where
  "getGreaterGradeCost grade =
     (if grade = 1 then (5000000, 5) else if grade = 2 then (12000000, 15) else if grade = 3 then (75000000, 30) else (0, 0))"

definition improveGemGrade ::
  "'g GemGame_scheme \<Rightarrow> u8 \<Rightarrow> u8 \<Rightarrow> 'o GemOwner_scheme \<times> 'z GemWheel_scheme \<Rightarrow>
   ('o GemOwner_scheme \<times> 'z GemWheel_scheme) option" where
  "improveGemGrade game fragmentType pos state =
     (case state of (player, wheel) \<Rightarrow>
        (case getGemGrade fragmentType pos wheel of
           None \<Rightarrow> None
         | Some old \<Rightarrow>
             let grade = old + 1 in
             if fragmentType \<noteq> 0 \<and> fragmentType \<noteq> 1 then Some (player, wheel)
             else
               let fragmentId = (if fragmentType = 1 then ITEM_LESSER_FRAGMENT else ITEM_GREATER_FRAGMENT);
                   (value, quantity) = (if fragmentType = 1 then getLesserGradeCost grade else getGreaterGradeCost grade)
               in if value = 0 \<and> quantity = 0 then Some (player, wheel)
                  else if \<not> hasItemCountById (containerDepth game) fragmentId (ucast quantity) True player then Some (player, wheel)
                  else
                    let (ok, player1) = pay_gold game (ucast value) player in
                    if \<not> ok then Some (player1, wheel)
                    else
                      let (ok, player2) = removeItemCountById (refuses game) (containerDepth game) fragmentId (ucast quantity) True player1 in
                      if \<not> ok then Some (player2, wheel)
                      else Some (player2, setGrade fragmentType pos grade wheel)))"

section \<open>Requests\<close>

definition gem_action ::
  "(PlayerWheelGem list \<Rightarrow> PlayerWheelGem list) \<Rightarrow> 'g GemGame_scheme \<Rightarrow> string \<Rightarrow> nat list \<Rightarrow> u8 \<Rightarrow> u8 \<Rightarrow> u8 \<Rightarrow>
   'o GemOwner_scheme \<times> 'z GemWheel_scheme \<Rightarrow> ('o GemOwner_scheme \<times> 'z GemWheel_scheme) option" where
  "gem_action ranges_sort game uuid draws action param pos state =
     (if action = 0 then Some (destroyGem game (hd (draws @ [0])) (ucast param) state)
      else if action = 1 then revealGem ranges_sort game uuid draws param state
      else if action = 2 then Some (switchGemDomain game (ucast param) state)
      else if action = 3 then Some (apsnd (toggleGemLock (ucast param)) state)
      else if action = 4 then improveGemGrade game param pos state
      else Some state)"

definition playerWheelGemAction ::
  "(PlayerWheelGem list \<Rightarrow> PlayerWheelGem list) \<Rightarrow> 'g GemGame_scheme \<Rightarrow> int \<Rightarrow> string \<Rightarrow> nat list \<Rightarrow> NetworkMessage \<Rightarrow>
   'o GemOwner_scheme \<times> 'z GemWheel_scheme \<Rightarrow> ('o GemOwner_scheme \<times> 'z GemWheel_scheme) option" where
  "playerWheelGemAction ranges_sort game now uuid draws msg state =
     (if \<not> canDoExAction now (fst state) then Some state
      else
        let (action, msg1) = getByte msg; (param, msg2) = getByte msg1
        in map_option (apfst (setNextExAction (now + actionsDelay game - 10)))
          (gem_action ranges_sort game uuid draws action param (fst (getByte msg2)) state))"

text \<open>The vessels at the end of a request to save the wheel.\<close>

fun save_vessels :: "u8 list \<Rightarrow> NetworkMessage \<Rightarrow> 'z GemWheel_scheme \<Rightarrow> (NetworkMessage \<times> 'z GemWheel_scheme) option" where
  "save_vessels [] msg wheel = Some (msg, wheel)"
| "save_vessels (affinity # affinities) msg wheel =
     (let (hasGem, msg1) = getByte msg in
      if hasGem = 0 then save_vessels affinities msg1 (removeActiveGem affinity wheel)
      else case get msg1 of
         None \<Rightarrow> None
       | Some (gemIndex, msg2) \<Rightarrow> save_vessels affinities msg2 (setActiveGem affinity gemIndex wheel))"

definition saveSlotPointsOnPressSaveButton ::
  "(SlotInfo list \<Rightarrow> SlotInfo list) \<Rightarrow> WheelOwner \<Rightarrow> NetworkMessage \<Rightarrow> 'z GemWheel_scheme \<Rightarrow> 'z GemWheel_scheme option" where
  "saveSlotPointsOnPressSaveButton sort_slots player msg wheel =
     (case save_slots sort_slots player msg wheel of
        None \<Rightarrow> None
      | Some (go_on, msg1, wheel1) \<Rightarrow>
          if go_on then map_option snd (save_vessels enum_affinity msg1 wheel1) else Some wheel1)"

section \<open>Messages\<close>

definition addGem :: "nat \<times> PlayerWheelGem \<Rightarrow> 'm NetworkMessage_scheme \<Rightarrow> 'm NetworkMessage_scheme" where
  "addGem entry msg =
     (case entry of (index, gem) \<Rightarrow>
        let msg1 = addByte (basicModifier1 gem) (addByte (gem_quality gem) (addByte (gem_affinity gem)
              (addByte (if gem_locked gem then 1 else 0) (add (of_nat index :: u16) msg))));
            msg2 = (if gem_quality gem \<ge> 1 then addByte (basicModifier2 gem) msg1 else msg1)
        in if gem_quality gem \<ge> 2 then addByte (supremeModifier gem) msg2 else msg2)"

definition addGems :: "'z GemWheel_scheme \<Rightarrow> 'm NetworkMessage_scheme \<Rightarrow> 'm NetworkMessage_scheme" where
  "addGems wheel msg =
     (let activeGems = getActiveGems wheel;
          msg1 = addByte (of_nat (length activeGems)) msg;
          msg2 = fold (\<lambda>gem. add (getGemIndex (gem_uuid gem) wheel)) activeGems msg1;
          msg3 = add (of_nat (length (m_revealedGems wheel)) :: u16) msg2
      in fold addGem (enumerate 0 (m_revealedGems wheel)) msg3)"

definition addGrade :: "u8 list \<Rightarrow> u8 \<Rightarrow> 'm NetworkMessage_scheme \<Rightarrow> 'm NetworkMessage_scheme" where
  "addGrade grades pos msg = addByte (grades ! unat pos) (addByte pos msg)"

definition addGradeModifiers :: "u8 \<Rightarrow> 'z GemWheel_scheme \<Rightarrow> 'm NetworkMessage_scheme \<Rightarrow> 'm NetworkMessage_scheme" where
  "addGradeModifiers vocationBaseId wheel msg =
     (let msg1 = fold (addGrade (m_basicGrades wheel)) modsBasicPosition (addByte 0x2E msg)
      in case modsSupremePositionByVocation vocationBaseId of
           None \<Rightarrow> addByte 0x17 msg1
         | Some positions \<Rightarrow> fold (addGrade (m_supremeGrades wheel)) positions (addByte 0x17 msg1))"

section \<open>The key-value store\<close>

record 'd GemsKV =
  kv_revealed :: "string \<rightharpoonup> 'd ValueWrapper"
  kv_active :: "string \<rightharpoonup> 'd ValueWrapper"
  kv_grades :: "u8 \<times> u8 \<rightharpoonup> 'd ValueWrapper"
  kv_initialGems :: "'d ValueWrapper option"

definition gem_serialize :: "u64 \<Rightarrow> PlayerWheelGem \<Rightarrow> 'd ValueWrapper" where
  "gem_serialize now gem =
     (let int_of = \<lambda>n :: u8. make_wrapper now (IntType (ucast n)) 0
      in make_wrapper now (MapType (createMapFromRange now
        [(''uuid'', make_wrapper now (StringType (gem_uuid gem)) 0),
         (''locked'', make_wrapper now (BooleanType (gem_locked gem)) 0),
         (''affinity'', int_of (gem_affinity gem)),
         (''quality'', int_of (gem_quality gem)),
         (''basicModifier1'', int_of (basicModifier1 gem)),
         (''basicModifier2'', int_of (basicModifier2 gem)),
         (''supremeModifier'', int_of (supremeModifier gem))] 0)) 0)"

text \<open>A missing entry of a map that is not empty is a null pointer that is followed.\<close>

definition gem_deserialize :: "string \<Rightarrow> 'd ValueWrapper \<Rightarrow> PlayerWheelGem option" where
  "gem_deserialize uuid val =
     (case vw_data val of
        MapType (e # m) \<Rightarrow>
          (case (map_of (e # m) ''locked'', map_of (e # m) ''affinity'', map_of (e # m) ''quality'',
                 map_of (e # m) ''basicModifier1'', map_of (e # m) ''basicModifier2'', map_of (e # m) ''supremeModifier'') of
             (Some lo, Some af, Some qu, Some b1, Some b2, Some su) \<Rightarrow>
               Some \<lparr>gem_uuid = uuid, gem_locked = get_bool lo, gem_affinity = ucast (get_int af), gem_quality = ucast (get_int qu),
                 basicModifier1 = ucast (get_int b1), basicModifier2 = ucast (get_int b2), supremeModifier = ucast (get_int su)\<rparr>
           | _ \<Rightarrow> None)
      | _ \<Rightarrow> Some emptyGem)"

definition gem_save :: "u64 \<Rightarrow> PlayerWheelGem \<Rightarrow> 'd GemsKV \<Rightarrow> 'd GemsKV" where
  "gem_save now gem kv = kv\<lparr>kv_revealed := (kv_revealed kv)(gem_uuid gem \<mapsto> gem_serialize now gem)\<rparr>"

definition gem_remove :: "PlayerWheelGem \<Rightarrow> 'd GemsKV \<Rightarrow> 'd GemsKV" where
  "gem_remove gem kv = kv\<lparr>kv_revealed := (kv_revealed kv)(gem_uuid gem := None)\<rparr>"

text \<open>The gems every player starts with, with their identifiers and the draws.\<close>

fun add_initial :: "u64 \<Rightarrow> (u8 \<times> u8) list \<Rightarrow> string list \<Rightarrow> nat list \<Rightarrow> 'd GemsKV \<Rightarrow> 'd GemsKV option" where
  "add_initial now [] uuids draws kv = Some kv"
| "add_initial now ((affinity, quality) # gems) (uuid # uuids) (d # draws) kv =
     (let modifier1 = pick wheelGemBasicSlot1Allowed d;
          gem = \<lparr>gem_uuid = uuid, gem_locked = False, gem_affinity = affinity, gem_quality = quality,
            basicModifier1 = modifier1, basicModifier2 = 0, supremeModifier = 0\<rparr>
      in if quality < 1 then add_initial now gems uuids draws (gem_save now gem kv)
         else case selectBasicModifier2 modifier1 draws of
            None \<Rightarrow> None
          | Some (modifier2, rest) \<Rightarrow> add_initial now gems uuids rest (gem_save now (gem\<lparr>basicModifier2 := modifier2\<rparr>) kv))"
| "add_initial now _ _ _ kv = None"

definition addInitialGems :: "u64 \<Rightarrow> string list \<Rightarrow> nat list \<Rightarrow> 'd GemsKV \<Rightarrow> 'd GemsKV option" where
  "addInitialGems now uuids draws kv =
     (if kv_initialGems kv \<noteq> None then Some kv
      else map_option (\<lambda>kv'. kv'\<lparr>kv_initialGems := Some (make_wrapper now (BooleanType True) 0)\<rparr>)
        (add_initial now (List.product enum_affinity [0, 1]) uuids draws kv))"

definition gem_load :: "'d GemsKV \<Rightarrow> string \<Rightarrow> PlayerWheelGem option" where
  "gem_load kv uuid = (case kv_revealed kv uuid of None \<Rightarrow> Some emptyGem | Some val \<Rightarrow> gem_deserialize uuid val)"

definition affinity_name :: "u8 \<Rightarrow> string" where
  "affinity_name affinity =
     (if affinity = 0 then ''Green'' else if affinity = 1 then ''Red'' else if affinity = 2 then ''Blue'' else ''Purple'')"

fun load_gems :: "'d GemsKV \<Rightarrow> string list \<Rightarrow> PlayerWheelGem list option" where
  "load_gems kv [] = Some []"
| "load_gems kv (uuid # uuids) =
     (case gem_load kv uuid of
        None \<Rightarrow> None
      | Some gem \<Rightarrow> map_option (\<lambda>gems. if is_gem gem then gem # gems else gems) (load_gems kv uuids))"

definition getRevealedGems :: "(string list \<Rightarrow> string list) \<Rightarrow> string list \<Rightarrow> 'd GemsKV \<Rightarrow> PlayerWheelGem list option" where
  "getRevealedGems sort_uuids keys kv = (if keys = [] then Some [] else load_gems kv (sort_uuids keys))"

definition loadRevealedGems ::
  "(string list \<Rightarrow> string list) \<Rightarrow> string list \<Rightarrow> 'd GemsKV \<Rightarrow> 'z GemWheel_scheme \<Rightarrow> 'z GemWheel_scheme option" where
  "loadRevealedGems sort_uuids keys kv wheel =
     (if keys = [] then Some wheel
      else map_option (\<lambda>gems. wheel\<lparr>m_revealedGems := m_revealedGems wheel @ gems\<rparr>) (load_gems kv (sort_uuids keys)))"

definition saveRevealedGems :: "u64 \<Rightarrow> 'z GemWheel_scheme \<Rightarrow> 'd GemsKV \<Rightarrow> 'd GemsKV" where
  "saveRevealedGems now wheel kv =
     fold (gem_save now) (m_revealedGems wheel) (fold gem_remove (m_destroyedGems wheel) kv)"

definition loadActiveGem :: "'d GemsKV \<Rightarrow> u8 \<Rightarrow> 'z GemWheel_scheme \<Rightarrow> 'z GemWheel_scheme" where
  "loadActiveGem kv affinity wheel =
     (case kv_active kv (affinity_name affinity) of
        None \<Rightarrow> wheel
      | Some uuidKV \<Rightarrow>
          let uuid = get_string uuidKV in
          if uuid = [] then wheel
          else case find (\<lambda>gem. gem_uuid gem = uuid) (m_revealedGems wheel) of
             None \<Rightarrow> wheel
           | Some gem \<Rightarrow> wheel\<lparr>m_activeGems := (m_activeGems wheel)[unat affinity := gem]\<rparr>)"

definition loadActiveGems :: "'d GemsKV \<Rightarrow> 'z GemWheel_scheme \<Rightarrow> 'z GemWheel_scheme" where
  "loadActiveGems kv wheel = fold (loadActiveGem kv) enum_affinity wheel"

definition saveActiveGem :: "u64 \<Rightarrow> 'z GemWheel_scheme \<Rightarrow> u8 \<Rightarrow> 'd GemsKV \<Rightarrow> 'd GemsKV" where
  "saveActiveGem now wheel affinity kv =
     (let gem = m_activeGems wheel ! unat affinity; key = affinity_name affinity
      in if is_gem gem then kv\<lparr>kv_active := (kv_active kv)(key \<mapsto> make_wrapper now (StringType (gem_uuid gem)) 0)\<rparr>
         else kv\<lparr>kv_active := (kv_active kv)(key := None)\<rparr>)"

definition saveActiveGems :: "u64 \<Rightarrow> 'z GemWheel_scheme \<Rightarrow> 'd GemsKV \<Rightarrow> 'd GemsKV" where
  "saveActiveGems now wheel kv = fold (saveActiveGem now wheel) enum_affinity kv"






section \<open>Runs of requests\<close>

datatype gem_request =
    GemAction int string "nat list" NetworkMessage
  | SaveWheel WheelOwner NetworkMessage

definition gem_step ::
  "(PlayerWheelGem list \<Rightarrow> PlayerWheelGem list) \<Rightarrow> (SlotInfo list \<Rightarrow> SlotInfo list) \<Rightarrow> 'g GemGame_scheme \<Rightarrow> gem_request \<Rightarrow>
   'o GemOwner_scheme \<times> 'z GemWheel_scheme \<Rightarrow> ('o GemOwner_scheme \<times> 'z GemWheel_scheme) option" where
  "gem_step sort_gems sort_slots game request state =
     (case request of
        GemAction now uuid draws msg \<Rightarrow> playerWheelGemAction sort_gems game now uuid draws msg state
      | SaveWheel owner msg \<Rightarrow>
          map_option (\<lambda>wheel. (fst state, wheel)) (saveSlotPointsOnPressSaveButton sort_slots owner msg (snd state)))"

fun gem_run ::
  "(PlayerWheelGem list \<Rightarrow> PlayerWheelGem list) \<Rightarrow> (SlotInfo list \<Rightarrow> SlotInfo list) \<Rightarrow> 'g GemGame_scheme \<Rightarrow> gem_request list \<Rightarrow>
   'o GemOwner_scheme \<times> 'z GemWheel_scheme \<Rightarrow> ('o GemOwner_scheme \<times> 'z GemWheel_scheme) option" where
  "gem_run sort_gems sort_slots game [] state = Some state"
| "gem_run sort_gems sort_slots game (r # rs) state =
     (case gem_step sort_gems sort_slots game r state of None \<Rightarrow> None | Some state' \<Rightarrow> gem_run sort_gems sort_slots game rs state')"

fun toggles :: "gem_request \<Rightarrow> bool" where
  "toggles (GemAction now uuid draws msg) \<longleftrightarrow> fst (getByte msg) = 3"
| "toggles (SaveWheel owner msg) \<longleftrightarrow> False"

text \<open>What only looks at the rest of the wheel is not changed by saving slots.\<close>

locale slot_blind =
  fixes view :: "'z PlayerWheel_scheme \<Rightarrow> 'v"
  assumes set_points: "view (setPointsBySlotType i p w) = view w"
begin

lemma save_pass: "view (snd (save_pass player table w)) = view w"
proof (induction table arbitrary: w)
  case (Cons d table)
  have "view (snd (checkSavePointsBySlotType player (slot d) (points d) w)) = view w"
    by (simp add: checkSavePointsBySlotType_def Let_def set_points)
  then show ?case using Cons.IH by (simp add: split_beta Let_def)
qed simp

lemma save_slots: "save_slots ranges_sort player msg w = Some (go_on, msg', w') \<Longrightarrow> view w' = view w"
proof -
  have "view (snd (((\<lambda>(retry, wheel). save_pass player retry wheel) ^^ n) p)) = view (snd p)" for n and p :: "SlotInfo list \<times> 'z PlayerWheel_scheme"
    by (induction n) (simp_all add: split_beta save_pass)
  then have "view (snd (save_table player table w)) = view w" for table
    by (simp add: save_table_def split_beta Let_def save_pass)
  then show "save_slots ranges_sort player msg w = Some (go_on, msg', w') \<Longrightarrow> view w' = view w"
    by (auto simp: save_slots_def split: if_splits option.splits)
qed

end

lemma set_points_gems [simp]:
  "m_activeGems (setPointsBySlotType i p w) = m_activeGems w" "m_revealedGems (setPointsBySlotType i p w) = m_revealedGems w"
  "m_destroyedGems (setPointsBySlotType i p w) = m_destroyedGems w" "m_basicGrades (setPointsBySlotType i p w) = m_basicGrades w"
  "m_supremeGrades (setPointsBySlotType i p w) = m_supremeGrades w" "m_modsMaxGrade (setPointsBySlotType i p w) = m_modsMaxGrade w"
  by (simp_all add: setPointsBySlotType_def)

definition gem_view :: "'z GemWheel_scheme \<Rightarrow> PlayerWheelGem list \<times> PlayerWheelGem list \<times> PlayerWheelGem list \<times> u8 list \<times> u8 list \<times> u8" where
  "gem_view w = (m_activeGems w, m_revealedGems w, m_destroyedGems w, m_basicGrades w, m_supremeGrades w, m_modsMaxGrade w)"

interpretation slots: slot_blind gem_view
  by unfold_locales (simp add: gem_view_def)

text \<open>A law of the wheel that every single action keeps is kept by every run.  Toggling may be left out.\<close>

locale gem_law =
  fixes sort_gems :: "PlayerWheelGem list \<Rightarrow> PlayerWheelGem list" and game :: "'g GemGame_scheme"
    and law :: "'z GemWheel_scheme \<Rightarrow> bool" and toggling :: bool
  assumes view_law: "gem_view w = gem_view w' \<Longrightarrow> law w = law w'"
    and reveal_law: "law w \<Longrightarrow> law (w\<lparr>m_revealedGems := sort_gems (m_revealedGems w @ [gem])\<rparr>)"
    and destroy_law: "law w \<Longrightarrow> is_gem (getGem i w) \<Longrightarrow> \<not> gem_locked (getGem i w) \<Longrightarrow>
      law (w\<lparr>m_destroyedGems := m_destroyedGems w @ [getGem i w],
        m_revealedGems := take (unat i) (m_revealedGems w) @ drop (Suc (unat i)) (m_revealedGems w)\<rparr>)"
    and rotate_law: "law w \<Longrightarrow> is_gem (getGem i w) \<Longrightarrow> \<not> gem_locked (getGem i w) \<Longrightarrow>
      law (w\<lparr>m_revealedGems := (m_revealedGems w)[unat i := (getGem i w)\<lparr>gem_affinity := a\<rparr>]\<rparr>)"
    and toggle_law: "toggling \<Longrightarrow> law w \<Longrightarrow> law (toggleGemLock i w)"
    and activate_law: "law w \<Longrightarrow> law (w\<lparr>m_activeGems := gems\<rparr>)"
    and improve_law: "law w \<Longrightarrow> getGemGrade type pos w = Some grade \<Longrightarrow> grade + 1 \<in> {1, 2, 3} \<Longrightarrow>
      law (setGrade type pos (grade + 1) w)"
begin

lemma vessels: "save_vessels affinities msg w = Some (msg', w') \<Longrightarrow> law w \<Longrightarrow> law w'"
proof (induction affinities arbitrary: msg w)
  case (Cons a as)
  have "law (removeActiveGem a w)" "law (setActiveGem a i w)" for i
    using Cons.prems(2) by (simp_all add: removeActiveGem_def setActiveGem_def activate_law Let_def)
  then show ?case using Cons.IH Cons.prems(1) by (auto simp: split_beta Let_def split: if_splits option.splits)
qed simp

lemma destroy: "law (snd s) \<Longrightarrow> law (snd (destroyGem game draw i s))"
  using destroy_law [of "snd s" i] by (auto simp: destroyGem_def Let_def split_beta split: option.splits)

lemma rotate: "law (snd s) \<Longrightarrow> law (snd (switchGemDomain game i s))"
  using rotate_law [of "snd s" i] by (auto simp: switchGemDomain_def Let_def split_beta)

lemma reveal: "revealGem sort_gems game uuid draws quality s = Some s' \<Longrightarrow> law (snd s) \<Longrightarrow> law (snd s')"
  by (auto simp: revealGem_def Let_def split_beta reveal_law split: if_splits option.splits)

lemma improve: "improveGemGrade game type pos s = Some s' \<Longrightarrow> law (snd s) \<Longrightarrow> law (snd s')"
proof -
  assume eq: "improveGemGrade game type pos s = Some s'" and law: "law (snd s)"
  obtain player w where s: "s = (player, w)" by (cases s)
  obtain grade where grade: "getGemGrade type pos w = Some grade"
    using eq by (auto simp: improveGemGrade_def s split: option.splits)
  have cost: "grade + 1 \<in> {1, 2, 3}" if "(if type = 1 then getLesserGradeCost (grade + 1) else getGreaterGradeCost (grade + 1)) \<noteq> (0, 0)"
    using that by (auto simp: getLesserGradeCost_def getGreaterGradeCost_def split: if_splits)
  have "snd s' = w \<or> snd s' = setGrade type pos (grade + 1) w \<and>
      (if type = 1 then getLesserGradeCost (grade + 1) else getGreaterGradeCost (grade + 1)) \<noteq> (0, 0)"
    using eq unfolding improveGemGrade_def s by (auto simp: grade Let_def split_beta split: if_splits)
  then show "law (snd s')" using improve_law [OF _ grade] cost law s by fastforce
qed

lemma step:
  assumes "gem_step sort_gems sort_slots game r s = Some s'" and "toggling \<or> \<not> toggles r" and "law (snd s)"
  shows "law (snd s')"
proof (cases r)
  case (GemAction now uuid draws msg)
  have "law (snd s1)" if "gem_action sort_gems game uuid draws (fst (getByte msg)) param pos s = Some s1" for param pos s1
    using that assms(2,3) reveal [of uuid draws param s s1] improve [of param pos s s1] destroy [OF assms(3)] rotate [OF assms(3)]
      toggle_law [OF _ assms(3)]
    by (auto simp: gem_action_def GemAction split: if_splits)
  then show ?thesis using assms(1,3)
    by (auto simp: GemAction gem_step_def playerWheelGemAction_def Let_def split_beta split: if_splits)
next
  case (SaveWheel owner msg)
  obtain w' where w': "s' = (fst s, w')" "saveSlotPointsOnPressSaveButton sort_slots owner msg (snd s) = Some w'"
    using assms(1) by (auto simp: gem_step_def SaveWheel)
  then obtain go_on msg1 w1 where w1: "save_slots sort_slots owner msg (snd s) = Some (go_on, msg1, w1)"
    by (auto simp: saveSlotPointsOnPressSaveButton_def split: option.splits)
  then have "law w1" using slots.save_slots [OF w1] view_law assms(3) by blast
  then show ?thesis using w' w1 vessels by (auto simp: saveSlotPointsOnPressSaveButton_def split: if_splits)
qed

lemma run:
  "gem_run sort_gems sort_slots game rs s = Some s' \<Longrightarrow> list_all (\<lambda>r. toggling \<or> \<not> toggles r) rs \<Longrightarrow> law (snd s) \<Longrightarrow> law (snd s')"
proof (induction rs arbitrary: s)
  case (Cons r rs)
  then show ?case using step [of sort_slots r s] by (auto split: option.splits)
qed simp

end

section \<open>Locked gems\<close>

lemma removed_index:
  assumes "x \<in> set xs" and "i < length xs" and "xs ! i \<noteq> x"
  shows "x \<in> set (take i xs @ drop (Suc i) xs)"
  using assms(1,3) by (subst (asm) id_take_nth_drop [OF assms(2)]) auto

lemma updated_index: "x \<in> set xs \<Longrightarrow> (i < length xs \<Longrightarrow> xs ! i \<noteq> x) \<Longrightarrow> x \<in> set (xs[i := y])"
  by (induction xs arbitrary: i) (auto split: nat.split)

lemma getGem_is_gem: "is_gem (getGem i w) \<Longrightarrow> unat i < length (m_revealedGems w) \<and> m_revealedGems w ! unat i = getGem i w"
  by (auto simp: getGem_def is_gem_def emptyGem_def)

interpretation locked: gem_law sort_gems game
    "\<lambda>w. (\<forall>xs. set (sort_gems xs) = set xs) \<longrightarrow> gem_locked g \<longrightarrow> g \<in> set (m_revealedGems w)" False
  for sort_gems game g
proof (unfold_locales, goal_cases)
  case (3 w i)
  then show ?case using getGem_is_gem [of i w] removed_index [of g "m_revealedGems w" "unat i"] by auto
next
  case (4 w i a)
  then show ?case using getGem_is_gem [of i w] by (auto intro!: updated_index)
qed (auto simp: gem_view_def setGrade_def Let_def)

text \<open>C35: A locked gem is safe: no sequence of requests that does not toggle locks destroys or rotates it.\<close>

theorem locked_gems_are_kept:
  assumes "\<And>gems. mset (sort_gems gems) = mset gems" and "list_all (\<lambda>r. \<not> toggles r) rs"
    and "gem_run sort_gems sort_slots game rs (player, w) = Some (player', w')"
    and "g \<in> set (m_revealedGems w)" and "gem_locked g"
  shows "g \<in> set (m_revealedGems w')"
proof -
  have "set (sort_gems xs) = set xs" for xs using assms(1) [of xs] by (metis set_mset_mset)
  then show ?thesis using locked.run [where g = g, OF assms(3)] assms(2,4,5) by simp
qed

text \<open>A wheel with a locked gem and a gem in no vessel.\<close>

definition some_gem :: "string \<Rightarrow> bool \<Rightarrow> PlayerWheelGem" where
  "some_gem uuid l = emptyGem\<lparr>gem_uuid := uuid, gem_locked := l, gem_quality := 1, basicModifier1 := 31\<rparr>"

definition some_wheel :: GemWheel where
  "some_wheel = \<lparr>m_pointsPerLevel = 1, m_wheelSlots = replicate 37 0, m_modsMaxGrade = 0, m_unlockedScrolls = [],
     m_activeGems = replicate 4 emptyGem, m_revealedGems = [some_gem ''7'' True, some_gem ''8'' False], m_destroyedGems = [],
     m_basicGrades = replicate 49 0, m_supremeGrades = replicate 99 0\<rparr>"

definition some_owner :: GemOwner where
  "some_owner = \<lparr>carried = [], bankBalance = 1000000, stashItems = [], nextExAction = 0\<rparr>"

definition some_game :: GemGame where
  "some_game = \<lparr>refuses = (\<lambda>_. False), place_coins = (\<lambda>_ inven. inven), place_item = (\<lambda>_ _ inven. Some inven),
     wheelGemId = (\<lambda>_. 0), containerDepth = 10, supremeGemModifiers = [], rotateCosts = (125000, 250000, 500000), revealCosts = (0, 0, 0),
     actionsDelay = 10\<rparr>"

lemma first_byte: "fst (getByte new_message) = 0"
  by (simp add: getByte_def canRead_def new_message_def)

theorem locked_gems_are_kept_witness:
  "\<exists>player w. gem_run id id some_game [GemAction 0 ''9'' [] new_message] (some_owner, some_wheel) = Some (player, w) \<and>
     some_gem ''7'' True \<in> set (m_revealedGems w)"
proof -
  obtain player w where run: "gem_run id id some_game [GemAction 0 ''9'' [] new_message] (some_owner, some_wheel) = Some (player, w)"
    by (cases "destroyGem some_game 0 (ucast (fst (getByte (snd (getByte new_message))))) (some_owner, some_wheel)")
      (auto simp: gem_step_def playerWheelGemAction_def gem_action_def first_byte canDoExAction_def some_owner_def split_beta Let_def)
  moreover have "some_gem ''7'' True \<in> set (m_revealedGems w)"
    by (rule locked_gems_are_kept [OF _ _ run]) (simp_all add: first_byte some_wheel_def some_gem_def)
  ultimately show ?thesis by blast
qed

text \<open>A gem that is destroyed while it is in a vessel stays there, and is announced to the client as number 255.\<close>

lemma destroyed_gem_stays_active: "m_activeGems (snd (destroyGem game draw i (player, w))) = m_activeGems w"
  by (simp add: destroyGem_def Let_def split: option.split)

lemma unknown_gem_index: "uuid \<notin> gem_uuid ` set (m_revealedGems w) \<Longrightarrow> getGemIndex uuid w = 255"
proof -
  have "uuid \<notin> gem_uuid ` set gems \<Longrightarrow> index_of_uuid n uuid gems = 255" for n gems
    by (induction gems arbitrary: n) auto
  then show "uuid \<notin> gem_uuid ` set (m_revealedGems w) \<Longrightarrow> getGemIndex uuid w = 255" by (simp add: getGemIndex_def)
qed

section \<open>Counting grades\<close>

definition grades_ok :: "'z GemWheel_scheme \<Rightarrow> bool" where
  "grades_ok w \<longleftrightarrow> length (m_basicGrades w) = 49 \<and> length (m_supremeGrades w) = 99 \<and>
     list_all (\<lambda>grade. grade \<le> 3) (m_basicGrades w @ m_supremeGrades w) \<and>
     unat (m_modsMaxGrade w) = length (filter (\<lambda>grade. grade = 3) (m_basicGrades w @ m_supremeGrades w))"

lemma filter_update:
  assumes "i < length xs" and "\<not> P (xs ! i)"
  shows "length (filter P (xs[i := y])) = length (filter P xs) + (if P y then 1 else 0)"
proof -
  have "filter P xs = filter P (take i xs) @ filter P (drop (Suc i) xs)"
    by (subst id_take_nth_drop [OF assms(1)]) (simp add: assms(2))
  then show ?thesis by (simp add: upd_conv_take_nth_drop [OF assms(1)])
qed

lemma list_all_update: "list_all P xs \<Longrightarrow> P y \<Longrightarrow> list_all P (xs[i := y])"
  by (induction xs arbitrary: i) (auto split: nat.split)

lemma set_grade_ok:
  assumes "grades_ok w" and "getGemGrade type pos w = Some old" and "old \<noteq> 3" and "grade \<le> 3"
  shows "grades_ok (setGrade type pos grade w)"
proof -
  let ?old = "length (filter (\<lambda>grade. grade = 3) (m_basicGrades w @ m_supremeGrades w))"
  let ?more = "if grade = 3 then 1 else 0"
  note u = filter_update [where P = "\<lambda>g. g = (3 :: u8)" and y = grade]
  have room: "length (filter (\<lambda>g. g = (3 :: u8)) xs) < length xs" if "i < length xs" "xs ! i \<noteq> 3" for i and xs :: "u8 list"
    using that by (intro length_filter_less [of "xs ! i"]) auto
  have "?old < 148"
    using assms(1,2,3) room [of "unat pos" "m_basicGrades w"] room [of "unat pos" "m_supremeGrades w"]
      length_filter_le [of "\<lambda>g. g = (3 :: u8)" "m_basicGrades w"] length_filter_le [of "\<lambda>g. g = (3 :: u8)" "m_supremeGrades w"]
    by (cases "type = 1") (simp_all add: grades_ok_def getGemGrade_def split: if_splits)
  then have "unat (m_modsMaxGrade w + (if grade = 3 then 1 else 0)) = ?old + ?more"
    using assms(1) by (auto simp: grades_ok_def unat_word_ariths)
  then show ?thesis using assms u [of "unat pos" "m_basicGrades w"] u [of "unat pos" "m_supremeGrades w"]
    by (auto simp: grades_ok_def getGemGrade_def setGrade_def Let_def list_all_update split: if_splits)
qed

interpretation grades: gem_law sort_gems game grades_ok True
  for sort_gems game
proof (unfold_locales, goal_cases)
  case (7 w type pos grade)
  then have "grade \<noteq> 3" and "grade + 1 \<le> 3" by auto
  then show ?case using set_grade_ok [OF 7(1,2)] by blast
qed (auto simp: gem_view_def grades_ok_def toggleGemLock_def Let_def)

text \<open>C38: The counter of finished modifiers is exact: on every run of requests no grade exceeds 3 and the points the wheel
  gets are the number of modifiers of grade 3.\<close>

theorem finished_modifiers_are_counted:
  assumes "grades_ok w" and "gem_run sort_gems sort_slots game rs (player, w) = Some (player', w')"
  shows "grades_ok w'"
  using grades.run [OF assms(2)] assms(1) by (simp add: list_all_iff)

theorem finished_modifiers_are_counted_witness:
  "pred_option (\<lambda>(player, w). grades_ok w) (gem_run id id some_game [GemAction 0 ''9'' [] new_message] (some_owner, some_wheel))"
proof -
  have "grades_ok some_wheel" by (simp add: grades_ok_def some_wheel_def list_all_iff)
  then show ?thesis
    using finished_modifiers_are_counted [of some_wheel id id some_game "[GemAction 0 ''9'' [] new_message]" some_owner]
    by (cases "gem_run id id some_game [GemAction 0 ''9'' [] new_message] (some_owner, some_wheel)") auto
qed

text \<open>The byte a client sends for the modifier to improve is used as an index without a check: every value from 49 on
  for a lesser fragment, and from 99 on for a greater one, leaves the arrays.\<close>

lemma unchecked_modifier_leaves_the_array:
  assumes "grades_ok w" and "unat pos \<ge> (if fragment = 1 then 49 else 99)"
  shows "gem_action sort_gems game uuid draws 4 fragment pos (player, w) = None"
proof -
  have "getGemGrade fragment pos w = None" using assms by (auto simp: getGemGrade_def grades_ok_def split: if_splits)
  then show ?thesis by (simp add: gem_action_def improveGemGrade_def)
qed

section \<open>Taking items\<close>

definition piled :: "u16 \<Rightarrow> pile list \<Rightarrow> nat" where
  "piled i ps = (\<Sum>p\<leftarrow>ps. if fst (snd p) = i then unat (snd (snd p)) else 0)"

definition stashed :: "u16 \<Rightarrow> 'o GemOwner_scheme \<Rightarrow> nat" where
  "stashed i player = (case map_of (stashItems player) i of None \<Rightarrow> 0 | Some c \<Rightarrow> unat c)"

definition owned :: "u16 \<Rightarrow> 'o GemOwner_scheme \<Rightarrow> nat" where
  "owned i player = piled i (all_piles (carried player)) + stashed i player"

lemma piled_simps [simp]:
  "piled i [] = 0" "piled i (p # ps) = (if fst (snd p) = i then unat (snd (snd p)) else 0) + piled i ps"
  "piled i (ps @ qs) = piled i ps + piled i qs"
  by (simp_all add: piled_def)

text \<open>No container is nested deeper than the iterator goes.\<close>

fun depth_ok :: "nat \<Rightarrow> thing \<Rightarrow> bool" where
  "depth_ok n (Pile obj i cnt) \<longleftrightarrow> True"
| "depth_ok n (Bag obj items) \<longleftrightarrow> 0 < n \<and> list_all (depth_ok (n - 1)) items"

lemma iterate_all: "depth_ok n t \<Longrightarrow> iterate_container n t = piles t"
  by (induction n t rule: iterate_container.induct) (auto simp: list_all_iff intro!: arg_cong [where f = concat])

lemma inventory_items: "list_all (depth_ok n) ts \<Longrightarrow> 0 < n \<Longrightarrow> getAllInventoryItems n ts = all_piles ts"
  by (auto simp: getAllInventoryItems_def max_def list_all_iff iterate_all intro!: arg_cong [where f = concat])

lemma shrink_piled:
  assumes "distinct (map fst ps)" and "(obj, i, c) \<in> set ps" and "n \<le> unat c" and "unat c \<le> 255"
  shows "piled j (concat (map (shrink_pile obj n) ps)) + (if j = i then n else 0) = piled j ps"
  using assms(1,2)
proof (induction ps)
  case (Cons p ps)
  show ?case
  proof (cases "fst p = obj")
    case True
    then have p: "p = (obj, i, c)" using Cons.prems by (cases p) (force simp: image_iff)
    moreover have "concat (map (shrink_pile obj n) ps) = ps"
      using Cons.prems True by (intro shrink_absent) auto
    ultimately show ?thesis using unat_shrunk [OF assms(4), of n] assms(3) by (simp add: shrink_pile_same)
  qed (use Cons in \<open>auto simp: shrink_other\<close>)
qed simp

lemma remove_piles_spec:
  assumes "distinct (map fst ps)" and "distinct (map fst (all_piles inven))" and "set ps \<subseteq> set (all_piles inven)"
    and "\<forall>p \<in> set ps. unat (snd (snd p)) \<le> 255" and "\<And>obj. \<not> ref obj" and "0 < amount"
  shows "\<exists>rest inven'. remove_piles ref i ps amount inven = (unat amount \<le> piled i ps, rest, inven') \<and>
    unat rest = unat amount - piled i ps \<and>
    piled j (all_piles inven') + (if j = i then unat amount - unat rest else 0) = piled j (all_piles inven)"
  using assms(1,2,3,4,6)
proof (induction ps arbitrary: amount inven)
  case (Cons p ps)
  obtain obj i' c where p: "p = (obj, i', c)" by (cases p) auto
  have c: "unat (ucast c :: u32) = unat c" by (simp add: unat_ucast_widen)
  have mem: "(obj, i', c) \<in> set (all_piles inven)" "unat c \<le> 255" using Cons.prems by (auto simp: p)
  note sh = shrink_piled [OF Cons.prems(2) mem(1) _ mem(2)]
  note rm = all_piles_remove [of ref, OF assms(5)]
  consider "i' \<noteq> i" | "i' = i" "ucast c \<ge> amount" | "i' = i" "ucast c < amount" by fastforce
  then show ?case
  proof cases
    case 1
    then show ?thesis using Cons.IH [of inven amount] Cons.prems by (auto simp: p)
  next
    case 2
    then have "unat amount \<le> unat c" using c by (metis word_le_nat_alt)
    then show ?thesis using 2 sh [of "unat amount" j] by (cases "j = i") (simp_all add: p rm)
  next
    case 3
    let ?inven = "internalRemoveItem ref obj (unat c) inven"
    have less: "unat c < unat amount" using 3(2) c by (metis word_less_nat_alt)
    then have m: "unat (amount - ucast c) = unat amount - unat c" using c by (simp add: unat_sub word_le_nat_alt)
    then have pos: "0 < amount - ucast c" using less by (metis unat_gt_0 zero_less_diff word_neq_0_conv)
    have "set ps \<subseteq> set (all_piles ?inven)"
    proof
      fix q assume "q \<in> set ps"
      then have "q \<in> set (all_piles inven)" "fst q \<noteq> obj" using Cons.prems by (auto simp: p image_iff)
      then show "q \<in> set (all_piles ?inven)" unfolding rm by (rule shrink_keeps)
    qed
    moreover have "distinct (map fst (all_piles ?inven))" unfolding rm using Cons.prems by (intro shrink_distinct) simp
    ultimately obtain rest inven' where "remove_piles ref i ps (amount - ucast c) ?inven = (unat (amount - ucast c) \<le> piled i ps, rest, inven')"
      "unat rest = unat (amount - ucast c) - piled i ps"
      "piled j (all_piles inven') + (if j = i then unat (amount - ucast c) - unat rest else 0) = piled j (all_piles ?inven)"
      using Cons.IH [of ?inven "amount - ucast c"] Cons.prems pos by auto
    then show ?thesis using 3 less m sh [of "unat c" j] by (cases "j = i") (auto simp: p rm [symmetric])
  qed
qed (simp add: word_less_nat_alt)

lemma foldl_piled:
  "unat k + piled i ps < 2 ^ 32 \<Longrightarrow>
     unat (foldl (\<lambda>n p. if fst (snd p) \<noteq> i then n else n + ucast (snd (snd p))) (k :: u32) ps) = unat k + piled i ps"
proof (induction ps arbitrary: k)
  case (Cons p ps)
  have "unat (k + ucast (snd (snd p))) = unat k + unat (snd (snd p))" if "fst (snd p) = i"
    using Cons.prems that by (simp add: unat_word_ariths unat_ucast_widen)
  then show ?case using Cons.IH [of k] Cons.IH [of "k + ucast (snd (snd p))"] Cons.prems by (cases "fst (snd p) = i") simp_all
qed simp

lemma foldl_stashed:
  "distinct (map fst st) \<Longrightarrow> foldl (\<lambda>n (j, c). if j = i then n + c else n) (k :: u32) st = k + (case map_of st i of None \<Rightarrow> 0 | Some c \<Rightarrow> c)"
proof (induction st arbitrary: k)
  case (Cons e st)
  obtain j c where e: "e = (j, c)" by (cases e)
  have "map_of st i = None" if "j = i" using Cons.prems that by (auto simp: e map_of_eq_None_iff image_iff)
  then show ?case using Cons by (auto simp: e)
qed simp

definition owner_ok :: "nat \<Rightarrow> 'o GemOwner_scheme \<Rightarrow> bool" where
  "owner_ok maxDepth player \<longleftrightarrow> purse_ok (carried player) \<and> 0 < maxDepth \<and> list_all (depth_ok maxDepth) (carried player) \<and> distinct (map fst (stashItems player))"

lemma has_item_iff:
  assumes "owner_ok maxDepth player" and "owned i player < 2 ^ 32"
  shows "hasItemCountById maxDepth i n stash player \<longleftrightarrow>
    unat n \<le> piled i (all_piles (carried player)) + (if stash then stashed i player else 0)"
proof -
  let ?ps = "getAllInventoryItems maxDepth (carried player)"
  have all: "?ps = all_piles (carried player)" using assms(1) inventory_items by (simp add: owner_ok_def)
  have ps: "piled i ?ps = piled i (all_piles (carried player))" by (simp only: all)
  have count: "unat (foldl (\<lambda>n p. if fst (snd p) \<noteq> i then n else n + ucast (snd (snd p))) (0 :: u32) ?ps) = piled i ?ps"
    using foldl_piled [of 0 i ?ps] assms(2) by (simp add: owned_def ps)
  have "unat (k + (case map_of (stashItems player) i of None \<Rightarrow> 0 | Some c \<Rightarrow> c)) = unat k + stashed i player"
    if "unat k = piled i ?ps" for k :: u32
    using that assms(2) by (auto simp: owned_def stashed_def ps unat_word_ariths split: option.splits)
  from this [OF count] show ?thesis
    using foldl_stashed [of "stashItems player"] assms(1)
    by (simp add: hasItemCountById_def Let_def word_le_nat_alt count ps owner_ok_def)
qed

lemma withdraw_spec:
  assumes "distinct (map fst (stashItems player))" and "unat n \<le> stashed i player" and "0 < n"
  shows "\<exists>player'. withdrawItem i n player = (True, player') \<and> carried player' = carried player \<and>
    stashed j player' + (if j = i then unat n else 0) = stashed j player"
proof -
  have "0 < unat n" using assms(3) by (simp add: word_less_nat_alt)
  then obtain c where c: "map_of (stashItems player) i = Some c" "n \<le> c"
    using assms(2) by (auto simp: stashed_def word_le_nat_alt split: option.splits)
  show ?thesis
  proof (cases "c = n")
    case True
    then show ?thesis using c assms(1)
      by (auto simp: withdrawItem_def stashed_def delete_conv)
  next
    case False
    then have "c > n" using c(2) by simp
    moreover have "unat (c - n) = unat c - unat n" using c(2) by (rule unat_sub)
    ultimately show ?thesis using c False
      by (auto simp: withdrawItem_def stashed_def update_conv word_le_nat_alt)
  qed
qed

text \<open>C37: Taking items is all or nothing: it succeeds exactly when inventory and stash together hold enough, takes exactly
  the amount of that item and nothing of any other.\<close>

theorem items_are_taken_exactly:
  assumes "owner_ok maxDepth player" and "owned i player < 2 ^ 32" and "\<And>obj. \<not> ref obj" and "0 < n"
  shows "let (ok, player') = removeItemCountById ref maxDepth i n True player in
    ok = (unat n \<le> owned i player) \<and> owned j player' + (if ok \<and> j = i then unat n else 0) = owned j player"
proof -
  let ?ps = "getAllInventoryItems maxDepth (carried player)"
  have all: "?ps = all_piles (carried player)" using assms(1) inventory_items by (simp add: owner_ok_def)
  have ps: "piled i ?ps = piled i (all_piles (carried player))" by (simp only: all)
  have set: "set ?ps = set (all_piles (carried player))" by (simp only: all)
  have dist: "distinct (map fst ?ps)" unfolding all using assms(1) by (simp add: owner_ok_def purse_ok_def)
  obtain rest inven where r: "remove_piles ref i ?ps n (carried player) = (unat n \<le> piled i ?ps, rest, inven)"
    "unat rest = unat n - piled i ?ps"
    "piled j (all_piles inven) + (if j = i then unat n - unat rest else 0) = piled j (all_piles (carried player))"
    using remove_piles_spec [OF dist, where ref = ref and inven = "carried player" and amount = n and i = i and j = j] assms(1,3,4)
    by (auto simp: owner_ok_def purse_ok_def set)
  note has = has_item_iff [OF assms(1,2), where n = n and stash = True]
  consider "unat n > owned i player" | "unat n \<le> piled i ?ps" | "unat n > piled i ?ps" "unat n \<le> owned i player" by linarith
  then show ?thesis
  proof cases
    case 1
    then show ?thesis by (simp add: removeItemCountById_def has owned_def)
  next
    case 2
    then show ?thesis using r by (auto simp: removeItemCountById_def has owned_def ps stashed_def)
  next
    case 3
    then have rest: "0 < rest" "unat rest \<le> stashed i (player\<lparr>carried := inven\<rparr>)"
      using r(2) by (auto simp: owned_def ps stashed_def word_less_nat_alt)
    obtain player' where "withdrawItem i rest (player\<lparr>carried := inven\<rparr>) = (True, player')" "carried player' = inven"
      "stashed j player' + (if j = i then unat rest else 0) = stashed j player"
      using withdraw_spec [OF _ rest(2,1), of j] assms(1) by (auto simp: owner_ok_def stashed_def)
    then show ?thesis using 3 r rest by (auto simp: removeItemCountById_def has owned_def ps)
  qed
qed

theorem items_are_taken_exactly_witness:
  "let player = some_owner\<lparr>carried := [Bag 1 [Pile 2 46625 3], Pile 3 46625 4], stashItems := [(46625, 10)]\<rparr>;
       (ok, player') = removeItemCountById (\<lambda>_. False) 2 46625 12 True player
   in ok \<and> owned 46625 player' + 12 = 17"
proof -
  let ?player = "some_owner\<lparr>carried := [Bag 1 [Pile 2 46625 3], Pile 3 46625 4], stashItems := [(46625, 10)]\<rparr>"
  have "owned 46625 ?player = 17" by (simp add: owned_def stashed_def)
  moreover have "owner_ok 2 ?player" by (simp add: owner_ok_def purse_ok_def)
  ultimately show ?thesis using items_are_taken_exactly [of 2 ?player 46625 "\<lambda>_. False" 12 46625]
    by (auto simp: Let_def split_beta split: if_splits)
qed

section \<open>One gem in every vessel\<close>

text \<open>A save request that names one gem for all vessels, and a rotation of that gem.\<close>

definition fill_and_rotate ::
  "'g GemGame_scheme \<Rightarrow> u16 \<Rightarrow> 'o GemOwner_scheme \<times> 'z GemWheel_scheme \<Rightarrow> 'o GemOwner_scheme \<times> 'z GemWheel_scheme" where
  "fill_and_rotate game i state =
     switchGemDomain game i (apsnd (fold (\<lambda>affinity. setActiveGem affinity i) enum_affinity) state)"

lemma u8_below_4: "(a :: u8) < 4 \<Longrightarrow> a = 0 \<or> a = 1 \<or> a = 2 \<or> a = 3"
proof -
  assume "a < 4"
  then have "unat a < 4" by (simp add: word_less_nat_alt)
  then have "unat a = 0 \<or> unat a = 1 \<or> unat a = 2 \<or> unat a = 3" by linarith
  moreover have "unat a = k \<Longrightarrow> a = word_of_nat k" for k by auto
  from this [of 0] this [of 1] this [of 2] this [of 3] have "unat a = 0 \<Longrightarrow> a = 0" "unat a = 1 \<Longrightarrow> a = 1" "unat a = 2 \<Longrightarrow> a = 2"
    "unat a = 3 \<Longrightarrow> a = 3" by simp_all
  ultimately show ?thesis by blast
qed

lemma getGem_active [simp]: "getGem i (w\<lparr>m_activeGems := gems\<rparr>) = getGem i w"
  by (simp add: getGem_def)

lemma only_own_vessel:
  assumes "getGem i w = g" and "is_gem g" and "gem_affinity g < 4"
  shows "fold (\<lambda>affinity. setActiveGem affinity i) enum_affinity w = w\<lparr>m_activeGems := (m_activeGems w)[unat (gem_affinity g) := g]\<rparr>"
  using assms(1,2) u8_below_4 [OF assms(3)] by (auto simp: enum_affinity_def setActiveGem_def Let_def)

lemma pay_from_bank:
  assumes "carried player = []" and "unat cost \<le> unat (bankBalance player)"
  shows "pay_gold game cost player = (True, player\<lparr>bankBalance := bankBalance player - cost\<rparr>)"
proof -
  have "\<not> bankBalance player < cost" using assms(2) by (simp add: word_less_nat_alt)
  then show ?thesis using assms(1)
    by (cases "cost = 0") (simp_all add: pay_gold_def removeMoney_def sort_money_def Let_def)
qed

lemma fill_and_rotate_step:
  assumes "getGem i w = g" and "is_gem g" and "\<not> gem_locked g" and "gem_affinity g < 4"
    and "carried player = []" and "unat (getGemRotateCost game (gem_quality g)) \<le> unat (bankBalance player)"
  shows "fill_and_rotate game i (player, w) =
    (player\<lparr>bankBalance := bankBalance player - getGemRotateCost game (gem_quality g)\<rparr>,
     w\<lparr>m_activeGems := (m_activeGems w)[unat (gem_affinity g) := g],
       m_revealedGems := (m_revealedGems w)[unat i := g\<lparr>gem_affinity := convertWheelGemAffinityToDomain (gem_affinity g)\<rparr>]\<rparr>)"
  using assms(1,2,3) pay_from_bank [where game = game, OF assms(5,6)]
  by (simp add: fill_and_rotate_def only_own_vessel [OF assms(1,2,4)] switchGemDomain_def Let_def)

lemma getGem_updated:
  "is_gem (getGem i w) \<Longrightarrow> getGem i (w\<lparr>m_activeGems := gems, m_revealedGems := (m_revealedGems w)[unat i := g']\<rparr>) = g'"
  using getGem_is_gem [of i w] by (simp add: getGem_def)

definition rotated :: "PlayerWheelGem \<Rightarrow> PlayerWheelGem" where
  "rotated g = g\<lparr>gem_affinity := convertWheelGemAffinityToDomain (gem_affinity g)\<rparr>"

lemma rotated_simps [simp]:
  "gem_uuid (rotated g) = gem_uuid g" "gem_locked (rotated g) = gem_locked g" "gem_quality (rotated g) = gem_quality g"
  "is_gem (rotated g) = is_gem g" "gem_affinity (rotated g) = convertWheelGemAffinityToDomain (gem_affinity g)"
  by (simp_all add: rotated_def is_gem_def)

lemma convert_below: "convertWheelGemAffinityToDomain a < 4"
  by (simp add: convertWheelGemAffinityToDomain_def)

lemma fill_and_rotate_run:
  assumes "getGem i w = g" and "is_gem g" and "\<not> gem_locked g" and "gem_affinity g < 4"
    and "carried player = []" and "n * unat (getGemRotateCost game (gem_quality g)) \<le> unat (bankBalance player)"
  shows "\<exists>player'. (fill_and_rotate game i ^^ n) (player, w) =
    (player', w\<lparr>m_activeGems := fold (\<lambda>k gems. gems[unat (gem_affinity ((rotated ^^ k) g)) := (rotated ^^ k) g]) [0..<n] (m_activeGems w),
       m_revealedGems := (m_revealedGems w)[unat i := (rotated ^^ n) g]\<rparr>) \<and>
    carried player' = [] \<and> unat (bankBalance player') + n * unat (getGemRotateCost game (gem_quality g)) = unat (bankBalance player)"
  using assms(6)
proof (induction n)
  case 0
  then show ?case using assms(1,2,5) getGem_is_gem [of i w] list_update_id [of "m_revealedGems w" "unat i"] by simp
next
  case (Suc n)
  let ?cost = "getGemRotateCost game (gem_quality g)" and ?g = "(rotated ^^ n) g"
  let ?active = "fold (\<lambda>k gems. gems[unat (gem_affinity ((rotated ^^ k) g)) := (rotated ^^ k) g]) [0..<n] (m_activeGems w)"
  let ?w = "w\<lparr>m_activeGems := ?active, m_revealedGems := (m_revealedGems w)[unat i := ?g]\<rparr>"
  obtain player' where IH: "(fill_and_rotate game i ^^ n) (player, w) = (player', ?w)" "carried player' = []"
    "unat (bankBalance player') + n * unat ?cost = unat (bankBalance player)"
    using Suc.IH Suc.prems by auto
  have g: "getGem i ?w = ?g" using getGem_updated [of i w] assms(1,2) by simp
  have ok: "is_gem ?g" "\<not> gem_locked ?g" "gem_affinity ?g < 4" "gem_quality ?g = gem_quality g"
    using assms(2,3,4) by (induction n) (simp_all add: convert_below)
  have enough: "unat ?cost \<le> unat (bankBalance player')" using IH(3) Suc.prems by simp
  then have "unat (bankBalance player' - ?cost) = unat (bankBalance player') - unat ?cost"
    by (simp add: unat_sub word_le_nat_alt)
  moreover have "fill_and_rotate game i (player', ?w) =
      (player'\<lparr>bankBalance := bankBalance player' - ?cost\<rparr>,
       ?w\<lparr>m_activeGems := ?active[unat (gem_affinity ?g) := ?g],
         m_revealedGems := (m_revealedGems w)[unat i := rotated ?g]\<rparr>)"
    using fill_and_rotate_step [where game = game, OF g ok(1,2,3) IH(2)] enough by (simp add: ok(4) rotated_def [symmetric])
  ultimately show ?case using IH enough by simp
qed

text \<open>C39: One gem fills all four vessels: rotating it after each save leaves the earlier copies in their vessels, and for the
  price of four rotations every vessel holds the same gem.\<close>

theorem one_gem_fills_every_vessel:
  assumes "unat i < length (m_revealedGems w)" and "m_revealedGems w ! unat i = g" and "is_gem g" and "\<not> gem_locked g"
    and "gem_affinity g < 4" and "length (m_activeGems w) = 4" and "carried player = []"
    and "4 * unat (getGemRotateCost game (gem_quality g)) \<le> unat (bankBalance player)"
  shows "map gem_uuid (m_activeGems (snd ((fill_and_rotate game i ^^ 4) (player, w)))) = replicate 4 (gem_uuid g)"
proof -
  have "getGem i w = g" using assms(1,2) by (simp add: getGem_def)
  note run = fill_and_rotate_run [where n = 4 and game = game, OF this assms(3,4,5,7,8)]
  obtain x0 x1 x2 x3 where active: "m_activeGems w = [x0, x1, x2, x3]"
    using assms(6) by (auto simp: eval_nat_numeral length_Suc_conv)
  have turns: "[0..<4] = [0, 1, 2, 3]" "(rotated ^^ 2) g = rotated (rotated g)" "(rotated ^^ 3) g = rotated (rotated (rotated g))"
    "replicate 4 (gem_uuid g) = [gem_uuid g, gem_uuid g, gem_uuid g, gem_uuid g]"
    by (simp_all add: eval_nat_numeral)
  have "map gem_uuid (fold (\<lambda>k gems. gems[unat (gem_affinity ((rotated ^^ k) g)) := (rotated ^^ k) g]) [0..<4] [x0, x1, x2, x3])
      = replicate 4 (gem_uuid g)"
    using u8_below_4 [OF assms(5)] unfolding turns by (auto simp: turns convertWheelGemAffinityToDomain_def)
  then show ?thesis using run by (auto simp: active)
qed

theorem one_gem_fills_every_vessel_witness:
  "map gem_uuid (m_activeGems (snd ((fill_and_rotate some_game 1 ^^ 4) (some_owner, some_wheel)))) = [''8'', ''8'', ''8'', ''8'']"
proof -
  have "replicate 4 x = [x, x, x, x]" for x :: string by (simp add: eval_nat_numeral)
  then show ?thesis
    using one_gem_fills_every_vessel [of 1 some_wheel "some_gem ''8'' False" some_owner some_game]
    by (simp add: some_wheel_def some_gem_def some_owner_def some_game_def is_gem_def emptyGem_def getGemRotateCost_def by_quality_def)
qed

section \<open>Saving and loading\<close>

lemma deserialize_serialize: "gem_deserialize (gem_uuid gem) (gem_serialize now gem) = Some gem"
proof -
  have "ucast (ucast (n :: u8) :: 32 word) = n" for n by (rule bit_word_eqI) (simp add: bit_simps)
  then show ?thesis
    by (simp add: gem_deserialize_def gem_serialize_def make_wrapper_def createMapFromRange_def get_bool_def get_int_def Let_def)
qed

lemma fold_save_other: "u \<notin> gem_uuid ` set gems \<Longrightarrow> kv_revealed (fold (gem_save now) gems kv) u = kv_revealed kv u"
  by (induction gems arbitrary: kv) (auto simp: gem_save_def)

lemma fold_save_gem:
  "distinct (map gem_uuid gems) \<Longrightarrow> gem \<in> set gems \<Longrightarrow>
     kv_revealed (fold (gem_save now) gems kv) (gem_uuid gem) = Some (gem_serialize now gem)"
proof (induction gems arbitrary: kv)
  case (Cons g gems)
  have "kv_revealed (gem_save now g kv) (gem_uuid g) = Some (gem_serialize now g)" by (simp add: gem_save_def)
  then show ?case using Cons by (cases "gem = g") (auto simp: fold_save_other)
qed simp

lemma fold_remove: "kv_revealed (fold gem_remove gems kv) u = (if u \<in> gem_uuid ` set gems then None else kv_revealed kv u)"
  by (induction gems arbitrary: kv) (auto simp: gem_remove_def)

definition gem_of :: "PlayerWheelGem list \<Rightarrow> string \<Rightarrow> PlayerWheelGem" where
  "gem_of gems uuid = (case find (\<lambda>gem. gem_uuid gem = uuid) gems of Some gem \<Rightarrow> gem | None \<Rightarrow> emptyGem)"

lemma gem_of_in: "distinct (map gem_uuid gems) \<Longrightarrow> gem \<in> set gems \<Longrightarrow> gem_of gems (gem_uuid gem) = gem"
  by (induction gems) (auto simp: gem_of_def)

lemma gem_of_out: "uuid \<notin> gem_uuid ` set gems \<Longrightarrow> gem_of gems uuid = emptyGem"
  by (induction gems) (auto simp: gem_of_def)

lemma load_gems_all:
  "(\<And>u. u \<in> set uuids \<Longrightarrow> gem_load kv u = Some (h u)) \<Longrightarrow> load_gems kv uuids = Some (filter is_gem (map h uuids))"
  by (induction uuids) auto

text \<open>The gems of a wheel have different identifiers, and the store holds nothing but gems that were revealed or destroyed.\<close>

definition gems_ok :: "'z GemWheel_scheme \<Rightarrow> 'd GemsKV \<Rightarrow> bool" where
  "gems_ok w kv \<longleftrightarrow> distinct (map gem_uuid (m_revealedGems w)) \<and> list_all is_gem (m_revealedGems w) \<and>
     length (m_activeGems w) = 4 \<and> dom (kv_revealed kv) \<subseteq> gem_uuid ` set (m_revealedGems w @ m_destroyedGems w)"

definition fresh_vessels :: "'z GemWheel_scheme \<Rightarrow> bool" where
  "fresh_vessels w \<longleftrightarrow> m_revealedGems w = [] \<and> m_activeGems w = replicate 4 emptyGem"

lemma load_saved_gem:
  assumes "gems_ok w kv"
  shows "gem_load (saveRevealedGems now w kv) u = Some (gem_of (m_revealedGems w) u)"
proof (cases "u \<in> gem_uuid ` set (m_revealedGems w)")
  case True
  then obtain g where "g \<in> set (m_revealedGems w)" "u = gem_uuid g" by auto
  then show ?thesis using assms
    by (simp add: gems_ok_def gem_load_def saveRevealedGems_def fold_save_gem deserialize_serialize gem_of_in)
next
  case False
  then have "kv_revealed (saveRevealedGems now w kv) u = None"
    using assms by (auto simp: saveRevealedGems_def fold_save_other fold_remove gems_ok_def)
  then show ?thesis using False by (simp add: gem_load_def gem_of_out)
qed

lemma load_saved_gems:
  assumes "gems_ok w kv" and "fresh_vessels fresh" and "distinct keys" and "dom (kv_revealed (saveRevealedGems now w kv)) \<subseteq> set keys"
    and "\<And>uuids. mset (sort_uuids uuids) = mset uuids"
  shows "\<exists>gems. loadRevealedGems sort_uuids keys (saveRevealedGems now w kv) fresh = Some (fresh\<lparr>m_revealedGems := gems\<rparr>) \<and>
    mset gems = mset (m_revealedGems w)"
proof -
  let ?kv = "saveRevealedGems now w kv" and ?gems = "m_revealedGems w"
  let ?loaded = "filter is_gem (map (gem_of ?gems) (sort_uuids keys))"
  note ok = assms(1) [unfolded gems_ok_def]
  have load: "load_gems ?kv (sort_uuids keys) = Some ?loaded" by (rule load_gems_all) (rule load_saved_gem [OF assms(1)])
  have sorted: "set (sort_uuids keys) = set keys" "distinct (sort_uuids keys)"
    using assms(5) [of keys] assms(3) mset_eq_imp_distinct_iff mset_eq_setD by blast+
  have known: "g \<in> set ?gems \<Longrightarrow> gem_uuid g \<in> set keys" for g
    using fold_save_gem [of ?gems g now] ok assms(4) by (auto simp: saveRevealedGems_def dom_def)
  have id: "is_gem (gem_of ?gems u) \<Longrightarrow> gem_uuid (gem_of ?gems u) = u \<and> gem_of ?gems u \<in> set ?gems" for u
    using ok gem_of_in [of ?gems] gem_of_out [of u ?gems] by (cases "u \<in> gem_uuid ` set ?gems") (auto simp: is_gem_def emptyGem_def)
  have "set ?loaded = set ?gems"
    using known id ok gem_of_in [of ?gems] unfolding list_all_iff set_filter set_map sorted(1) by (auto simp: image_iff) metis+
  moreover have "distinct ?loaded"
  proof -
    have "distinct us \<Longrightarrow> distinct (filter is_gem (map (gem_of ?gems) us))" for us
    proof (induction us)
      case (Cons u us)
      then show ?case using id by auto metis
    qed simp
    then show ?thesis using sorted(2) by blast
  qed
  ultimately have "mset ?loaded = mset ?gems" using ok by (metis distinct_map set_eq_iff_mset_eq_distinct)
  moreover have "fresh = fresh\<lparr>m_revealedGems := []\<rparr>" "m_revealedGems fresh = []" using assms(2) by (simp_all add: fresh_vessels_def)
  moreover have "?gems = []" if "keys = []" using known that by (cases ?gems) auto
  ultimately show ?thesis using load by (cases "keys = []") (auto simp: loadRevealedGems_def)
qed

lemma save_active_other: "kv_revealed (saveActiveGems now w kv) = kv_revealed kv"
  by (simp add: saveActiveGems_def enum_affinity_def saveActiveGem_def Let_def)

lemma load_active_revealed [simp]: "m_revealedGems (loadActiveGem kv a w) = m_revealedGems w"
  by (simp add: loadActiveGem_def Let_def split: option.split)

lemma load_active:
  "m_activeGems (loadActiveGem kv a w) =
    (let g = (case kv_active kv (affinity_name a) of None \<Rightarrow> emptyGem
        | Some v \<Rightarrow> if get_string v = [] then emptyGem else gem_of (m_revealedGems w) (get_string v))
     in if is_gem g then (m_activeGems w)[unat a := g] else m_activeGems w)"
proof -
  have "is_gem g" if "find (\<lambda>gem. gem_uuid gem = uuid) gems = Some g" "uuid \<noteq> []" for g uuid gems
    using that by (auto simp: find_Some_iff is_gem_def)
  then show ?thesis
    by (auto simp: loadActiveGem_def gem_of_def is_gem_def emptyGem_def Let_def split: option.splits)
qed

lemma saved_active:
  assumes "a \<in> set enum_affinity"
  shows "kv_active (saveActiveGems now w kv) (affinity_name a) =
    (let g = m_activeGems w ! unat a in if is_gem g then Some (make_wrapper now (StringType (gem_uuid g)) 0) else None)"
  using assms by (auto simp: saveActiveGems_def enum_affinity_def saveActiveGem_def affinity_name_def Let_def)

lemma load_saved_active:
  assumes "a \<in> set enum_affinity"
  shows "m_activeGems (loadActiveGem (saveActiveGems now w kv) a w') =
    (let g = gem_of (m_revealedGems w') (gem_uuid (m_activeGems w ! unat a))
     in if is_gem (m_activeGems w ! unat a) \<and> is_gem g then (m_activeGems w')[unat a := g] else m_activeGems w')"
  by (simp add: load_active saved_active [OF assms] Let_def make_wrapper_def get_string_def is_gem_def emptyGem_def)

text \<open>C36: At the next login a player has the gems of the last logout, and each vessel has the gem of the same
  identifier, unless that gem was destroyed meanwhile: then the vessel is empty.\<close>

theorem saved_gems_are_loaded:
  assumes "gems_ok w kv" and "fresh_vessels fresh" and "distinct keys"
    and "dom (kv_revealed (saveRevealedGems now w kv)) \<subseteq> set keys" and "\<And>uuids. mset (sort_uuids uuids) = mset uuids"
  defines "kv' \<equiv> saveActiveGems now w (saveRevealedGems now w kv)"
  shows "case loadRevealedGems sort_uuids keys kv' fresh of None \<Rightarrow> False
    | Some w' \<Rightarrow> mset (m_revealedGems w') = mset (m_revealedGems w) \<and>
        map gem_uuid (m_activeGems (loadActiveGems kv' w')) =
          map (\<lambda>g. if gem_uuid g \<in> gem_uuid ` set (m_revealedGems w) then gem_uuid g else []) (m_activeGems w)"
proof -
  have "gem_load kv' u = gem_load (saveRevealedGems now w kv) u" for u by (simp add: kv'_def gem_load_def save_active_other)
  then have "load_gems kv' uuids = load_gems (saveRevealedGems now w kv) uuids" for uuids
    by (induction uuids) (simp_all split: option.split)
  then obtain gems where gems: "loadRevealedGems sort_uuids keys kv' fresh = Some (fresh\<lparr>m_revealedGems := gems\<rparr>)"
    "mset gems = mset (m_revealedGems w)"
    using load_saved_gems [OF assms(1-5)] by (cases "keys = []") (auto simp: loadRevealedGems_def)
  have set: "set gems = set (m_revealedGems w)" using gems(2) by (metis set_mset_mset)
  have dist: "distinct (map gem_uuid gems)"
    using assms(1) gems(2) mset_eq_imp_distinct_iff [of "map gem_uuid gems" "map gem_uuid (m_revealedGems w)"]
    by (simp add: gems_ok_def)
  have uuid: "gem_uuid (gem_of gems u) = (if u \<in> gem_uuid ` set (m_revealedGems w) then u else [])" for u
    using gem_of_in [OF dist] gem_of_out [of u gems] by (auto simp: set [symmetric] emptyGem_def)
  obtain g0 g1 g2 g3 where active: "m_activeGems w = [g0, g1, g2, g3]"
    using assms(1) by (auto simp: gems_ok_def eval_nat_numeral length_Suc_conv)
  have vessels: "replicate 4 emptyGem = [emptyGem, emptyGem, emptyGem, emptyGem]" by (simp add: eval_nat_numeral)
  have enum: "0 \<in> set enum_affinity" "1 \<in> set enum_affinity" "2 \<in> set enum_affinity" "3 \<in> set enum_affinity"
    by (simp_all add: enum_affinity_def)
  have empty: "gem_uuid emptyGem = []" by (simp add: emptyGem_def)
  let ?u = "\<lambda>g. gem_uuid (if is_gem g \<and> is_gem (gem_of gems (gem_uuid g)) then gem_of gems (gem_uuid g) else emptyGem)"
  have "?u g = (if gem_uuid g \<in> gem_uuid ` set (m_revealedGems w) then gem_uuid g else [])" for g
    using uuid [of "gem_uuid g"] by (auto simp: is_gem_def empty)
  moreover have "map gem_uuid (m_activeGems (loadActiveGems kv' (fresh\<lparr>m_revealedGems := gems\<rparr>))) = map ?u (m_activeGems w)"
    using assms(2) unfolding loadActiveGems_def enum_affinity_def fresh_vessels_def kv'_def
    by (simp add: load_saved_active [OF enum(1)] load_saved_active [OF enum(2)] load_saved_active [OF enum(3)]
        load_saved_active [OF enum(4)] active vessels Let_def)
  ultimately show ?thesis using gems by simp
qed

theorem saved_gems_are_loaded_witness:
  "let w = some_wheel\<lparr>m_activeGems := [some_gem ''8'' False, emptyGem, emptyGem, some_gem ''6'' False]\<rparr>;
       kv = saveActiveGems 1 w (saveRevealedGems 1 w \<lparr>kv_revealed = Map.empty, kv_active = Map.empty, kv_grades = Map.empty, kv_initialGems = None\<rparr>)
   in case loadRevealedGems id [''7'', ''8''] kv (some_wheel\<lparr>m_revealedGems := []\<rparr>) of None \<Rightarrow> False
     | Some w' \<Rightarrow> map gem_uuid (m_activeGems (loadActiveGems kv w')) = [''8'', [], [], []]"
proof -
  let ?w = "some_wheel\<lparr>m_activeGems := [some_gem ''8'' False, emptyGem, emptyGem, some_gem ''6'' False]\<rparr>"
  let ?kv = "\<lparr>kv_revealed = Map.empty, kv_active = Map.empty, kv_grades = Map.empty, kv_initialGems = None\<rparr> :: 'a GemsKV"
  have "gems_ok ?w ?kv" by (simp add: gems_ok_def some_wheel_def some_gem_def is_gem_def emptyGem_def)
  moreover have "fresh_vessels (some_wheel\<lparr>m_revealedGems := []\<rparr>)" by (simp add: fresh_vessels_def some_wheel_def)
  moreover have "dom (kv_revealed (saveRevealedGems 1 ?w ?kv)) \<subseteq> set [''7'', ''8'']"
    by (auto simp: saveRevealedGems_def some_wheel_def some_gem_def gem_save_def split: if_splits)
  ultimately show ?thesis
    using saved_gems_are_loaded [of ?w ?kv "some_wheel\<lparr>m_revealedGems := []\<rparr>" "[''7'', ''8'']" 1 id]
    by (auto simp: Let_def some_wheel_def some_gem_def emptyGem_def split: option.splits)
qed

section \<open>Grades in the store\<close>









end
