(* ===== verification/Spec2Isabelle.thy ===== *)
theory Spec2Isabelle
  imports Bank Connection Vector_Set Array_List Wildcard_Tree Party_View Party_Analyzer KV_Store Text_Tools Dispatcher Wakeup Waiting_List Path_Finding Trade Advancement Skills Item_Roundtrip Decay Wheel_Slots Wheel_Gems
begin

text \<open>
  Crystal Server: a verification library.

  Crystal Server is a game server in C++: clients connect over TCP, an event loop runs their requests and
  the timers of the world one after the other, and the world (players, items, parties, trades) is changed by
  these events.  The library models the parts that carry the rules of the server and proves what makes
  them correct.  File names are relative to \<^verbatim>\<open>src/\<close> of the server; every definition carries the name
  of the function or type it models, with a suffix or prefix where the name is taken.

  \<^bold>\<open>How a request travels, and where it is modelled.\<close>  A packet arrives at a \<open>Connection\<close>
  (\<^verbatim>\<open>server/network/connection/connection.cpp\<close>, theory \<open>Connection\<close>), which reads its header and body,
  limits the rate, and gives it to its \<open>Protocol\<close> (\<^verbatim>\<open>server/network/protocol/protocol.cpp\<close>, theory
  \<open>Protocol\<close>), which checks the sequence number or the checksum (theory \<open>Checksum\<close>), decrypts it
  (theory \<open>Xtea\<close>) and dispatches its payload, a \<open>NetworkMessage\<close> (theory \<open>Network_Message\<close>).
  Answers are written into \<open>OutputMessage\<close>s (theory \<open>Output_Message\<close>), gathered by the autosend buffer,
  framed, encrypted, numbered and queued by the connection.  Requests become tasks of the \<open>Dispatcher\<close>
  (\<^verbatim>\<open>game/scheduling\<close>, theories \<open>Dispatcher\<close> and \<open>Wakeup\<close>), and a client that finds the server full
  stands in the waiting list (\<^verbatim>\<open>creatures/players/management/waitlist.cpp\<close>, theory \<open>Waiting_List\<close>).
  The tasks change the world: players trade (\<open>Trade\<close>), form parties (\<open>Party\<close>, \<open>Party_View\<close>,
  \<open>Party_Analyzer\<close>), pay and bank (\<open>Money\<close>, \<open>Bank\<close>), gain and lose levels and skills (\<open>Advancement\<close>,
  \<open>Skills\<close>); creatures find their way (\<open>AStar_Nodes\<close>, \<open>Path_Finding\<close>, over the positions of \<open>Geometry\<close>);
  items carry attributes (\<open>Item_Attributes\<close>), are saved and loaded (\<open>Prop_Stream\<close>, \<open>Item_Serialization\<close>,
  \<open>Item_Roundtrip\<close>) and decay (\<open>Decay\<close>); values are kept in a key-value store (\<open>Value_Wrapper\<close>,
  \<open>KV_Store\<close>).  The containers and tools they share are \<open>Vector_Set\<close>, \<open>Array_List\<close>, \<open>Wildcard_Tree\<close> and
  \<open>Text_Tools\<close>.

  \<^bold>\<open>Conventions.\<close>  Machine integers are words of their width and wrap as in the code, where the code
  computes in a wide signed type that cannot overflow they are \<open>int\<close>, and \<open>int32\<close> of \<open>Prelude\<close> is the
  conversion to 32 bits.  A vector is a list; an iterator or pointer is an index, a key or a number of an
  object, so that aliasing and dangling are visible.  An operation that would be undefined in C++ (access
  outside an array, an iterator whose node was erased) returns \<open>None\<close>, and where it cannot happen that is
  proved.  Effects on other parts (reads, writes, timers, messages to clients) are values that the
  handlers return.  Code outside the repository (zlib, RSA, locale conversions, the Lua interpreter, the
  database) and floating-point formulas are parameters; what is assumed of them stands in the statements.

  \<^bold>\<open>The theories, the code they model, and what their lemmas show.\<close>

  \<^item> \<open>Prelude\<close>: reading and writing at an offset of a list, little-endian bytes of a word (\<open>bytes_of\<close>,
  \<open>word_of_bytes\<close>), \<open>int32\<close>, and the lemma collections the other theories use.

  \<^item> \<open>Geometry\<close> (\<^verbatim>\<open>game/movement/position.hpp\<close>, \<^verbatim>\<open>position.cpp\<close>, \<^verbatim>\<open>utils/tools.cpp\<close>): the order of
  positions is total, its hash injective, opposite steps cancel, and walking by \<open>getDirectionTo\<close> closes the
  distance by one per step.

  \<^item> \<open>Network_Message\<close>, \<open>Output_Message\<close> (\<^verbatim>\<open>server/network/message\<close>): readers never leave the buffer, the
  locale \<open>message_codec\<close> gives the round trip of any sequence of fields once for every field type, and
  \<open>framed\<close> says which bytes a packet puts on the wire.

  \<^item> \<open>Xtea\<close>, \<open>Checksum\<close>, \<open>Protocol\<close>, \<open>Connection\<close>: the in-place cipher is inverted by decryption (locale
  \<open>block_cipher\<close> on the rounds), the checksum with deferred reductions is Adler-32, a packet out of
  sequence is dropped, the autosend buffer keeps the stream, and what one connection sends the
  other receives.  The sending side is a step relation with one rule per event of the event loop; on every
  run at most one write is under way and messages leave in order.

  \<^item> \<open>Dispatcher\<close>, \<open>Wakeup\<close> (\<^verbatim>\<open>game/scheduling/dispatcher.cpp\<close>, \<^verbatim>\<open>task.cpp\<close>): every queued event runs once
  and in order, every scheduled task that is due runs in the next iteration, and the wake-up
  of the loop can be lost.

  \<^item> \<open>Waiting_List\<close>: a step relation on the two lists and the accounts, whose iterators name nodes; nothing
  undefined is reached, nobody is overtaken, and a client that keeps retrying is let in.

  \<^item> \<open>AStar_Nodes\<close>, \<open>Path_Finding\<close> (\<^verbatim>\<open>map/utils/astarnodes.cpp\<close>, \<^verbatim>\<open>map/map.cpp\<close>): the scalar and the vector
  builds of the node store satisfy the same contracts (\<open>position_search\<close>, \<open>best_first\<close>), and over
  them (\<open>path_search\<close>) the search ends and the path it returns leads to the target.  A round of the loop
  makes one of at most 512 nodes, or lowers the cost of one, or closes one; these three, in this
  order, are the measure of its termination.

  \<^item> \<open>Trade\<close> (\<open>playerRequestTrade\<close> to \<open>internalCloseTrade\<close> of \<^verbatim>\<open>game/game.cpp\<close>): on every run partners point
  at each other and items change hands only when both have accepted.

  \<^item> \<open>Party\<close>, \<open>Party_View\<close>, \<open>Party_Analyzer\<close> (\<^verbatim>\<open>creatures/players/grouping/party.cpp\<close>): the two-way pointers of
  parties and players stay consistent under every sequence of handlers, and the statistics are the
  values of the items they count.

  \<^item> \<open>Money\<close>, \<open>Bank\<close> (\<^verbatim>\<open>game/game.cpp\<close>, \<^verbatim>\<open>game/bank/bank.cpp\<close>): payments take exactly their price, transfers
  conserve the total, no account is overdrawn; \<open>bankable\<close> is the interface of players and guilds.

  \<^item> \<open>Advancement\<close>, \<open>Skills\<close> (\<^verbatim>\<open>creatures/players/player.cpp\<close>): the level is the one the experience gives, a
  death undoes training.  The loops over levels end because each round uses up experience; skills and
  magic share the locales \<open>advancing\<close>, \<open>losing\<close> and \<open>regaining\<close>, interpreted on both.

  \<^item> \<open>Item_Attributes\<close>, \<open>Prop_Stream\<close>, \<open>Item_Serialization\<close>, \<open>Item_Roundtrip\<close> (\<^verbatim>\<open>items/item.cpp\<close>,
  \<^verbatim>\<open>items/functions/item\<close>, \<^verbatim>\<open>io/fileloader.hpp\<close>): attributes are typed, and an item that is saved and read
  gets its attributes back; the theory also exhibits the items that do not.

  \<^item> \<open>Decay\<close> (\<^verbatim>\<open>items/decay/decay.cpp\<close>): a check is pending as long as something decays, pausing keeps the
  time left, and a check may use an iterator whose node is gone.

  \<^item> \<open>Value_Wrapper\<close>, \<open>KV_Store\<close> (\<^verbatim>\<open>kv\<close>): the cache in front of a backend with the contract \<open>kv_backend\<close> is a map,
  whatever it evicts; the SQL backend is an interpretation of the contract.
  \<^item> \<open>Wheel_Slots\<close>, \<open>Wheel_Gems\<close> (\<^verbatim>\<open>creatures/players/wheel\<close>): the wheel of destiny.  \<open>PlayerWheel\<close> is the
  record of points and scrolls, \<open>GemWheel\<close> extends it by gems and grades.  The nested conditions on the
  36 slots are one rule over one picture of a quadrant; saving never overdraws the points, a wheel saved from
  scratch is connected to its centre, but a request can cut an outer slot off.  Locked gems are safe on
  every run (locale \<open>gem_law\<close>, interpreted for locks and for the count of grades; locale \<open>slot_blind\<close> for what
  saving slots does not touch), gems are the same after the next login, and one gem can fill all vessels.
  \<^item> \<open>Vector_Set\<close>, \<open>Array_List\<close>, \<open>Wildcard_Tree\<close>, \<open>Text_Tools\<close> (\<^verbatim>\<open>utils\<close>): the containers refine a set, a list
  and a set of names (locales \<open>lazy_set\<close> and \<open>deque\<close>); the text functions agree with their
  descriptions.

  \<^bold>\<open>Bounds.\<close>  No definition is run with fuel: a loop is structural, has a termination proof, or is a partial
  function into an option for which a theorem says that it returns (the path search).
  Hypotheses on sizes are those under which the code's integers do not wrap: a message of at most
  65500 bytes, times below \<open>2 ^ 61\<close> milliseconds, sums of money below \<open>2 ^ 64\<close>, and so on; each
  statement says which.

  \<^bold>\<open>Not modelled.\<close>  Glue to libraries (Lua bindings, database, HTTP, RSA), file formats read through a
  memory mapping (maps, OTB trees), packet layouts fixed by the client (\<^verbatim>\<open>protocolgame.cpp\<close> is a function per
  packet over the readers and writers of \<open>Network_Message\<close>), floating-point formulas (damage, shares of
  experience) and logging.  Left for later: the bonuses of the wheel of destiny,
  conditions and combat, monsters and spawns, houses, chat, guilds and the market.
\<close>

end
